(* ===== verification/OS_Prelude.thy ===== *)
theory OS_Prelude
  imports Main "HOL-Library.Word"
begin

unbundle bit_operations_syntax

text \<open>
  Shared vocabulary of the development: C integer conversions with the wrap-around written
  out, the faults a C run can end in, results of operations that may fault, and the generic
  lemmas on them that the component theories use.
\<close>

section \<open>Collections of facts\<close>

named_theorems c_conv \<open>identity of a C conversion on values in range\<close>
named_theorems res_simps \<open>evaluation of results\<close>
named_theorems c_defs \<open>definitions of the macros and constants of the program\<close>

section \<open>C integers\<close>

text \<open>
  A C integer is a mathematical integer; a conversion to a type of a given width is one of the
  functions below. Unsigned arithmetic wraps at every operation; signed arithmetic is written
  with \<open>s32\<close> where an operation can leave the range (two's complement, what the compiler emits).
\<close>

type_synonym cint = int
type_synonym byte = "8 word"

definition u32 :: "int \<Rightarrow> int" where
  "u32 x = x mod 4294967296"

definition s32 :: "int \<Rightarrow> int" where
  "s32 x = (x + 2147483648) mod 4294967296 - 2147483648"

definition u64 :: "int \<Rightarrow> int" where
  "u64 x = x mod 18446744073709551616"

section \<open>Faults and results\<close>

text \<open>
  A run of C code ends with a value or in a fault: a null or wild pointer is followed, an array
  is indexed outside its bounds, a variable is read before it is written, a loop does not end,
  or the program calls \<open>exit\<close>.
\<close>

datatype fault =
    NullDeref
  | WildPointer
  | OutOfBounds
  | Uninitialised
  | Diverges
  | Exit nat

type_synonym 'a res = "fault + 'a"

abbreviation ok :: "'a \<Rightarrow> 'a res" where
  "ok \<equiv> Inr"

definition bindR :: "'a res \<Rightarrow> ('a \<Rightarrow> 'b res) \<Rightarrow> 'b res" where
  "bindR m f = (case m of Inl e \<Rightarrow> Inl e | Inr x \<Rightarrow> f x)"

definition from_opt :: "fault \<Rightarrow> 'a option \<Rightarrow> 'a res" where
  "from_opt e x = (case x of None \<Rightarrow> Inl e | Some y \<Rightarrow> Inr y)"

definition guardR :: "bool \<Rightarrow> fault \<Rightarrow> 'a res \<Rightarrow> 'a res" where
  "guardR c e m = (if c then m else Inl e)"

section \<open>Facts\<close>

lemma u32_id [c_conv]: "0 \<le> x \<Longrightarrow> x < 4294967296 \<Longrightarrow> u32 x = x"
  by (simp add: u32_def)

lemma u64_id [c_conv]: "0 \<le> x \<Longrightarrow> x < 18446744073709551616 \<Longrightarrow> u64 x = x"
  by (simp add: u64_def)

lemma s32_id [c_conv]: "- 2147483648 \<le> x \<Longrightarrow> x < 2147483648 \<Longrightarrow> s32 x = x"
  by (simp add: s32_def)

lemma u32_bounds [simp]: "0 \<le> u32 x" "u32 x < 4294967296"
  by (simp_all add: u32_def)

lemma u64_bounds [simp]: "0 \<le> u64 x" "u64 x < 18446744073709551616"
  by (simp_all add: u64_def)

lemma s32_bounds [simp]: "- 2147483648 \<le> s32 x" "s32 x < 2147483648"
  by (simp_all add: s32_def)

lemma u64_idem [simp]: "u64 (u64 x) = u64 x"
  by (simp add: u64_def)

lemma bindR_simps [simp, res_simps]:
  "bindR (Inl e) f = Inl e"
  "bindR (Inr x) f = f x"
  by (simp_all add: bindR_def)

lemma bindR_eq_InrE [elim!]:
  assumes "bindR m f = Inr y"
  obtains x where "m = Inr x" and "f x = Inr y"
  using assms by (cases m) auto

lemma bindR_eq_Inr_iff: "bindR m f = Inr y \<longleftrightarrow> (\<exists>x. m = Inr x \<and> f x = Inr y)"
  by (cases m) auto

lemma guardR_simps [simp, res_simps]:
  "guardR True e m = m"
  "guardR False e m = Inl e"
  by (simp_all add: guardR_def)

lemma guardR_eq_InrE [elim!]:
  assumes "guardR c e m = Inr y"
  obtains c and "m = Inr y"
  using assms by (cases c) auto

lemma guardR_eq_Inr_iff: "guardR c e m = Inr y \<longleftrightarrow> c \<and> m = Inr y"
  by (cases c) auto

lemma from_opt_simps [simp, res_simps]:
  "from_opt e None = Inl e"
  "from_opt e (Some x) = Inr x"
  by (simp_all add: from_opt_def)

lemma from_opt_eq_Inr_iff [simp]: "from_opt e x = Inr y \<longleftrightarrow> x = Some y"
  by (cases x) auto

lemmas res_iffs = bindR_eq_Inr_iff guardR_eq_Inr_iff

text \<open>Lists: the part of a list before and after a distinguished element.\<close>

lemma distinct_map_split:
  assumes "distinct (map f (xs @ x # ys))"
  shows "f x \<notin> f ` set xs" and "f x \<notin> f ` set ys"
  using assms by auto

lemma find_SomeE:
  assumes "find P xs = Some x"
  obtains as bs where "xs = as @ x # bs" "P x" "\<forall>y \<in> set as. \<not> P y"
proof -
  from assms have "\<exists>as bs. xs = as @ x # bs \<and> P x \<and> (\<forall>y \<in> set as. \<not> P y)"
  proof (induction xs)
    case (Cons y ys)
    show ?case
    proof (cases "P y")
      case True
      with Cons.prems show ?thesis by (intro exI [of _ "[]"] exI [of _ ys]) simp
    next
      case False
      with Cons obtain as bs where "ys = as @ x # bs \<and> P x \<and> (\<forall>y \<in> set as. \<not> P y)" by auto
      with False show ?thesis by (intro exI [of _ "y # as"] exI [of _ bs]) simp
    qed
  qed simp
  with that show ?thesis by blast
qed

end
