(* ===== verification/Bitops.thy ===== *)
theory Bitops
  imports OS_Prelude
begin

text \<open>
  The macros of \<open>include/bitops.h\<close> and the address and PTE layout macros of \<open>include/mm.h\<close>.
  Masks are 32-bit words, the shift counts are natural numbers, and an address or frame number
  is a C integer that is converted where the macro applies a mask.
\<close>

section \<open>bitops.h\<close>

definition BITS_PER_LONG :: nat where
  "BITS_PER_LONG = 32"

definition DIV_ROUND_UP :: "int \<Rightarrow> int \<Rightarrow> int" where
  "DIV_ROUND_UP n d = u64 (n + d - 1) div d"

definition BIT :: "nat \<Rightarrow> 32 word" where
  "BIT nr = push_bit nr 1"

definition GENMASK :: "nat \<Rightarrow> nat \<Rightarrow> 32 word" where
  "GENMASK h l = push_bit l (NOT 0) AND drop_bit (BITS_PER_LONG - h - 1) (NOT 0)"

definition NBITS2 :: "32 word \<Rightarrow> nat" where
  "NBITS2 n = (if n AND 2 \<noteq> 0 then 1 else 0)"

definition NBITS4 :: "32 word \<Rightarrow> nat" where
  "NBITS4 n = (if n AND 0xC \<noteq> 0 then 2 + NBITS2 (drop_bit 2 n) else NBITS2 n)"

definition NBITS8 :: "32 word \<Rightarrow> nat" where
  "NBITS8 n = (if n AND 0xF0 \<noteq> 0 then 4 + NBITS4 (drop_bit 4 n) else NBITS4 n)"

definition NBITS16 :: "32 word \<Rightarrow> nat" where
  "NBITS16 n = (if n AND 0xFF00 \<noteq> 0 then 8 + NBITS8 (drop_bit 8 n) else NBITS8 n)"

definition NBITS32 :: "32 word \<Rightarrow> nat" where
  "NBITS32 n = (if n AND 0xFFFF0000 \<noteq> 0 then 16 + NBITS16 (drop_bit 16 n) else NBITS16 n)"

definition NBITS :: "32 word \<Rightarrow> nat" where
  "NBITS n = (if n = 0 then 0 else NBITS32 n)"

section \<open>mm.h: sizes, value operators, layouts\<close>

definition PAGING_CPU_BUS_WIDTH :: nat where
  "PAGING_CPU_BUS_WIDTH = 22"

definition PAGING_PAGESZ :: int where
  "PAGING_PAGESZ = 256"

definition PAGING_PAGE_ALIGNSZ :: "int \<Rightarrow> int" where
  "PAGING_PAGE_ALIGNSZ sz = u64 (DIV_ROUND_UP sz PAGING_PAGESZ * PAGING_PAGESZ)"

definition PAGING_MAX_PGN :: int where
  "PAGING_MAX_PGN = DIV_ROUND_UP (uint (BIT PAGING_CPU_BUS_WIDTH)) PAGING_PAGESZ"

definition PAGING_MAX_MMSWP :: nat where
  "PAGING_MAX_MMSWP = 4"

definition PAGING_MAX_SYMTBL_SZ :: int where
  "PAGING_MAX_SYMTBL_SZ = 30"

definition SETBIT :: "32 word \<Rightarrow> 32 word \<Rightarrow> 32 word" where
  "SETBIT v m = v OR m"

definition CLRBIT :: "32 word \<Rightarrow> 32 word \<Rightarrow> 32 word" where
  "CLRBIT v m = v AND NOT m"

definition SETVAL :: "32 word \<Rightarrow> int \<Rightarrow> 32 word \<Rightarrow> nat \<Rightarrow> 32 word" where
  "SETVAL v val m offst = (v AND NOT m) OR (push_bit offst (word_of_int val) AND m)"

definition GETVAL :: "32 word \<Rightarrow> 32 word \<Rightarrow> nat \<Rightarrow> int" where
  "GETVAL v m offst = uint (drop_bit offst (v AND m))"

text \<open>PTE bits and fields.\<close>

definition PAGING_PTE_PRESENT_MASK :: "32 word" where
  "PAGING_PTE_PRESENT_MASK = BIT 31"

definition PAGING_PTE_SWAPPED_MASK :: "32 word" where
  "PAGING_PTE_SWAPPED_MASK = BIT 30"

definition PAGING_PTE_DIRTY_MASK :: "32 word" where
  "PAGING_PTE_DIRTY_MASK = BIT 28"

definition PAGING_PTE_FPN_LOBIT :: nat where "PAGING_PTE_FPN_LOBIT = 0"
definition PAGING_PTE_FPN_HIBIT :: nat where "PAGING_PTE_FPN_HIBIT = 12"
definition PAGING_PTE_SWPTYP_LOBIT :: nat where "PAGING_PTE_SWPTYP_LOBIT = 0"
definition PAGING_PTE_SWPTYP_HIBIT :: nat where "PAGING_PTE_SWPTYP_HIBIT = 4"
definition PAGING_PTE_SWPOFF_LOBIT :: nat where "PAGING_PTE_SWPOFF_LOBIT = 5"
definition PAGING_PTE_SWPOFF_HIBIT :: nat where "PAGING_PTE_SWPOFF_HIBIT = 25"

definition PAGING_PTE_FPN_MASK :: "32 word" where
  "PAGING_PTE_FPN_MASK = GENMASK PAGING_PTE_FPN_HIBIT PAGING_PTE_FPN_LOBIT"

definition PAGING_PTE_SWPTYP_MASK :: "32 word" where
  "PAGING_PTE_SWPTYP_MASK = GENMASK PAGING_PTE_SWPTYP_HIBIT PAGING_PTE_SWPTYP_LOBIT"

definition PAGING_PTE_SWPOFF_MASK :: "32 word" where
  "PAGING_PTE_SWPOFF_MASK = GENMASK PAGING_PTE_SWPOFF_HIBIT PAGING_PTE_SWPOFF_LOBIT"

definition PAGING_PTE_PAGE_PRESENT :: "32 word \<Rightarrow> bool" where
  "PAGING_PTE_PAGE_PRESENT pte \<longleftrightarrow> pte AND PAGING_PTE_PRESENT_MASK \<noteq> 0"

definition PAGING_PTE_FPN :: "32 word \<Rightarrow> int" where
  "PAGING_PTE_FPN pte = GETVAL pte PAGING_PTE_FPN_MASK PAGING_PTE_FPN_LOBIT"

definition PAGING_SWPTYP :: "32 word \<Rightarrow> int" where
  "PAGING_SWPTYP x = GETVAL x PAGING_PTE_SWPTYP_MASK PAGING_PTE_SWPTYP_LOBIT"

definition PAGING_SWPOFF :: "32 word \<Rightarrow> int" where
  "PAGING_SWPOFF x = GETVAL x PAGING_PTE_SWPOFF_MASK PAGING_PTE_SWPOFF_LOBIT"

text \<open>Addresses.\<close>

definition PAGING_ADDR_OFFST_LOBIT :: nat where "PAGING_ADDR_OFFST_LOBIT = 0"
definition PAGING_ADDR_OFFST_HIBIT :: nat where
  "PAGING_ADDR_OFFST_HIBIT = NBITS (word_of_int PAGING_PAGESZ) - 1"
definition PAGING_ADDR_PGN_LOBIT :: nat where
  "PAGING_ADDR_PGN_LOBIT = NBITS (word_of_int PAGING_PAGESZ)"
definition PAGING_ADDR_PGN_HIBIT :: nat where
  "PAGING_ADDR_PGN_HIBIT = PAGING_CPU_BUS_WIDTH - 1"
definition PAGING_ADDR_FPN_LOBIT :: nat where
  "PAGING_ADDR_FPN_LOBIT = NBITS (word_of_int PAGING_PAGESZ)"

definition PAGING_OFFST_MASK :: "32 word" where
  "PAGING_OFFST_MASK = GENMASK PAGING_ADDR_OFFST_HIBIT PAGING_ADDR_OFFST_LOBIT"

definition PAGING_PGN_MASK :: "32 word" where
  "PAGING_PGN_MASK = GENMASK PAGING_ADDR_PGN_HIBIT PAGING_ADDR_PGN_LOBIT"

definition PAGING_OFFST :: "int \<Rightarrow> int" where
  "PAGING_OFFST x = GETVAL (word_of_int x) PAGING_OFFST_MASK PAGING_ADDR_OFFST_LOBIT"

definition PAGING_PGN :: "int \<Rightarrow> int" where
  "PAGING_PGN x = GETVAL (word_of_int x) PAGING_PGN_MASK PAGING_ADDR_PGN_LOBIT"

section \<open>Facts\<close>

lemmas layout_defs [c_defs] =
  PAGING_PTE_FPN_LOBIT_def PAGING_PTE_FPN_HIBIT_def PAGING_PTE_SWPTYP_LOBIT_def
  PAGING_PTE_SWPTYP_HIBIT_def PAGING_PTE_SWPOFF_LOBIT_def PAGING_PTE_SWPOFF_HIBIT_def
  PAGING_PTE_FPN_MASK_def PAGING_PTE_SWPTYP_MASK_def PAGING_PTE_SWPOFF_MASK_def
  PAGING_PTE_PRESENT_MASK_def PAGING_PTE_SWAPPED_MASK_def PAGING_PTE_DIRTY_MASK_def

lemma bit_BIT [simp]: "bit (BIT k) n \<longleftrightarrow> n = k \<and> k < 32"
  by (auto simp: BIT_def bit_simps)

lemma bit_GENMASK [simp]:
  "bit (GENMASK h l) n \<longleftrightarrow> l \<le> n \<and> n \<le> h \<and> n < 32" if "h < 32"
  using that by (auto simp: GENMASK_def BITS_PER_LONG_def bit_simps)

lemma GETVAL_GENMASK:
  assumes "h < 32" "l \<le> h"
  shows "GETVAL v (GENMASK h l) l = take_bit (h - l + 1) (drop_bit l (uint v))"
  unfolding GETVAL_def using assms
  by (intro bit_eqI) (auto simp: bit_simps)

lemma GETVAL_SETVAL_same:
  assumes "h < 32" "l \<le> h"
  shows "GETVAL (SETVAL v val (GENMASK h l) l) (GENMASK h l) l = val mod 2 ^ (h - l + 1)"
proof -
  have "GETVAL (SETVAL v val (GENMASK h l) l) (GENMASK h l) l = take_bit (h - l + 1) val"
    unfolding GETVAL_GENMASK [OF assms] using assms
    by (intro bit_eqI) (auto simp: SETVAL_def bit_simps)
  then show ?thesis by (simp only: take_bit_eq_mod)
qed

lemma bit_SETBIT [simp]: "bit (SETBIT v m) n \<longleftrightarrow> bit v n \<or> bit m n"
  by (simp add: SETBIT_def bit_simps)

lemma bit_CLRBIT [simp]: "bit (CLRBIT v m) n \<longleftrightarrow> bit v n \<and> \<not> bit m n"
  by (auto simp: CLRBIT_def bit_simps dest: bit_imp_le_length)

lemma bit_SETVAL [simp]:
  "bit (SETVAL v val m off) n \<longleftrightarrow>
     (if bit m n then off \<le> n \<and> bit val (n - off) else bit v n)"
  by (auto simp: SETVAL_def bit_simps dest: bit_imp_le_length)

lemma present_iff_bit [simp]: "PAGING_PTE_PAGE_PRESENT pte \<longleftrightarrow> bit pte 31"
proof -
  have "pte AND BIT 31 = (if bit pte 31 then BIT 31 else 0)"
    by (rule bit_word_eqI) (auto simp: bit_simps)
  moreover have "BIT 31 \<noteq> 0" by (simp add: BIT_def)
  ultimately show ?thesis by (simp add: PAGING_PTE_PAGE_PRESENT_def PAGING_PTE_PRESENT_MASK_def)
qed

lemma NBITS_PAGESZ [simp]: "NBITS (word_of_int PAGING_PAGESZ) = 8"
  by (simp add: NBITS_def NBITS32_def NBITS16_def NBITS8_def NBITS4_def NBITS2_def PAGING_PAGESZ_def)

lemma PAGING_MAX_PGN_eq: "PAGING_MAX_PGN = 16384"
  by (simp add: PAGING_MAX_PGN_def DIV_ROUND_UP_def BIT_def PAGING_CPU_BUS_WIDTH_def
      PAGING_PAGESZ_def u64_def)

lemma PAGING_PTE_FPN_eq: "PAGING_PTE_FPN pte = take_bit 13 (uint pte)"
  by (simp add: PAGING_PTE_FPN_def layout_defs GETVAL_GENMASK)

lemma PAGING_SWPOFF_eq: "PAGING_SWPOFF pte = take_bit 21 (drop_bit 5 (uint pte))"
  by (simp add: PAGING_SWPOFF_def layout_defs GETVAL_GENMASK)

lemma PAGING_SWPTYP_eq: "PAGING_SWPTYP pte = take_bit 5 (uint pte)"
  by (simp add: PAGING_SWPTYP_def layout_defs GETVAL_GENMASK)

lemma PAGING_OFFST_eq: "PAGING_OFFST x = x mod 256"
proof -
  have "PAGING_OFFST x = take_bit 8 (take_bit 32 x)"
    by (simp add: PAGING_OFFST_def PAGING_OFFST_MASK_def PAGING_ADDR_OFFST_HIBIT_def
        PAGING_ADDR_OFFST_LOBIT_def GETVAL_GENMASK uint_word_of_int_eq)
  then show ?thesis by (simp add: take_bit_eq_mod mod_mod_cancel)
qed

lemma PAGING_PGN_eq: "PAGING_PGN x = x mod 4194304 div 256"
proof -
  have "PAGING_PGN x = take_bit 14 (drop_bit 8 (take_bit 32 x))"
    by (simp add: PAGING_PGN_def PAGING_PGN_MASK_def PAGING_ADDR_PGN_HIBIT_def
        PAGING_ADDR_PGN_LOBIT_def PAGING_CPU_BUS_WIDTH_def GETVAL_GENMASK uint_word_of_int_eq)
  also have "\<dots> = drop_bit 8 (take_bit 22 x)"
    by (simp add: take_bit_drop_bit)
  finally show ?thesis by (simp add: take_bit_eq_mod drop_bit_eq_div)
qed

lemma PAGING_PGN_bounds [simp]: "0 \<le> PAGING_PGN x" "PAGING_PGN x < PAGING_MAX_PGN"
  by (simp_all add: PAGING_PGN_eq PAGING_MAX_PGN_eq)

lemma PAGING_OFFST_bounds [simp]: "0 \<le> PAGING_OFFST x" "PAGING_OFFST x < 256"
  by (simp_all add: PAGING_OFFST_eq)

lemma PAGING_PTE_FPN_bounds [simp]: "0 \<le> PAGING_PTE_FPN pte" "PAGING_PTE_FPN pte < 8192"
  by (simp_all add: PAGING_PTE_FPN_eq take_bit_eq_mod)

text \<open>An address is rebuilt from its page number and its offset (22-bit bus).\<close>

lemma PGN_OFFST_decompose:
  "0 \<le> x \<Longrightarrow> x < 4194304 \<Longrightarrow> PAGING_PGN x * PAGING_PAGESZ + PAGING_OFFST x = x"
  by (simp add: PAGING_PGN_eq PAGING_OFFST_eq PAGING_PAGESZ_def)

lemma PAGE_ALIGNSZ_eq:
  assumes "0 \<le> sz" "sz < 9223372036854775808"
  shows "PAGING_PAGE_ALIGNSZ sz = (sz + 255) div 256 * 256"
  using assms
  by (simp add: PAGING_PAGE_ALIGNSZ_def DIV_ROUND_UP_def PAGING_PAGESZ_def u64_def)

lemma PAGE_ALIGNSZ_props:
  assumes "0 \<le> sz" "sz < 9223372036854775808"
  shows "sz \<le> PAGING_PAGE_ALIGNSZ sz" and "PAGING_PAGE_ALIGNSZ sz < sz + 256"
    and "PAGING_PAGE_ALIGNSZ sz mod 256 = 0"
  unfolding PAGE_ALIGNSZ_eq [OF assms] by linarith+ simp

end
