(* ===== verification/Pte.thy ===== *)
theory Pte
  imports Bitops
begin

text \<open>
  The page table entry operations of \<open>src/mm.c\<close>: \<open>init_pte\<close>, \<open>pte_set_swap\<close> and
  \<open>pte_set_fpn\<close>. A PTE is a 32-bit word; the C functions write through a pointer and always
  return 0, so the model returns the new entry.
\<close>

section \<open>Operations\<close>

definition init_pte :: "32 word \<Rightarrow> int \<Rightarrow> int \<Rightarrow> int \<Rightarrow> int \<Rightarrow> int \<Rightarrow> int \<Rightarrow> 32 word" where
  "init_pte pte pre fpn drt swp swptyp swpoff =
     (if pre \<noteq> 0 then
        (if swp = 0 then
           SETVAL (CLRBIT (CLRBIT (SETBIT pte PAGING_PTE_PRESENT_MASK) PAGING_PTE_SWAPPED_MASK)
                    PAGING_PTE_DIRTY_MASK)
             fpn PAGING_PTE_FPN_MASK PAGING_PTE_FPN_LOBIT
         else
           SETVAL
             (SETVAL (CLRBIT (SETBIT (SETBIT pte PAGING_PTE_PRESENT_MASK) PAGING_PTE_SWAPPED_MASK)
                        PAGING_PTE_DIRTY_MASK)
                swptyp PAGING_PTE_SWPTYP_MASK PAGING_PTE_SWPTYP_LOBIT)
             swpoff PAGING_PTE_SWPOFF_MASK PAGING_PTE_SWPOFF_LOBIT)
      else pte)"

definition pte_set_swap :: "32 word \<Rightarrow> int \<Rightarrow> int \<Rightarrow> 32 word" where
  "pte_set_swap pte swptyp swpoff =
     SETVAL
       (SETVAL (SETBIT (CLRBIT pte PAGING_PTE_PRESENT_MASK) PAGING_PTE_SWAPPED_MASK)
          swptyp PAGING_PTE_SWPTYP_MASK PAGING_PTE_SWPTYP_LOBIT)
       swpoff PAGING_PTE_SWPOFF_MASK PAGING_PTE_SWPOFF_LOBIT"

definition pte_set_fpn :: "32 word \<Rightarrow> int \<Rightarrow> 32 word" where
  "pte_set_fpn pte fpn =
     SETVAL (CLRBIT (SETBIT pte PAGING_PTE_PRESENT_MASK) PAGING_PTE_SWAPPED_MASK)
       fpn PAGING_PTE_FPN_MASK PAGING_PTE_FPN_LOBIT"

section \<open>Facts\<close>

lemma present_pte_set_fpn [simp]: "bit (pte_set_fpn pte fpn) 31"
  by (simp add: pte_set_fpn_def layout_defs)

lemma not_present_pte_set_swap [simp]: "\<not> bit (pte_set_swap pte typ off) 31"
  by (simp add: pte_set_swap_def layout_defs)

lemma FPN_pte_set_fpn_mod: "PAGING_PTE_FPN (pte_set_fpn pte fpn) = fpn mod 8192"
  by (simp add: pte_set_fpn_def PAGING_PTE_FPN_def layout_defs GETVAL_SETVAL_same)

lemma FPN_pte_set_fpn [simp]:
  "0 \<le> fpn \<Longrightarrow> fpn < 8192 \<Longrightarrow> PAGING_PTE_FPN (pte_set_fpn pte fpn) = fpn"
  by (simp add: FPN_pte_set_fpn_mod)

lemma bit_pte_set_fpn:
  "bit (pte_set_fpn pte fpn) n \<longleftrightarrow>
     (if n \<le> 12 then bit fpn n else n = 31 \<or> n \<noteq> 30 \<and> bit pte n)"
  by (auto simp: pte_set_fpn_def layout_defs)

lemma bit_pte_set_swap:
  "bit (pte_set_swap pte typ off) n \<longleftrightarrow>
     (if n \<le> 4 then bit typ n
      else if n \<le> 25 then bit off (n - 5)
      else n = 30 \<or> n \<noteq> 31 \<and> bit pte n)"
  by (auto simp: pte_set_swap_def layout_defs)

lemma SWPOFF_pte_set_swap: "PAGING_SWPOFF (pte_set_swap pte typ off) = off mod 2097152"
proof -
  have "PAGING_SWPOFF (pte_set_swap pte typ off) = take_bit 21 off"
    unfolding PAGING_SWPOFF_eq
    by (intro bit_eqI) (auto simp: bit_simps bit_pte_set_swap)
  then show ?thesis by (simp add: take_bit_eq_mod)
qed

lemma SWPTYP_pte_set_swap: "PAGING_SWPTYP (pte_set_swap pte typ off) = typ mod 32"
proof -
  have "PAGING_SWPTYP (pte_set_swap pte typ off) = take_bit 5 typ"
    unfolding PAGING_SWPTYP_eq
    by (intro bit_eqI) (auto simp: bit_simps bit_pte_set_swap)
  then show ?thesis by (simp add: take_bit_eq_mod)
qed

lemma FPN_pte_set_swap:
  "PAGING_PTE_FPN (pte_set_swap pte typ off) = typ mod 32 + 32 * (off mod 256)"
proof -
  have "PAGING_PTE_FPN (pte_set_swap pte typ off) = take_bit 5 typ OR push_bit 5 (take_bit 8 off)"
    unfolding PAGING_PTE_FPN_eq
    by (intro bit_eqI) (auto simp: bit_simps bit_pte_set_swap)
  also have "\<dots> = take_bit 5 typ + push_bit 5 (take_bit 8 off)"
    by (intro disjunctive_add [symmetric]) (auto simp: bit_simps)
  finally show ?thesis by (simp add: take_bit_eq_mod push_bit_eq_mult)
qed

section \<open>Properties\<close>

text \<open>\<open>pte_set_fpn\<close> makes an entry on-line: the present bit is set, the swapped bit is clear,
  the frame number read back by \<open>PAGING_PTE_FPN\<close> is the 13-bit frame number that was stored, and
  every bit outside the frame field, the present and the swapped bit keeps its value.\<close>

theorem pte_set_fpn_spec:
  "PAGING_PTE_PAGE_PRESENT (pte_set_fpn pte fpn) \<and>
   \<not> bit (pte_set_fpn pte fpn) 30 \<and>
   PAGING_PTE_FPN (pte_set_fpn pte fpn) = fpn mod 8192 \<and>
   (\<forall>n. 12 < n \<and> n \<notin> {30, 31} \<longrightarrow> bit (pte_set_fpn pte fpn) n = bit pte n)"
  by (auto simp: FPN_pte_set_fpn_mod bit_pte_set_fpn)

theorem pte_set_fpn_spec_witness:
  "PAGING_PTE_FPN (pte_set_fpn 0 5) = 5 \<and> bit (pte_set_fpn 0x10000000 5) 28"
  using pte_set_fpn_spec [of 0 5] pte_set_fpn_spec [of "0x10000000" 5] by simp

text \<open>\<open>pte_set_swap\<close> takes a page off-line: the present bit is clear, the swapped bit set, the
  swap type and the swap offset are read back from their fields by \<open>PAGING_SWPTYP\<close> and
  \<open>PAGING_SWPOFF\<close> (5 and 21 bits), and bits 26 to 29 keep their value.\<close>

theorem pte_set_swap_spec:
  "\<not> PAGING_PTE_PAGE_PRESENT (pte_set_swap pte typ off) \<and>
   bit (pte_set_swap pte typ off) 30 \<and>
   PAGING_SWPTYP (pte_set_swap pte typ off) = typ mod 32 \<and>
   PAGING_SWPOFF (pte_set_swap pte typ off) = off mod 2097152 \<and>
   (\<forall>n \<in> {26..29}. bit (pte_set_swap pte typ off) n = bit pte n)"
  by (auto simp: SWPTYP_pte_set_swap SWPOFF_pte_set_swap bit_pte_set_swap)

theorem pte_set_swap_spec_witness:
  "PAGING_SWPOFF (pte_set_swap 0xFFFFFFFF 0 77) = 77 \<and> bit (pte_set_swap 0xFFFFFFFF 0 77) 28"
proof -
  have "(28::nat) \<in> {26..29}" by simp
  then have "bit (pte_set_swap 0xFFFFFFFF 0 77) 28 = bit (0xFFFFFFFF :: 32 word) 28"
    using pte_set_swap_spec [of "0xFFFFFFFF" 0 77] by blast
  then show ?thesis using pte_set_swap_spec [of "0xFFFFFFFF" 0 77] by simp
qed

text \<open>The frame field and the swap fields of an entry overlap: the frame number read from an
  entry that \<open>pte_set_swap\<close> wrote is the swap type plus 32 times the swap offset (mod 256). It is
  the swap frame number only when that is 0. \<open>pg_getpage\<close> and \<open>__alloc\<close> read a swapped entry this way.\<close>

theorem swapped_pte_fpn_alias:
  "PAGING_PTE_FPN (pte_set_swap pte typ off) = typ mod 32 + 32 * (off mod 256) \<and>
   (PAGING_PTE_FPN (pte_set_swap pte 0 off) = off mod 256 \<longleftrightarrow> off mod 256 = 0)"
  by (auto simp: FPN_pte_set_swap)

text \<open>\<open>init_pte\<close> follows its flags: with \<open>pre = 0\<close> the entry is unchanged; otherwise it is present,
  its dirty bit is clear, and it carries the frame number (\<open>swp = 0\<close>) or the swap location.\<close>

theorem init_pte_spec:
  "init_pte pte pre fpn drt swp typ off =
     (if pre = 0 then pte
      else if swp = 0 then CLRBIT (pte_set_fpn pte fpn) PAGING_PTE_DIRTY_MASK
      else CLRBIT (SETBIT (pte_set_swap pte typ off) PAGING_PTE_PRESENT_MASK) PAGING_PTE_DIRTY_MASK)"
  by (auto intro!: bit_word_eqI simp: init_pte_def pte_set_fpn_def pte_set_swap_def layout_defs)

end
