(* ===== verification/Memphy.thy ===== *)
theory Memphy
  imports Bitops "HOL-Library.Signed_Division"
begin

text \<open>
  The physical memory devices of \<open>src/mm-memphy.c\<close> (RAM and swap) and the page copy
  \<open>__swap_cp_page\<close> of \<open>src/mm.c\<close>. A device is a record; the linked list of free frames is the
  list of its frame numbers, the storage a function that is only read and written inside
  \<open>[0, maxsz)\<close>. The device mutex is a flag: locking a mutex the thread already holds never
  returns. Memory obtained from \<open>malloc\<close> has arbitrary content, which is a parameter
  (\<open>junk\<close>) of the operations that leave some of it unwritten. Devices are objects of \<open>main\<close>,
  so the tests of \<open>mp == NULL\<close> are always false and have no counterpart.
\<close>

section \<open>The device\<close>

record memphy_struct =
  mutex :: bool
  storage :: "int \<Rightarrow> byte"
  maxsz :: int
  rdmflg :: int
  cursor :: int
  free_fp_list :: "int list"

definition mutex_lock :: "memphy_struct \<Rightarrow> memphy_struct res" where
  "mutex_lock mp = guardR (\<not> mutex mp) Diverges (ok (mp\<lparr>mutex := True\<rparr>))"

definition mutex_unlock :: "memphy_struct \<Rightarrow> memphy_struct" where
  "mutex_unlock mp = mp\<lparr>mutex := False\<rparr>"

text \<open>The loop of \<open>MEMPHY_mv_csr\<close>: at most \<open>offset\<close> and at most \<open>maxsz\<close> steps, cursor modulo size.\<close>

function mv_csr_loop :: "int \<Rightarrow> int \<Rightarrow> int \<Rightarrow> int \<Rightarrow> int" where
  "mv_csr_loop numstep offset sz csr =
     (if numstep < offset \<and> numstep < sz
      then mv_csr_loop (numstep + 1) offset sz ((csr + 1) mod sz) else csr)"
  by pat_completeness auto
termination
  by (relation "measure (\<lambda>(numstep, offset, sz, csr). nat (offset - numstep))") auto

declare mv_csr_loop.simps [simp del]

definition MEMPHY_mv_csr :: "memphy_struct \<Rightarrow> int \<Rightarrow> (int \<times> memphy_struct) res" where
  "MEMPHY_mv_csr mp offset =
     bindR (mutex_lock mp) (\<lambda>mp.
       ok (0, mutex_unlock (mp\<lparr>cursor := mv_csr_loop 0 offset (maxsz mp) 0\<rparr>)))"

text \<open>An access to \<open>storage[addr]\<close> is inside the allocated block.\<close>

definition in_storage :: "memphy_struct \<Rightarrow> int \<Rightarrow> bool" where
  "in_storage mp addr \<longleftrightarrow> 0 \<le> addr \<and> addr < maxsz mp"

definition MEMPHY_seq_read :: "memphy_struct \<Rightarrow> int \<Rightarrow> (int \<times> byte option \<times> memphy_struct) res" where
  "MEMPHY_seq_read mp addr =
     (if rdmflg mp = 0 then ok (- 1, None, mutex_unlock mp)
      else bindR (MEMPHY_mv_csr mp addr) (\<lambda>(_, mp).
             guardR (in_storage mp addr) OutOfBounds
               (ok (0, Some (storage mp addr), mutex_unlock mp))))"

definition MEMPHY_read :: "memphy_struct \<Rightarrow> int \<Rightarrow> (int \<times> byte option \<times> memphy_struct) res" where
  "MEMPHY_read mp addr =
     bindR (mutex_lock mp) (\<lambda>mp.
       if rdmflg mp \<noteq> 0
       then guardR (in_storage mp addr) OutOfBounds (ok (0, Some (storage mp addr), mutex_unlock mp))
       else MEMPHY_seq_read mp addr)"

definition MEMPHY_seq_write :: "memphy_struct \<Rightarrow> int \<Rightarrow> byte \<Rightarrow> (int \<times> memphy_struct) res" where
  "MEMPHY_seq_write mp addr val =
     (if rdmflg mp = 0 then ok (- 1, mutex_unlock mp)
      else bindR (MEMPHY_mv_csr mp addr) (\<lambda>(_, mp).
             guardR (in_storage mp addr) OutOfBounds
               (ok (0, mutex_unlock (mp\<lparr>storage := (storage mp)(addr := val)\<rparr>)))))"

definition MEMPHY_write :: "memphy_struct \<Rightarrow> int \<Rightarrow> byte \<Rightarrow> (int \<times> memphy_struct) res" where
  "MEMPHY_write mp addr data =
     bindR (mutex_lock mp) (\<lambda>mp.
       if rdmflg mp \<noteq> 0
       then guardR (in_storage mp addr) OutOfBounds
              (ok (0, mutex_unlock (mp\<lparr>storage := (storage mp)(addr := data)\<rparr>)))
       else MEMPHY_seq_write mp addr data)"

text \<open>
  \<open>MEMPHY_format\<close> builds the list of free frames. The \<open>fp_next\<close> field of the first node is only
  written when a second node is linked: \<open>junk\<close> is the list an unwritten field leads to.
\<close>

definition MEMPHY_format :: "int list \<Rightarrow> memphy_struct \<Rightarrow> int \<Rightarrow> (int \<times> memphy_struct) res" where
  "MEMPHY_format junk mp pagesz =
     bindR (mutex_lock mp) (\<lambda>mp.
       let numfp = maxsz mp sdiv pagesz in
       if numfp \<le> 0 then ok (- 1, mutex_unlock mp)
       else ok (0, mutex_unlock (mp\<lparr>free_fp_list :=
              0 # (if 1 < numfp then [1..numfp - 1] else junk)\<rparr>)))"

definition MEMPHY_get_freefp :: "memphy_struct \<Rightarrow> (int \<times> int option \<times> memphy_struct) res" where
  "MEMPHY_get_freefp mp =
     bindR (mutex_lock mp) (\<lambda>mp.
       case free_fp_list mp of
         [] \<Rightarrow> ok (- 1, None, mutex_unlock mp)
       | fp # rest \<Rightarrow> ok (0, Some fp, mutex_unlock (mp\<lparr>free_fp_list := rest\<rparr>)))"

text \<open>The lines \<open>MEMPHY_dump\<close> prints: address and value of every non-zero cell, in order.\<close>

definition MEMPHY_dump :: "memphy_struct \<Rightarrow> (int \<times> byte) list" where
  "MEMPHY_dump mp =
     map (\<lambda>i. (i, storage mp i)) (filter (\<lambda>i. storage mp i \<noteq> 0) [0..maxsz mp - 1])"

text \<open>The two numbers \<open>RAM_dump\<close> prints: mapped and remaining frames.\<close>

fun free_count :: "int list \<Rightarrow> int \<Rightarrow> int" where
  "free_count [] freeCnt = freeCnt"
| "free_count (fp # fps) freeCnt = free_count fps (freeCnt + 1)"

definition RAM_dump :: "memphy_struct \<Rightarrow> int \<times> int" where
  "RAM_dump mram =
     (let freeCnt = free_count (free_fp_list mram) 0
      in (maxsz mram sdiv PAGING_PAGESZ - freeCnt, freeCnt))"

definition MEMPHY_put_freefp :: "memphy_struct \<Rightarrow> int \<Rightarrow> (int \<times> memphy_struct) res" where
  "MEMPHY_put_freefp mp fpn =
     bindR (mutex_lock mp) (\<lambda>mp.
       ok (0, mutex_unlock (mp\<lparr>free_fp_list := fpn # free_fp_list mp\<rparr>)))"

text \<open>\<open>init_memphy\<close>: \<open>mp\<close> is the uninitialised object, \<open>blk\<close> the content of the fresh storage block.\<close>

definition init_memphy ::
  "int list \<Rightarrow> (int \<Rightarrow> byte) \<Rightarrow> memphy_struct \<Rightarrow> int \<Rightarrow> int \<Rightarrow> (int \<times> memphy_struct) res" where
  "init_memphy junk blk mp max_size randomflg =
     bindR (MEMPHY_format junk (mp\<lparr>mutex := False, storage := blk, maxsz := max_size\<rparr>) PAGING_PAGESZ)
       (\<lambda>(_, mp).
         let mp = mp\<lparr>rdmflg := (if randomflg \<noteq> 0 then 1 else 0)\<rparr>
         in ok (0, if rdmflg mp = 0 then mp\<lparr>cursor := 0\<rparr> else mp))"

text \<open>\<open>__swap_cp_page\<close>: the loop over the cells of a page; the result of a read is copied
  whatever its return code, so a read that stored nothing is the use of an unwritten variable.\<close>

fun swap_cp_cells ::
  "int list \<Rightarrow> memphy_struct \<Rightarrow> int \<Rightarrow> memphy_struct \<Rightarrow> int \<Rightarrow> (memphy_struct \<times> memphy_struct) res" where
  "swap_cp_cells [] mpsrc srcfpn mpdst dstfpn = ok (mpsrc, mpdst)"
| "swap_cp_cells (cellidx # cells) mpsrc srcfpn mpdst dstfpn =
     bindR (MEMPHY_read mpsrc (srcfpn * PAGING_PAGESZ + cellidx)) (\<lambda>(_, data, mpsrc).
     bindR (from_opt Uninitialised data) (\<lambda>data.
     bindR (MEMPHY_write mpdst (dstfpn * PAGING_PAGESZ + cellidx) data) (\<lambda>(_, mpdst).
     swap_cp_cells cells mpsrc srcfpn mpdst dstfpn)))"

definition swap_cp_page ::
  "memphy_struct \<Rightarrow> int \<Rightarrow> memphy_struct \<Rightarrow> int \<Rightarrow> (memphy_struct \<times> memphy_struct) res" where
  "swap_cp_page mpsrc srcfpn mpdst dstfpn =
     swap_cp_cells [0..PAGING_PAGESZ - 1] mpsrc srcfpn mpdst dstfpn"

section \<open>Well-formed devices\<close>

text \<open>A device that is ready to be used: unlocked, random access, its free list made of distinct
  frames that lie inside the storage.\<close>

definition frame_in :: "memphy_struct \<Rightarrow> int \<Rightarrow> bool" where
  "frame_in mp f \<longleftrightarrow> 0 \<le> f \<and> f * 256 + 256 \<le> maxsz mp"

definition ready :: "memphy_struct \<Rightarrow> bool" where
  "ready mp \<longleftrightarrow> \<not> mutex mp \<and> rdmflg mp \<noteq> 0"

definition frames_ok :: "memphy_struct \<Rightarrow> bool" where
  "frames_ok mp \<longleftrightarrow> distinct (free_fp_list mp) \<and> (\<forall>f \<in> set (free_fp_list mp). frame_in mp f)"

text \<open>The cell of a frame and the whole content of a frame.\<close>

definition frame_bytes :: "memphy_struct \<Rightarrow> int \<Rightarrow> int \<Rightarrow> byte" where
  "frame_bytes mp f off = storage mp (f * 256 + off)"

section \<open>Interfaces\<close>

text \<open>What the paging code relies on when it accesses a device: a read returns the cell, a write
  changes exactly one cell, and both leave the device usable.\<close>

locale byte_device =
  fixes rd :: "'d \<Rightarrow> int \<Rightarrow> (int \<times> byte option \<times> 'd) res"
    and wr :: "'d \<Rightarrow> int \<Rightarrow> byte \<Rightarrow> (int \<times> 'd) res"
    and cell :: "'d \<Rightarrow> int \<Rightarrow> byte"
    and usable :: "'d \<Rightarrow> bool"
    and inside :: "'d \<Rightarrow> int \<Rightarrow> bool"
  assumes rd_ok: "usable d \<Longrightarrow> inside d a \<Longrightarrow> rd d a = ok (0, Some (cell d a), d)"
    and wr_ok: "usable d \<Longrightarrow> inside d a \<Longrightarrow> \<exists>d'. wr d a v = ok (0, d')"
    and wr_cell: "usable d \<Longrightarrow> inside d a \<Longrightarrow> wr d a v = ok (r, d') \<Longrightarrow> cell d' = (cell d)(a := v)"
    and wr_usable: "usable d \<Longrightarrow> inside d a \<Longrightarrow> wr d a v = ok (r, d') \<Longrightarrow> usable d'"
    and wr_inside: "usable d \<Longrightarrow> inside d a \<Longrightarrow> wr d a v = ok (r, d') \<Longrightarrow> inside d' b = inside d b"
begin

lemma rd_after_wr_same:
  assumes "usable d" "inside d a"
  shows "\<exists>d'. wr d a v = ok (0, d') \<and> rd d' a = ok (0, Some v, d')"
proof -
  obtain d' where w: "wr d a v = ok (0, d')" using wr_ok [OF assms] by blast
  with assms have "usable d'" "inside d' a" "cell d' = (cell d)(a := v)"
    by (auto dest: wr_usable wr_inside wr_cell)
  with w show ?thesis by (simp add: rd_ok)
qed

lemma rd_after_wr_other:
  assumes "usable d" "inside d a" "inside d b" "a \<noteq> b" "wr d a v = ok (r, d')"
  shows "rd d' b = ok (0, Some (cell d b), d')"
proof -
  from assms have "usable d'" "inside d' b" "cell d' = (cell d)(a := v)"
    by (auto dest: wr_usable wr_inside wr_cell)
  with assms(4) show ?thesis by (simp add: rd_ok)
qed

end

text \<open>A device that also hands out frames: \<open>get\<close> takes the first free frame, \<open>put\<close> returns one,
  and neither changes a cell.\<close>

locale frame_pool = byte_device +
  fixes get :: "'d \<Rightarrow> (int \<times> int option \<times> 'd) res"
    and put :: "'d \<Rightarrow> int \<Rightarrow> (int \<times> 'd) res"
    and pool :: "'d \<Rightarrow> int list"
  assumes get_empty: "usable d \<Longrightarrow> pool d = [] \<Longrightarrow> get d = ok (- 1, None, d)"
    and get_some: "usable d \<Longrightarrow> pool d = f # fs \<Longrightarrow>
      \<exists>d'. get d = ok (0, Some f, d') \<and> pool d' = fs \<and> cell d' = cell d \<and> usable d' \<and> inside d' = inside d"
    and put_ok: "usable d \<Longrightarrow>
      \<exists>d'. put d f = ok (0, d') \<and> pool d' = f # pool d \<and> cell d' = cell d \<and> usable d' \<and> inside d' = inside d"
begin

lemma get_cases:
  assumes "usable d"
  obtains (Empty) "pool d = []" "get d = ok (- 1, None, d)"
  | (Frame) f fs d' where "pool d = f # fs" "get d = ok (0, Some f, d')" "pool d' = fs"
      "cell d' = cell d" "usable d'" "inside d' = inside d"
proof (cases "pool d")
  case Nil
  from Nil get_empty [OF assms Nil] show ?thesis by (rule Empty)
next
  case (Cons f fs)
  from get_some [OF assms Cons] Cons show ?thesis by (elim exE conjE) (rule Frame)
qed

lemma put_get:
  assumes "usable d"
  shows "\<exists>d' d''. put d f = ok (0, d') \<and> get d' = ok (0, Some f, d'') \<and> pool d'' = pool d \<and> cell d'' = cell d"
proof -
  obtain d' where p: "put d f = ok (0, d')" "pool d' = f # pool d" "cell d' = cell d" "usable d'"
    using put_ok [OF assms, of f] by blast
  from get_some [OF p(4,2)] p(1,3) show ?thesis by auto
qed

end

section \<open>Facts\<close>

lemma mutex_lock_ready [simp]: "\<not> mutex mp \<Longrightarrow> mutex_lock mp = ok (mp\<lparr>mutex := True\<rparr>)"
  by (simp add: mutex_lock_def)

lemma unlock_lock [simp]: "\<not> mutex mp \<Longrightarrow> mutex_unlock (mp\<lparr>mutex := True\<rparr>) = mp"
  by (simp add: mutex_unlock_def)

lemma in_storage_update [simp]:
  "in_storage (mp\<lparr>mutex := b\<rparr>) = in_storage mp"
  "in_storage (mp\<lparr>storage := s\<rparr>) = in_storage mp"
  "in_storage (mp\<lparr>free_fp_list := l\<rparr>) = in_storage mp"
  by (simp_all add: in_storage_def fun_eq_iff)

lemma MEMPHY_read_ready:
  "ready mp \<Longrightarrow> in_storage mp a \<Longrightarrow> MEMPHY_read mp a = ok (0, Some (storage mp a), mp)"
  by (simp add: MEMPHY_read_def ready_def)

lemma MEMPHY_write_ready:
  "ready mp \<Longrightarrow> in_storage mp a \<Longrightarrow>
   MEMPHY_write mp a v = ok (0, mp\<lparr>storage := (storage mp)(a := v)\<rparr>)"
  by (simp add: MEMPHY_write_def ready_def mutex_unlock_def)

lemma MEMPHY_get_freefp_ready:
  "ready mp \<Longrightarrow> MEMPHY_get_freefp mp =
     (case free_fp_list mp of [] \<Rightarrow> ok (- 1, None, mp)
      | f # fs \<Rightarrow> ok (0, Some f, mp\<lparr>free_fp_list := fs\<rparr>))"
  by (cases "free_fp_list mp")
     (simp_all add: MEMPHY_get_freefp_def ready_def mutex_unlock_def)

lemma MEMPHY_put_freefp_ready:
  "ready mp \<Longrightarrow> MEMPHY_put_freefp mp f = ok (0, mp\<lparr>free_fp_list := f # free_fp_list mp\<rparr>)"
  by (simp add: MEMPHY_put_freefp_def ready_def mutex_unlock_def)

lemmas memphy_ready = MEMPHY_read_ready MEMPHY_write_ready MEMPHY_get_freefp_ready MEMPHY_put_freefp_ready

lemma ready_update [simp]:
  "ready (mp\<lparr>storage := s\<rparr>) = ready mp"
  "ready (mp\<lparr>free_fp_list := l\<rparr>) = ready mp"
  by (simp_all add: ready_def)

lemma frame_in_update [simp]:
  "frame_in (mp\<lparr>storage := s\<rparr>) = frame_in mp"
  "frame_in (mp\<lparr>free_fp_list := l\<rparr>) = frame_in mp"
  by (simp_all add: frame_in_def fun_eq_iff)

lemma frames_ok_storage [simp]: "frames_ok (mp\<lparr>storage := s\<rparr>) = frames_ok mp"
  by (simp add: frames_ok_def)

lemma frame_in_storage:
  "frame_in mp f \<Longrightarrow> 0 \<le> i \<Longrightarrow> i < 256 \<Longrightarrow> in_storage mp (f * 256 + i)"
  by (auto simp: frame_in_def in_storage_def)

interpretation dev: byte_device MEMPHY_read MEMPHY_write storage ready in_storage
  by unfold_locales (auto simp: MEMPHY_read_ready MEMPHY_write_ready)

interpretation dev: frame_pool MEMPHY_read MEMPHY_write storage ready in_storage
    MEMPHY_get_freefp MEMPHY_put_freefp free_fp_list
  by unfold_locales (auto simp: MEMPHY_get_freefp_ready MEMPHY_put_freefp_ready)

lemma free_count_eq: "free_count fps n = n + int (length fps)"
  by (induction fps n rule: free_count.induct) auto

lemma mv_csr_loop_eq:
  assumes "0 < sz" "0 \<le> n" "n \<le> offset" "n \<le> sz" "csr = n mod sz"
  shows "mv_csr_loop n offset sz csr = (if offset < sz then offset else 0)"
  using assms
proof (induction n offset sz csr rule: mv_csr_loop.induct)
  case (1 n offset sz csr)
  show ?case
  proof (cases "n < offset \<and> n < sz")
    case True
    with 1 show ?thesis by (subst mv_csr_loop.simps) (simp add: mod_simps)
  next
    case False
    with 1 show ?thesis by (subst mv_csr_loop.simps) auto
  qed
qed

text \<open>The copy loop: after the cells in \<open>cs\<close>, exactly those cells of the destination frame changed.\<close>

lemma swap_cp_cells_eq:
  assumes "ready src" "ready dst" "frame_in src sf" "frame_in dst df" "\<forall>c \<in> set cs. 0 \<le> c \<and> c < 256"
  shows "swap_cp_cells cs src sf dst df =
    ok (src, dst\<lparr>storage := (\<lambda>a. if a - df * 256 \<in> set cs then storage src (sf * 256 + (a - df * 256))
                              else storage dst a)\<rparr>)"
  using assms
proof (induction cs arbitrary: dst)
  case Nil
  then show ?case by simp
next
  case (Cons c cs)
  let ?d = "dst\<lparr>storage := (storage dst)(df * 256 + c := storage src (sf * 256 + c))\<rparr>"
  have "swap_cp_cells (c # cs) src sf dst df = swap_cp_cells cs src sf ?d df"
    using Cons.prems by (simp add: PAGING_PAGESZ_def memphy_ready frame_in_storage)
  also have "\<dots> = ok (src, ?d\<lparr>storage := (\<lambda>a. if a - df * 256 \<in> set cs
      then storage src (sf * 256 + (a - df * 256)) else storage ?d a)\<rparr>)"
    using Cons.prems by (intro Cons.IH) auto
  also have "\<dots> = ok (src, dst\<lparr>storage := (\<lambda>a. if a - df * 256 \<in> set (c # cs)
      then storage src (sf * 256 + (a - df * 256)) else storage dst a)\<rparr>)"
    by (auto simp: fun_eq_iff algebra_simps intro!: arg_cong [where f = "\<lambda>s. dst\<lparr>storage := s\<rparr>"])
  finally show ?case .
qed

definition copy_frame :: "memphy_struct \<Rightarrow> int \<Rightarrow> memphy_struct \<Rightarrow> int \<Rightarrow> memphy_struct" where
  "copy_frame src sf dst df = dst\<lparr>storage := (\<lambda>a. if df * 256 \<le> a \<and> a < df * 256 + 256
     then storage src (sf * 256 + (a - df * 256)) else storage dst a)\<rparr>"

lemma swap_cp_page_eq:
  assumes "ready src" "ready dst" "frame_in src sf" "frame_in dst df"
  shows "swap_cp_page src sf dst df = ok (src, copy_frame src sf dst df)"
  unfolding swap_cp_page_def copy_frame_def PAGING_PAGESZ_def
  using assms by (subst swap_cp_cells_eq) (auto simp: fun_eq_iff)

lemma copy_frame_simps [simp]:
  "ready (copy_frame src sf dst df) = ready dst"
  "frame_in (copy_frame src sf dst df) = frame_in dst"
  "frames_ok (copy_frame src sf dst df) = frames_ok dst"
  "free_fp_list (copy_frame src sf dst df) = free_fp_list dst"
  "maxsz (copy_frame src sf dst df) = maxsz dst"
  by (simp_all add: copy_frame_def)

lemma frame_bytes_copy_frame:
  "0 \<le> i \<Longrightarrow> i < 256 \<Longrightarrow>
   frame_bytes (copy_frame src sf dst df) g i = (if g = df then frame_bytes src sf i else frame_bytes dst g i)"
  by (auto simp: frame_bytes_def copy_frame_def)

lemma format_list:
  "1 < n \<Longrightarrow> 0 # (if 1 < n then [1..n - 1] else junk) = [0..n - (1::int)]"
  by (simp add: upto_rec1)

lemma sdiv_pos: "0 \<le> a \<Longrightarrow> 0 < b \<Longrightarrow> a sdiv b = a div (b::int)"
  by (cases "a = 0") (auto simp: signed_divide_int_def)

lemma init_memphy_list:
  assumes "512 \<le> max_size"
  shows "init_memphy junk blk mp max_size randomflg =
    ok (0, mp\<lparr>mutex := False, storage := blk, maxsz := max_size, rdmflg := (if randomflg \<noteq> 0 then 1 else 0),
             cursor := (if randomflg \<noteq> 0 then cursor mp else 0),
             free_fp_list := [0..max_size div 256 - 1]\<rparr>)"
proof -
  have n: "1 < max_size div 256" using assms by linarith
  show ?thesis
    using assms n format_list [OF n]
    by (simp add: init_memphy_def MEMPHY_format_def sdiv_pos PAGING_PAGESZ_def mutex_unlock_def Let_def)
qed

lemma get_freefp_frames_ok:
  assumes "ready mp" "frames_ok mp" "MEMPHY_get_freefp mp = ok (0, Some f, mp')"
  shows "frame_in mp f \<and> f \<notin> set (free_fp_list mp') \<and> frames_ok mp' \<and> ready mp' \<and>
         free_fp_list mp = f # free_fp_list mp'"
  using assms by (auto simp: MEMPHY_get_freefp_ready frames_ok_def split: list.splits)

section \<open>Properties\<close>

text \<open>C21. A page swapped out to the swap device and back into a frame of RAM has its original 256
  bytes, in whichever RAM frame it lands; all other RAM frames are unchanged by the two copies
  and the free lists are not touched.\<close>

theorem swap_out_in_roundtrip:
  assumes "ready ram" "ready swp" "frame_in ram f" "frame_in ram h" "frame_in swp g"
  shows "\<exists>swp' ram'. swap_cp_page ram f swp g = ok (ram, swp') \<and>
           swap_cp_page swp' g ram h = ok (swp', ram') \<and>
           (\<forall>i. 0 \<le> i \<and> i < 256 \<longrightarrow> frame_bytes ram' h i = frame_bytes ram f i) \<and>
           (\<forall>k i. k \<noteq> h \<and> 0 \<le> i \<and> i < 256 \<longrightarrow> frame_bytes ram' k i = frame_bytes ram k i) \<and>
           free_fp_list ram' = free_fp_list ram \<and> free_fp_list swp' = free_fp_list swp"
  using assms by (simp add: swap_cp_page_eq frame_bytes_copy_frame)

text \<open>\<open>init_memphy\<close> of a device of at least two frames succeeds, whatever the uninitialised memory
  holds: the device is ready when \<open>randomflg\<close> is set, its free list is exactly the frames
  \<open>0, ..., max_size / 256 - 1\<close> in order, and every one of them lies inside the storage.\<close>

theorem init_memphy_free_frames:
  assumes "512 \<le> max_size"
  shows "\<exists>mp'. init_memphy junk blk mp max_size randomflg = ok (0, mp') \<and>
           free_fp_list mp' = [0..max_size div 256 - 1] \<and> frames_ok mp' \<and>
           maxsz mp' = max_size \<and> storage mp' = blk \<and> (ready mp' \<longleftrightarrow> randomflg \<noteq> 0)"
  using assms
  by (auto simp: init_memphy_list frames_ok_def frame_in_def ready_def)

text \<open>A device of exactly one frame keeps an unwritten \<open>fp_next\<close> in its only free node, and a device
  smaller than one frame keeps the unwritten \<open>free_fp_list\<close> of the uninitialised object: in both
  cases the free list depends on what \<open>malloc\<close> or the stack held before.\<close>

theorem init_memphy_small_unspecified:
  "(256 \<le> sz \<and> sz < 512 \<longrightarrow>
     (\<exists>mp'. init_memphy junk blk mp sz flg = ok (0, mp') \<and> free_fp_list mp' = 0 # junk)) \<and>
   (0 \<le> sz \<and> sz < 256 \<longrightarrow>
     (\<exists>mp'. init_memphy junk blk mp sz flg = ok (0, mp') \<and> free_fp_list mp' = free_fp_list mp))"
proof -
  have "256 \<le> sz \<and> sz < 512 \<Longrightarrow> sz div 256 = 1" by linarith
  moreover have "0 \<le> sz \<and> sz < 256 \<Longrightarrow> sz div 256 = 0" by auto
  ultimately show ?thesis
    by (auto simp: init_memphy_def MEMPHY_format_def sdiv_pos PAGING_PAGESZ_def mutex_unlock_def Let_def)
qed

text \<open>A frame taken from a well-formed device lies inside its storage and leaves the free list; the
  list stays duplicate-free, so the frame cannot be handed out twice. Returning a frame that is
  not free keeps the list well formed.\<close>

theorem freefp_invariant:
  assumes "ready mp" "frames_ok mp"
  shows "(\<forall>f mp'. MEMPHY_get_freefp mp = ok (0, Some f, mp') \<longrightarrow>
            frame_in mp f \<and> f \<notin> set (free_fp_list mp') \<and> frames_ok mp' \<and> ready mp') \<and>
         (free_fp_list mp = [] \<longleftrightarrow> MEMPHY_get_freefp mp = ok (- 1, None, mp)) \<and>
         (\<forall>f. frame_in mp f \<and> f \<notin> set (free_fp_list mp) \<longrightarrow>
            (\<exists>mp'. MEMPHY_put_freefp mp f = ok (0, mp') \<and> frames_ok mp' \<and> ready mp'))"
proof (intro conjI allI impI)
  show "free_fp_list mp = [] \<longleftrightarrow> MEMPHY_get_freefp mp = ok (- 1, None, mp)"
    using assms by (simp add: MEMPHY_get_freefp_ready split: list.splits)
next
  fix f assume "frame_in mp f \<and> f \<notin> set (free_fp_list mp)"
  then show "\<exists>mp'. MEMPHY_put_freefp mp f = ok (0, mp') \<and> frames_ok mp' \<and> ready mp'"
    using assms by (simp add: MEMPHY_put_freefp_ready frames_ok_def)
qed (use get_freefp_frames_ok [OF assms] in blast)+

text \<open>A sequential device (\<open>rdmflg = 0\<close>) cannot be read or written: every access returns -1 without
  moving the cursor or touching the storage, and releases the mutex. The test of \<open>rdmflg\<close> in the
  sequential routines is the one of the caller, so the traversal behind it is never reached.\<close>

theorem sequential_device_inert:
  assumes "\<not> mutex mp" "rdmflg mp = 0"
  shows "MEMPHY_read mp a = ok (- 1, None, mp) \<and> MEMPHY_write mp a v = ok (- 1, mp)"
  using assms
  by (simp add: MEMPHY_read_def MEMPHY_write_def MEMPHY_seq_read_def MEMPHY_seq_write_def)

text \<open>Moving the cursor of a device of positive size to a position ends on that position when it is
  inside the device and on 0 when it is at or past the end.\<close>

theorem mv_csr_position:
  assumes "\<not> mutex mp" "0 < maxsz mp" "0 \<le> offset"
  shows "MEMPHY_mv_csr mp offset =
           ok (0, mp\<lparr>cursor := (if offset < maxsz mp then offset else 0)\<rparr>)"
  using assms mv_csr_loop_eq [of "maxsz mp" 0 offset 0]
  by (simp add: MEMPHY_mv_csr_def mutex_unlock_def)

section \<open>Witnesses\<close>

text \<open>A concrete device of 512 bytes with both frames free.\<close>

definition dev512 :: memphy_struct where
  "dev512 = \<lparr>mutex = False, storage = (\<lambda>a. if a = 3 then 7 else 0), maxsz = 512, rdmflg = 1, cursor = 0,
             free_fp_list = [0, 1]\<rparr>"

lemma dev512_ok [simp]: "ready dev512" "frames_ok dev512" "frame_in dev512 0" "frame_in dev512 1"
  "maxsz dev512 = 512" "free_fp_list dev512 = [0, 1]" "\<not> mutex dev512"
  by (simp_all add: dev512_def ready_def frames_ok_def frame_in_def)

theorem swap_out_in_roundtrip_witness:
  "\<exists>swp' ram'. swap_cp_page dev512 0 dev512 1 = ok (dev512, swp') \<and>
     swap_cp_page swp' 1 dev512 1 = ok (swp', ram') \<and> frame_bytes ram' 1 3 = frame_bytes dev512 0 3"
proof -
  obtain swp' ram' where *: "swap_cp_page dev512 0 dev512 1 = ok (dev512, swp')"
      "swap_cp_page swp' 1 dev512 1 = ok (swp', ram')"
      "\<forall>i. 0 \<le> i \<and> i < 256 \<longrightarrow> frame_bytes ram' 1 i = frame_bytes dev512 0 i"
    using swap_out_in_roundtrip [of dev512 dev512 0 1 1] dev512_ok by blast
  from *(3) have "frame_bytes ram' 1 3 = frame_bytes dev512 0 3" by simp
  with *(1,2) show ?thesis by blast
qed

theorem init_memphy_free_frames_witness:
  "\<exists>mp'. init_memphy [] (\<lambda>_. 0) dev512 1024 1 = ok (0, mp') \<and> free_fp_list mp' = [0, 1, 2, 3] \<and> ready mp'"
  using init_memphy_free_frames [of 1024 "[]" "\<lambda>_. 0" dev512 1]
  by (fastforce simp: upto_rec1)

theorem init_memphy_small_unspecified_witness:
  "\<exists>mp'. init_memphy [9, 9] (\<lambda>_. 0) dev512 256 1 = ok (0, mp') \<and> free_fp_list mp' = [0, 9, 9]"
  using init_memphy_small_unspecified [of 256 "[9, 9]" "\<lambda>_. 0" dev512 1] by simp

theorem freefp_invariant_witness:
  "\<exists>mp'. MEMPHY_get_freefp dev512 = ok (0, Some 0, mp') \<and> frames_ok mp' \<and> 0 \<notin> set (free_fp_list mp')"
proof -
  have "MEMPHY_get_freefp dev512 = ok (0, Some 0, dev512\<lparr>free_fp_list := [1]\<rparr>)"
    by (simp add: MEMPHY_get_freefp_ready)
  with freefp_invariant [of dev512] show ?thesis by (metis dev512_ok(1,2))
qed

theorem sequential_device_inert_witness:
  "MEMPHY_read (dev512\<lparr>rdmflg := 0\<rparr>) 3 = ok (- 1, None, dev512\<lparr>rdmflg := 0\<rparr>)"
  using sequential_device_inert [of "dev512\<lparr>rdmflg := 0\<rparr>" 3] by simp

theorem mv_csr_position_witness: "MEMPHY_mv_csr dev512 5 = ok (0, dev512\<lparr>cursor := 5\<rparr>)"
  using mv_csr_position [of dev512 5] by simp

end
