(* ===== verification/Lru.thy ===== *)
theory Lru
  imports Bitops "HOL-Library.Multiset"
begin

text \<open>
  The least-recently-used list of \<open>src/mm-vm.c\<close>: a system-wide doubly linked list of mapped pages.
  Nodes live in an explicit heap (a map from node addresses to nodes, \<open>lru_brk\<close> the next address
  \<open>malloc\<close> returns) and every pointer write of the code is an update of it. Following a null
  pointer is a fault. A pointer to a page table entry is a process and a page number. Every
  operation holds \<open>LRU_lock\<close> from beginning to end and is one atomic step.
\<close>

section \<open>State\<close>

type_synonym pte_ref = "int \<times> int"

record LRU_list =
  lru_next :: "nat option"
  lru_pre :: "nat option"
  pte :: pte_ref
  fpn :: int
  pgn :: int

record lru_state =
  lru_heap :: "nat \<Rightarrow> LRU_list"
  lru_head :: "nat option"
  lru_tail :: "nat option"
  lru_brk :: nat

section \<open>Operations\<close>

text \<open>The two pointer writes per field update: \<open>a->lru_next = v\<close> and \<open>a->lru_pre = v\<close>.\<close>

definition set_next :: "nat \<Rightarrow> nat option \<Rightarrow> lru_state \<Rightarrow> lru_state" where
  "set_next a v s = s\<lparr>lru_heap := (lru_heap s)(a := (lru_heap s a)\<lparr>lru_next := v\<rparr>)\<rparr>"

definition set_pre :: "nat \<Rightarrow> nat option \<Rightarrow> lru_state \<Rightarrow> lru_state" where
  "set_pre a v s = s\<lparr>lru_heap := (lru_heap s)(a := (lru_heap s a)\<lparr>lru_pre := v\<rparr>)\<rparr>"

text \<open>The last four lines of \<open>update_LRU_lst\<close>: link \<open>p\<close> after the tail.\<close>

definition link_tail :: "nat \<Rightarrow> lru_state \<Rightarrow> lru_state res" where
  "link_tail p s =
     bindR (from_opt NullDeref (lru_tail s)) (\<lambda>t.
       let s = set_next t (Some p) s;
           s = set_pre p (lru_tail s) s;
           s = set_next p None s
       in ok (s\<lparr>lru_tail := Some p\<rparr>))"

text \<open>Unlink \<open>p\<close> and move it to the tail; nothing to do for the only node and for the tail.\<close>

definition move_to_tail :: "nat \<Rightarrow> lru_state \<Rightarrow> lru_state res" where
  "move_to_tail p s =
     (if lru_head s = Some p then
        (if lru_head s = lru_tail s then ok s
         else
           bindR (from_opt NullDeref (lru_next (lru_heap s p))) (\<lambda>n.
             link_tail p (set_pre n None (s\<lparr>lru_head := Some n\<rparr>))))
      else if lru_tail s = Some p then ok s
      else
        bindR (from_opt NullDeref (lru_pre (lru_heap s p))) (\<lambda>a.
          let s = set_next a (lru_next (lru_heap s p)) s in
          bindR (from_opt NullDeref (lru_next (lru_heap s p))) (\<lambda>b.
            link_tail p (set_pre b (lru_pre (lru_heap s p)) s))))"

text \<open>The scan of \<open>update_LRU_lst\<close>: stop at the first match or at the last node.\<close>

partial_function (option) update_scan :: "(nat \<Rightarrow> LRU_list) \<Rightarrow> int \<Rightarrow> nat \<Rightarrow> nat option" where
  "update_scan h f p =
     (case lru_next (h p) of
        None \<Rightarrow> Some p
      | Some n \<Rightarrow> if fpn (h p) = f then Some p else update_scan h f n)"

declare update_scan.simps [code]

definition update_LRU_lst :: "32 word \<Rightarrow> lru_state \<Rightarrow> lru_state res" where
  "update_LRU_lst w s =
     bindR (from_opt NullDeref (lru_head s)) (\<lambda>p.
     bindR (from_opt Diverges (update_scan (lru_heap s) (PAGING_PTE_FPN w) p)) (\<lambda>p.
       move_to_tail p s))"

text \<open>The scan of \<open>add_LRU_page\<close>: \<open>Some None\<close> when the list ends without a match.\<close>

partial_function (option) add_scan :: "(nat \<Rightarrow> LRU_list) \<Rightarrow> int \<Rightarrow> nat option \<Rightarrow> nat option option" where
  "add_scan h f p =
     (case p of
        None \<Rightarrow> Some None
      | Some x \<Rightarrow> if fpn (h x) = f then Some (Some x) else add_scan h f (lru_next (h x)))"

declare add_scan.simps [code]

text \<open>\<open>add_LRU_page\<close>: \<open>r\<close> is the pointer to the entry, \<open>w\<close> the value it points to.\<close>

definition add_LRU_page :: "pte_ref \<Rightarrow> 32 word \<Rightarrow> int \<Rightarrow> lru_state \<Rightarrow> lru_state res" where
  "add_LRU_page r w pg s =
     (let tmp = lru_brk s;
          s = s\<lparr>lru_heap := (lru_heap s)(tmp := (lru_heap s tmp)\<lparr>pte := r, fpn := PAGING_PTE_FPN w, pgn := pg\<rparr>),
                lru_brk := lru_brk s + 1\<rparr>
      in case lru_head s of
           None \<Rightarrow> ok (set_next tmp None (set_pre tmp None (s\<lparr>lru_head := Some tmp, lru_tail := Some tmp\<rparr>)))
         | Some h \<Rightarrow>
             bindR (from_opt Diverges (add_scan (lru_heap s) (fpn (lru_heap s tmp)) (lru_head s))) (\<lambda>found.
               case found of
                 Some p \<Rightarrow> move_to_tail p s
               | None \<Rightarrow>
                   bindR (from_opt NullDeref (lru_tail s)) (\<lambda>t.
                     let s = set_next t (Some tmp) s;
                         s = set_pre tmp (lru_tail s) s;
                         s = set_next tmp None s
                     in ok (s\<lparr>lru_tail := Some tmp\<rparr>))))"

text \<open>\<open>find_LRU_victim_page\<close>: \<open>None\<close> for the return value -1, otherwise the three outputs.\<close>

definition find_LRU_victim_page :: "lru_state \<Rightarrow> ((int \<times> int \<times> pte_ref) option \<times> lru_state) res" where
  "find_LRU_victim_page s =
     (case lru_head s of
        None \<Rightarrow> ok (None, s)
      | Some temp \<Rightarrow>
          let out = (pgn (lru_heap s temp), fpn (lru_heap s temp), pte (lru_heap s temp)) in
          if lru_head s = lru_tail s then ok (Some out, s\<lparr>lru_head := None, lru_tail := None\<rparr>)
          else
            let s = s\<lparr>lru_head := lru_next (lru_heap s temp)\<rparr>;
                s = (case lru_head s of None \<Rightarrow> s | Some h \<Rightarrow> set_pre h None s)
            in ok (Some out, set_next temp None s))"

text \<open>The nodes reached from a pointer along \<open>lru_next\<close>, at most \<open>n\<close> of them.\<close>

fun lru_walk :: "nat \<Rightarrow> (nat \<Rightarrow> LRU_list) \<Rightarrow> nat option \<Rightarrow> nat list" where
  "lru_walk 0 h p = []"
| "lru_walk (Suc n) h p = (case p of None \<Rightarrow> [] | Some x \<Rightarrow> x # lru_walk n h (lru_next (h x)))"

definition lru_nodes :: "lru_state \<Rightarrow> nat list" where
  "lru_nodes s = lru_walk (lru_brk s) (lru_heap s) (lru_head s)"

text \<open>\<open>print_LRU_page\<close>: the page numbers printed, from least to most recently used.\<close>

definition print_LRU_page :: "lru_state \<Rightarrow> int list" where
  "print_LRU_page s = map (\<lambda>x. pgn (lru_heap s x)) (lru_nodes s)"

section \<open>Abstraction: a list of entries\<close>

record lru_entry =
  e_pte :: pte_ref
  e_fpn :: int
  e_pgn :: int

definition entry_of :: "LRU_list \<Rightarrow> lru_entry" where
  "entry_of n = \<lparr>e_pte = pte n, e_fpn = fpn n, e_pgn = pgn n\<rparr>"

definition lru_entries :: "lru_state \<Rightarrow> lru_entry list" where
  "lru_entries s = map (\<lambda>x. entry_of (lru_heap s x)) (lru_nodes s)"

text \<open>Touching a frame moves its entry to the back.\<close>

definition touch :: "int \<Rightarrow> lru_entry list \<Rightarrow> lru_entry list" where
  "touch f xs =
     (case List.extract (\<lambda>e. e_fpn e = f) xs of None \<Rightarrow> xs | Some (as, e, bs) \<Rightarrow> as @ bs @ [e])"

definition insert_page :: "lru_entry \<Rightarrow> lru_entry list \<Rightarrow> lru_entry list" where
  "insert_page e xs = (if e_fpn e \<in> e_fpn ` set xs then touch (e_fpn e) xs else xs @ [e])"

section \<open>Well-formed lists\<close>

definition head_of :: "nat list \<Rightarrow> nat option \<Rightarrow> nat option" where
  "head_of xs b = (case xs of [] \<Rightarrow> b | x # _ \<Rightarrow> Some x)"

definition last_of :: "nat option \<Rightarrow> nat list \<Rightarrow> nat option" where
  "last_of a xs = (if xs = [] then a else Some (last xs))"

fun dll_seg :: "(nat \<Rightarrow> LRU_list) \<Rightarrow> nat option \<Rightarrow> nat list \<Rightarrow> nat option \<Rightarrow> bool" where
  "dll_seg h a [] b = True"
| "dll_seg h a (x # xs) b =
     (lru_pre (h x) = a \<and> lru_next (h x) = head_of xs b \<and> dll_seg h (Some x) xs b)"

definition dll :: "lru_state \<Rightarrow> nat list \<Rightarrow> bool" where
  "dll s xs \<longleftrightarrow> distinct xs \<and> (\<forall>x \<in> set xs. x < lru_brk s) \<and> dll_seg (lru_heap s) None xs None \<and>
     lru_head s = head_of xs None \<and> lru_tail s = last_of None xs"

definition lru_ok :: "lru_state \<Rightarrow> bool" where
  "lru_ok s \<longleftrightarrow> dll s (lru_nodes s)"

section \<open>The contract of the replacement policy\<close>

text \<open>What the paging code relies on: recording a page use, and choosing a victim, on a list of
  entries ordered from least to most recently used.\<close>

locale replacement_policy =
  fixes use :: "32 word \<Rightarrow> 's \<Rightarrow> 's res"
    and add :: "pte_ref \<Rightarrow> 32 word \<Rightarrow> int \<Rightarrow> 's \<Rightarrow> 's res"
    and victim :: "'s \<Rightarrow> ((int \<times> int \<times> pte_ref) option \<times> 's) res"
    and entries :: "'s \<Rightarrow> lru_entry list"
    and wf :: "'s \<Rightarrow> bool"
  assumes use_ok: "wf s \<Longrightarrow> entries s \<noteq> [] \<Longrightarrow>
      \<exists>s'. use w s = ok s' \<and> wf s' \<and> entries s' = touch (PAGING_PTE_FPN w) (entries s)"
    and use_null: "wf s \<Longrightarrow> entries s = [] \<Longrightarrow> use w s = Inl NullDeref"
    and add_ok: "wf s \<Longrightarrow>
      \<exists>s'. add r w pg s = ok s' \<and> wf s' \<and>
        entries s' = insert_page \<lparr>e_pte = r, e_fpn = PAGING_PTE_FPN w, e_pgn = pg\<rparr> (entries s)"
    and victim_none: "wf s \<Longrightarrow> entries s = [] \<Longrightarrow> victim s = ok (None, s)"
    and victim_some: "wf s \<Longrightarrow> entries s = e # es \<Longrightarrow>
      \<exists>s'. victim s = ok (Some (e_pgn e, e_fpn e, e_pte e), s') \<and> wf s' \<and> entries s' = es"

section \<open>Facts on the abstract list\<close>

lemma touch_cases:
  obtains (Absent) "f \<notin> e_fpn ` set xs" "touch f xs = xs"
  | (Present) as e bs where "xs = as @ e # bs" "e_fpn e = f" "f \<notin> e_fpn ` set as" "touch f xs = as @ bs @ [e]"
proof (cases "List.extract (\<lambda>e. e_fpn e = f) xs")
  case None
  then have "f \<notin> e_fpn ` set xs" by (auto simp: extract_None_iff)
  with None Absent show ?thesis by (simp add: touch_def)
next
  case (Some r)
  obtain as e bs where r: "r = (as, e, bs)" by (cases r)
  from Some r have "xs = as @ e # bs" "e_fpn e = f" "f \<notin> e_fpn ` set as" by (auto simp: extract_Some_iff)
  with Some r Present show ?thesis by (simp add: touch_def)
qed

lemma touch_split:
  assumes "f \<notin> e_fpn ` set as" "e_fpn e = f"
  shows "touch f (as @ e # bs) = as @ bs @ [e]"
proof -
  have "List.extract (\<lambda>e. e_fpn e = f) (as @ e # bs) = Some (as, e, bs)"
    using assms by (auto simp: extract_Some_iff) (metis imageI)
  then show ?thesis by (simp add: touch_def)
qed

lemma touch_absent: "f \<notin> e_fpn ` set xs \<Longrightarrow> touch f xs = xs"
  by (cases rule: touch_cases [of f xs]) auto

lemma mset_touch [simp]: "mset (touch f xs) = mset xs"
  by (cases rule: touch_cases [of f xs]) simp_all

lemma set_touch [simp]: "set (touch f xs) = set xs"
  by (metis mset_touch set_mset_mset)

lemma touch_Nil_iff [simp]: "touch f xs = [] \<longleftrightarrow> xs = []"
  by (metis mset_touch mset_zero_iff_right)

lemma distinct_fpn_touch [simp]: "distinct (map e_fpn (touch f xs)) \<longleftrightarrow> distinct (map e_fpn xs)"
  by (metis mset_touch mset_map mset_eq_imp_distinct_iff)

lemma fpns_insert_page: "e_fpn ` set (insert_page e xs) = insert (e_fpn e) (e_fpn ` set xs)"
  by (auto simp: insert_page_def)

lemma distinct_fpn_insert_page [simp]:
  "distinct (map e_fpn (insert_page e xs)) \<longleftrightarrow> distinct (map e_fpn xs)"
  by (auto simp: insert_page_def)

lemma insert_page_fresh [simp]: "e_fpn e \<notin> e_fpn ` set xs \<Longrightarrow> insert_page e xs = xs @ [e]"
  by (simp add: insert_page_def)

lemma insert_page_not_Nil [simp]: "insert_page e xs \<noteq> []"
  by (auto simp: insert_page_def)

section \<open>Facts on the linked list\<close>

lemma head_of_simps [simp]: "head_of [] b = b" "head_of (x # xs) b = Some x"
  by (simp_all add: head_of_def)

lemma last_of_simps [simp]: "last_of a [] = a" "last_of a (xs @ [x]) = Some x"
  by (simp_all add: last_of_def)

lemma head_of_append: "head_of (xs @ ys) b = head_of xs (head_of ys b)"
  by (cases xs) simp_all

lemma last_of_append: "last_of a (xs @ ys) = last_of (last_of a xs) ys"
  by (simp add: last_of_def)

lemma last_of_Cons: "last_of a (x # xs) = last_of (Some x) xs"
  by (simp add: last_of_def)

lemma head_of_in: "head_of xs b = Some x \<Longrightarrow> x \<in> set xs \<or> b = Some x"
  by (cases xs) auto

lemma last_of_in: "last_of a xs = Some x \<Longrightarrow> x \<in> set xs \<or> a = Some x"
  by (auto simp: last_of_def split: if_splits)

lemma dll_seg_append:
  "dll_seg h a (xs @ ys) b \<longleftrightarrow> dll_seg h a xs (head_of ys b) \<and> dll_seg h (last_of a xs) ys b"
  by (induction xs arbitrary: a) (auto simp: head_of_append last_of_Cons)

lemma dll_seg_cong:
  "(\<And>x. x \<in> set xs \<Longrightarrow> lru_pre (h' x) = lru_pre (h x) \<and> lru_next (h' x) = lru_next (h x)) \<Longrightarrow>
   dll_seg h' a xs b = dll_seg h a xs b"
  by (induction xs arbitrary: a) auto

lemma set_next_simps [simp]:
  "lru_head (set_next a v s) = lru_head s" "lru_tail (set_next a v s) = lru_tail s"
  "lru_brk (set_next a v s) = lru_brk s"
  "lru_next (lru_heap (set_next a v s) x) = (if x = a then v else lru_next (lru_heap s x))"
  "lru_pre (lru_heap (set_next a v s) x) = lru_pre (lru_heap s x)"
  "entry_of (lru_heap (set_next a v s) x) = entry_of (lru_heap s x)"
  by (simp_all add: set_next_def entry_of_def)

lemma set_pre_simps [simp]:
  "lru_head (set_pre a v s) = lru_head s" "lru_tail (set_pre a v s) = lru_tail s"
  "lru_brk (set_pre a v s) = lru_brk s"
  "lru_pre (lru_heap (set_pre a v s) x) = (if x = a then v else lru_pre (lru_heap s x))"
  "lru_next (lru_heap (set_pre a v s) x) = lru_next (lru_heap s x)"
  "entry_of (lru_heap (set_pre a v s) x) = entry_of (lru_heap s x)"
  by (simp_all add: set_pre_def entry_of_def)

lemma lru_walk_seg:
  "dll_seg h a xs None \<Longrightarrow> length xs \<le> n \<Longrightarrow> lru_walk n h (head_of xs None) = xs"
proof (induction xs arbitrary: a n)
  case Nil
  then show ?case by (cases n) simp_all
next
  case (Cons x xs)
  then show ?case by (cases n) auto
qed

lemma dll_nodes:
  assumes "dll s xs"
  shows "lru_nodes s = xs" and "lru_ok s"
proof -
  have "set xs \<subseteq> {..<lru_brk s}" using assms by (auto simp: dll_def)
  then have "length xs \<le> lru_brk s"
    using assms by (metis card_lessThan card_mono distinct_card dll_def finite_lessThan)
  with assms show "lru_nodes s = xs" by (auto simp: lru_nodes_def dll_def intro: lru_walk_seg)
  with assms show "lru_ok s" by (simp add: lru_ok_def)
qed

text \<open>Linking a node that is not in the list after the tail.\<close>

lemma link_tail_dll:
  assumes "dll s xs" "xs \<noteq> []" "p \<notin> set xs" "p < lru_brk s"
  obtains s' where "link_tail p s = ok s'" "dll s' (xs @ [p])" "lru_brk s' = lru_brk s"
    "\<forall>x. entry_of (lru_heap s' x) = entry_of (lru_heap s x)"
proof -
  obtain ys t where xs: "xs = ys @ [t]" using assms(2) by (metis rev_exhaust)
  let ?s = "set_next p None (set_pre p (Some t) (set_next t (Some p) s))\<lparr>lru_tail := Some p\<rparr>"
  have "link_tail p s = ok ?s"
    using assms(1) xs by (simp add: link_tail_def dll_def Let_def)
  moreover have "dll ?s (xs @ [p])"
  proof -
    have "dll_seg (lru_heap s) None (ys @ [t]) None" "distinct (ys @ [t])" using assms(1) xs by (auto simp: dll_def)
    moreover have "dll_seg (lru_heap ?s) None ys (Some t) = dll_seg (lru_heap s) None ys (Some t)"
      using assms(1,3) xs by (intro dll_seg_cong) (auto simp: dll_def)
    ultimately show ?thesis
      using assms xs by (auto simp: dll_def dll_seg_append head_of_append last_of_append last_of_Cons)
  qed
  ultimately show ?thesis by (intro that [of ?s]) simp_all
qed

text \<open>Unlinking the first node and unlinking an inner node.\<close>

lemma unlink_head_dll:
  assumes "dll s (p # n # cs)"
  shows "dll (set_pre n None (s\<lparr>lru_head := Some n\<rparr>)) (n # cs)"
proof -
  let ?s = "set_pre n None (s\<lparr>lru_head := Some n\<rparr>)"
  have "dll_seg (lru_heap ?s) (Some n) cs None = dll_seg (lru_heap s) (Some n) cs None"
    using assms by (intro dll_seg_cong) (auto simp: dll_def)
  with assms show ?thesis by (auto simp: dll_def last_of_def)
qed

lemma unlink_inner_dll:
  assumes "dll s (as @ a # p # b # cs)"
  shows "dll (set_pre b (Some a) (set_next a (Some b) s)) (as @ a # b # cs)"
proof -
  let ?s = "set_pre b (Some a) (set_next a (Some b) s)"
  have "dll_seg (lru_heap ?s) None as (Some a) = dll_seg (lru_heap s) None as (Some a)"
    "dll_seg (lru_heap ?s) (Some b) cs None = dll_seg (lru_heap s) (Some b) cs None"
    using assms by (intro dll_seg_cong; auto simp: dll_def)+
  with assms show ?thesis
    by (auto simp: dll_def dll_seg_append head_of_append last_of_append last_of_Cons)
qed

lemma move_to_tail_dll:
  assumes "dll s (as @ p # bs)"
  obtains s' where "move_to_tail p s = ok s'" "dll s' (as @ bs @ [p])" "lru_brk s' = lru_brk s"
    "\<forall>x. entry_of (lru_heap s' x) = entry_of (lru_heap s x)"
proof (cases bs rule: list.exhaust)
  case Nil
  with assms have "move_to_tail p s = ok s"
    by (auto simp: move_to_tail_def dll_def last_of_append last_of_Cons)
  with assms Nil that show ?thesis by simp
next
  case bs: (Cons b cs)
  have d: "p < lru_brk s" "p \<notin> set as" "p \<notin> set bs" "distinct (as @ p # bs)"
    using assms by (auto simp: dll_def)
  show ?thesis
  proof (cases as rule: rev_exhaust)
    case Nil
    let ?t = "set_pre b None (s\<lparr>lru_head := Some b\<rparr>)"
    have "dll ?t (b # cs)" using assms Nil bs by (intro unlink_head_dll) simp
    moreover have "b # cs \<noteq> []" "p \<notin> set (b # cs)" "p < lru_brk ?t" using d bs by simp_all
    ultimately obtain s' where s': "link_tail p ?t = ok s'" "dll s' ((b # cs) @ [p])"
      "lru_brk s' = lru_brk ?t" "\<forall>x. entry_of (lru_heap s' x) = entry_of (lru_heap ?t x)"
      by (rule link_tail_dll)
    have "lru_head s \<noteq> lru_tail s" "lru_head s = Some p" "lru_next (lru_heap s p) = Some b"
      using assms d Nil bs by (auto simp: dll_def last_of_def)
    then have "move_to_tail p s = ok s'" using s'(1) by (simp add: move_to_tail_def)
    with s' Nil bs show ?thesis by (intro that [of s']) simp_all
  next
    case (snoc as' a)
    let ?t = "set_pre b (Some a) (set_next a (Some b) s)"
    have "dll s (as' @ a # p # b # cs)" using assms snoc bs by simp
    then have "dll ?t (as' @ a # b # cs)" by (rule unlink_inner_dll)
    moreover have "as' @ a # b # cs \<noteq> []" "p \<notin> set (as' @ a # b # cs)" "p < lru_brk ?t"
      using d bs snoc by simp_all
    ultimately obtain s' where s': "link_tail p ?t = ok s'" "dll s' ((as' @ a # b # cs) @ [p])"
      "lru_brk s' = lru_brk ?t" "\<forall>x. entry_of (lru_heap s' x) = entry_of (lru_heap ?t x)"
      by (rule link_tail_dll)
    have "lru_head s = head_of as' (Some a)" "lru_tail s = last_of (Some b) cs"
      "lru_next (lru_heap s p) = Some b" "lru_pre (lru_heap s p) = Some a"
      using assms snoc bs by (simp_all add: dll_def dll_seg_append head_of_append last_of_append last_of_Cons)
    moreover have "head_of as' (Some a) \<noteq> Some p" "last_of (Some b) cs \<noteq> Some p" "a \<noteq> p"
      using d snoc bs by (auto dest: head_of_in last_of_in)
    ultimately have "move_to_tail p s = ok s'" using s'(1) by (simp add: move_to_tail_def Let_def)
    with s' snoc bs show ?thesis by (intro that [of s']) simp_all
  qed
qed

section \<open>What every policy with this contract guarantees\<close>

text \<open>A sequence of page uses, given by the entries read.\<close>

fun use_all :: "(32 word \<Rightarrow> 's \<Rightarrow> 's res) \<Rightarrow> 32 word list \<Rightarrow> 's \<Rightarrow> 's res" where
  "use_all use [] s = ok s"
| "use_all use (w # ws) s = bindR (use w s) (\<lambda>s. use_all use ws s)"

text \<open>The order after uses: frames not used keep their order and come first, the used ones follow in
  the order of their last use.\<close>

definition lru_order :: "int list \<Rightarrow> int list \<Rightarrow> int list" where
  "lru_order fs uses = filter (\<lambda>f. f \<notin> set uses) fs @ remdups (filter (\<lambda>f. f \<in> set fs) uses)"

lemma fpns_touch:
  assumes "distinct (map e_fpn xs)"
  shows "map e_fpn (touch f xs) = lru_order (map e_fpn xs) [f]"
proof (cases rule: touch_cases [of f xs])
  case Absent
  then show ?thesis by (auto simp: lru_order_def intro!: filter_True [symmetric])
next
  case (Present as e bs)
  with assms have "f \<notin> e_fpn ` set bs" by auto
  with Present(3) have "filter (\<lambda>g. g \<noteq> f) (map e_fpn as) = map e_fpn as" "filter (\<lambda>g. g \<noteq> f) (map e_fpn bs) = map e_fpn bs"
    by (intro filter_True; force)+
  with Present(1,2) have "filter (\<lambda>g. g \<noteq> f) (map e_fpn xs) = map e_fpn as @ map e_fpn bs"
    by simp
  with Present show ?thesis by (simp add: lru_order_def)
qed

lemma remdups_snoc: "remdups (xs @ [x]) = filter (\<lambda>y. y \<noteq> x) (remdups xs) @ [x]"
  by (induction xs) auto

lemma set_lru_order [simp]: "set (lru_order fs uses) = set fs"
  by (auto simp: lru_order_def)

lemma lru_order_snoc: "lru_order (lru_order fs us) [u] = lru_order fs (us @ [u])"
  unfolding lru_order_def
  by (auto simp: remdups_snoc remdups_filter intro!: arg_cong2 [where f = append] filter_cong)

context replacement_policy
begin

lemma use_all_order:
  assumes "wf s" "entries s \<noteq> []" "distinct (map e_fpn (entries s))"
  shows "\<exists>s'. use_all use ws s = ok s' \<and> wf s' \<and>
           map e_fpn (entries s') = lru_order (map e_fpn (entries s)) (map PAGING_PTE_FPN ws)"
  using assms
proof (induction ws arbitrary: s)
  case Nil
  then show ?case by (simp add: lru_order_def)
next
  case (Cons w ws)
  obtain s1 where s1: "use w s = ok s1" "wf s1" "entries s1 = touch (PAGING_PTE_FPN w) (entries s)"
    using use_ok [OF Cons.prems(1,2)] by blast
  then have "entries s1 \<noteq> []" "distinct (map e_fpn (entries s1))" using Cons.prems by simp_all
  from Cons.IH [OF s1(2) this] obtain s' where s': "use_all use ws s1 = ok s'" "wf s'"
    "map e_fpn (entries s') = lru_order (map e_fpn (entries s1)) (map PAGING_PTE_FPN ws)" by blast
  have "lru_order (lru_order fs [u]) us = lru_order fs (u # us)" for fs u us
  proof (induction us rule: rev_induct)
    case (snoc v us)
    then show ?case by (metis append_Cons lru_order_snoc)
  qed (simp add: lru_order_def)
  with s' s1 Cons.prems(3) show ?case by (simp add: fpns_touch)
qed

lemma add_distinct:
  assumes "wf s" "distinct (map e_fpn (entries s))" "add r w pg s = ok s'"
  shows "wf s' \<and> distinct (map e_fpn (entries s')) \<and>
         e_fpn ` set (entries s') = insert (PAGING_PTE_FPN w) (e_fpn ` set (entries s))"
  using add_ok [OF assms(1), of r w pg] assms(2,3) by (auto simp: fpns_insert_page)

lemma victim_distinct:
  assumes "wf s" "distinct (map e_fpn (entries s))" "victim s = ok (Some (pg, f, r), s')"
  shows "wf s' \<and> distinct (map e_fpn (entries s')) \<and> f \<notin> e_fpn ` set (entries s') \<and>
         e_fpn ` set (entries s) = insert f (e_fpn ` set (entries s'))"
proof (cases "entries s")
  case Nil
  with assms victim_none show ?thesis by auto
next
  case (Cons e es)
  from victim_some [OF assms(1) Cons] assms(2,3) Cons show ?thesis by auto
qed

end

section \<open>The linked list meets the contract\<close>

lemma update_scan_seg:
  assumes "dll_seg h a (x # xs) None"
  shows "\<exists>as q bs. x # xs = as @ q # bs \<and> update_scan h f x = Some q \<and>
           (\<forall>y \<in> set as. fpn (h y) \<noteq> f) \<and> (fpn (h q) = f \<or> bs = [])"
  using assms
proof (induction xs arbitrary: a x)
  case Nil
  then have "update_scan h f x = Some x" by (subst update_scan.simps) simp
  then show ?case by (intro exI [of _ "[]"] exI [of _ x]) simp
next
  case (Cons y ys)
  show ?case
  proof (cases "fpn (h x) = f")
    case True
    with Cons.prems have "update_scan h f x = Some x" by (subst update_scan.simps) simp
    with True show ?thesis by (intro exI [of _ "[]"] exI [of _ x] exI [of _ "y # ys"]) simp
  next
    case False
    with Cons.prems have "update_scan h f x = update_scan h f y" by (subst update_scan.simps) simp
    moreover from Cons.prems have "dll_seg h (Some x) (y # ys) None" by simp
    then obtain as q bs where "y # ys = as @ q # bs" "update_scan h f y = Some q"
      "\<forall>y \<in> set as. fpn (h y) \<noteq> f" "fpn (h q) = f \<or> bs = []" using Cons.IH by blast
    ultimately show ?thesis using False by (intro exI [of _ "x # as"] exI [of _ q] exI [of _ bs]) simp
  qed
qed

lemma add_scan_seg:
  "dll_seg h a xs None \<Longrightarrow> add_scan h f (head_of xs None) = Some (find (\<lambda>x. fpn (h x) = f) xs)"
  by (induction xs arbitrary: a; subst add_scan.simps) auto

lemma lru_entries_dll: "dll s xs \<Longrightarrow> lru_entries s = map (\<lambda>x. entry_of (lru_heap s x)) xs"
  by (simp add: lru_entries_def dll_nodes)

lemma lru_entries_Nil: "lru_ok s \<Longrightarrow> lru_entries s = [] \<longleftrightarrow> lru_head s = None"
  by (cases "lru_nodes s") (auto simp: lru_ok_def dll_def lru_entries_def)

lemma e_fpn_entry_of [simp]: "e_fpn (entry_of n) = fpn n"
  by (simp add: entry_of_def)

lemma touch_map_split:
  assumes "\<forall>y \<in> set as. fpn (h y) \<noteq> f" "fpn (h q) = f"
  shows "touch f (map (\<lambda>x. entry_of (h x)) (as @ q # bs)) = map (\<lambda>x. entry_of (h x)) (as @ bs @ [q])"
proof -
  have "f \<notin> e_fpn ` set (map (\<lambda>x. entry_of (h x)) as)" using assms(1) by force
  with assms(2) touch_split [of f "map (\<lambda>x. entry_of (h x)) as" "entry_of (h q)"] show ?thesis by simp
qed

lemma update_LRU_lst_refines:
  assumes "lru_ok s" "lru_entries s \<noteq> []"
  shows "\<exists>s'. update_LRU_lst w s = ok s' \<and> lru_ok s' \<and> lru_entries s' = touch (PAGING_PTE_FPN w) (lru_entries s)"
proof -
  let ?f = "PAGING_PTE_FPN w" and ?e = "\<lambda>x. entry_of (lru_heap s x)"
  obtain x xs where n: "lru_nodes s = x # xs" using assms(2) by (cases "lru_nodes s") (auto simp: lru_entries_def)
  then have d: "dll s (x # xs)" using assms(1) by (simp add: lru_ok_def)
  then have "dll_seg (lru_heap s) None (x # xs) None" "lru_head s = Some x" by (auto simp: dll_def)
  from update_scan_seg [OF this(1), of ?f] obtain as q bs where q: "x # xs = as @ q # bs"
    "update_scan (lru_heap s) ?f x = Some q" "\<forall>y \<in> set as. fpn (lru_heap s y) \<noteq> ?f"
    "fpn (lru_heap s q) = ?f \<or> bs = []" by blast
  from d q(1) have "dll s (as @ q # bs)" by simp
  then obtain s' where s': "move_to_tail q s = ok s'" "dll s' (as @ bs @ [q])"
    "\<forall>x. entry_of (lru_heap s' x) = entry_of (lru_heap s x)" by (rule move_to_tail_dll)
  have "touch ?f (map ?e (as @ q # bs)) = map ?e (as @ bs @ [q])"
  proof (cases "fpn (lru_heap s q) = ?f")
    case True
    with q(3) show ?thesis by (rule touch_map_split)
  next
    case False
    with q(3) have "?f \<notin> e_fpn ` set (map ?e (as @ q # bs))" using q(4) by force
    with False q(4) touch_absent show ?thesis by fastforce
  qed
  with d q(1) s' have "lru_entries s' = touch ?f (lru_entries s)" by (simp add: lru_entries_dll)
  with s' q(2) \<open>lru_head s = Some x\<close> show ?thesis by (simp add: update_LRU_lst_def dll_nodes)
qed

text \<open>The fresh node of \<open>add_LRU_page\<close>.\<close>

definition alloc_node :: "pte_ref \<Rightarrow> 32 word \<Rightarrow> int \<Rightarrow> lru_state \<Rightarrow> lru_state" where
  "alloc_node r w pg s = s\<lparr>lru_heap := (lru_heap s)(lru_brk s := (lru_heap s (lru_brk s))\<lparr>pte := r,
     fpn := PAGING_PTE_FPN w, pgn := pg\<rparr>), lru_brk := lru_brk s + 1\<rparr>"

lemma alloc_node_simps [simp]:
  "lru_head (alloc_node r w pg s) = lru_head s" "lru_tail (alloc_node r w pg s) = lru_tail s"
  "lru_brk (alloc_node r w pg s) = lru_brk s + 1"
  "entry_of (lru_heap (alloc_node r w pg s) (lru_brk s)) = \<lparr>e_pte = r, e_fpn = PAGING_PTE_FPN w, e_pgn = pg\<rparr>"
  "fpn (lru_heap (alloc_node r w pg s) (lru_brk s)) = PAGING_PTE_FPN w"
  "x \<noteq> lru_brk s \<Longrightarrow> lru_heap (alloc_node r w pg s) x = lru_heap s x"
  by (simp_all add: alloc_node_def entry_of_def)

lemma alloc_node_dll:
  assumes "dll s xs"
  shows "dll (alloc_node r w pg s) xs" "lru_brk s \<notin> set xs"
proof -
  show "lru_brk s \<notin> set xs" using assms by (auto simp: dll_def)
  then have "dll_seg (lru_heap (alloc_node r w pg s)) None xs None = dll_seg (lru_heap s) None xs None"
    by (intro dll_seg_cong) (metis alloc_node_simps(6))
  with assms show "dll (alloc_node r w pg s) xs" by (auto simp: dll_def)
qed

lemma add_LRU_page_unfold:
  "add_LRU_page r w pg s =
     (let t = alloc_node r w pg s; tmp = lru_brk s in
      case lru_head t of
        None \<Rightarrow> ok (set_next tmp None (set_pre tmp None (t\<lparr>lru_head := Some tmp, lru_tail := Some tmp\<rparr>)))
      | Some h \<Rightarrow>
          bindR (from_opt Diverges (add_scan (lru_heap t) (PAGING_PTE_FPN w) (lru_head t))) (\<lambda>found.
            case found of Some p \<Rightarrow> move_to_tail p t | None \<Rightarrow> link_tail tmp t))"
  unfolding add_LRU_page_def link_tail_def alloc_node_def Let_def
  by (cases "lru_head s") simp_all

lemma add_LRU_page_empty:
  assumes "dll s []"
  shows "\<exists>s'. add_LRU_page r w pg s = ok s' \<and> lru_ok s' \<and>
           lru_entries s' = [\<lparr>e_pte = r, e_fpn = PAGING_PTE_FPN w, e_pgn = pg\<rparr>]"
proof -
  let ?t = "alloc_node r w pg s" and ?x = "lru_brk s"
  let ?s = "set_next ?x None (set_pre ?x None (?t\<lparr>lru_head := Some ?x, lru_tail := Some ?x\<rparr>))"
  have "lru_head s = None" using assms by (simp add: dll_def)
  then have "add_LRU_page r w pg s = ok ?s" by (simp add: add_LRU_page_unfold Let_def)
  moreover have "dll ?s [?x]" by (simp add: dll_def last_of_def)
  ultimately show ?thesis by (auto simp: lru_entries_dll dll_nodes)
qed

lemma add_LRU_page_refines:
  assumes "lru_ok s"
  shows "\<exists>s'. add_LRU_page r w pg s = ok s' \<and> lru_ok s' \<and>
           lru_entries s' = insert_page \<lparr>e_pte = r, e_fpn = PAGING_PTE_FPN w, e_pgn = pg\<rparr> (lru_entries s)"
proof (cases "lru_nodes s")
  case Nil
  with assms have "dll s []" "lru_entries s = []" by (simp_all add: lru_ok_def lru_entries_def)
  with add_LRU_page_empty [of s r w pg] show ?thesis by simp
next
  case (Cons x xs)
  let ?ns = "x # xs" and ?t = "alloc_node r w pg s" and ?f = "PAGING_PTE_FPN w"
  let ?new = "\<lparr>e_pte = r, e_fpn = ?f, e_pgn = pg\<rparr>"
  have d: "dll s ?ns" using assms Cons by (simp add: lru_ok_def)
  have t: "dll ?t ?ns" "lru_brk s \<notin> set ?ns" by (rule alloc_node_dll [OF d])+
  have ent: "\<And>y. y \<in> set ?ns \<Longrightarrow> lru_heap ?t y = lru_heap s y" using t(2) by (metis alloc_node_simps(6))
  have es: "lru_entries s = map (\<lambda>x. entry_of (lru_heap ?t x)) ?ns"
    using d ent by (simp add: lru_entries_dll)
  have "add_scan (lru_heap ?t) ?f (head_of ?ns None) = Some (find (\<lambda>x. fpn (lru_heap ?t x) = ?f) ?ns)"
    using t(1) by (intro add_scan_seg) (auto simp: dll_def)
  moreover have "lru_head s = Some x" using d by (simp add: dll_def)
  ultimately have a: "add_LRU_page r w pg s =
      (case find (\<lambda>x. fpn (lru_heap ?t x) = ?f) ?ns of Some p \<Rightarrow> move_to_tail p ?t | None \<Rightarrow> link_tail (lru_brk s) ?t)"
    by (simp add: add_LRU_page_unfold Let_def)
  show ?thesis
  proof (cases "find (\<lambda>x. fpn (lru_heap ?t x) = ?f) ?ns")
    case None
    then have "\<forall>y \<in> set ?ns. fpn (lru_heap ?t y) \<noteq> ?f" unfolding find_None_iff by blast
    then have "?f \<notin> e_fpn ` set (lru_entries s)" by (force simp: es)
    moreover have "lru_brk s < lru_brk ?t" by simp
    with t(1) t(2) obtain s' where "link_tail (lru_brk s) ?t = ok s'" "dll s' (?ns @ [lru_brk s])"
      "\<forall>x. entry_of (lru_heap s' x) = entry_of (lru_heap ?t x)" by (metis link_tail_dll list.distinct(1))
    ultimately show ?thesis using None a es by (simp add: lru_entries_dll dll_nodes)
  next
    case (Some p)
    then obtain as bs where p: "?ns = as @ p # bs" "fpn (lru_heap ?t p) = ?f" "\<forall>y \<in> set as. fpn (lru_heap ?t y) \<noteq> ?f"
      by (rule find_SomeE)
    with t(1) obtain s' where s': "move_to_tail p ?t = ok s'" "dll s' (as @ bs @ [p])"
      "\<forall>x. entry_of (lru_heap s' x) = entry_of (lru_heap ?t x)" by (metis move_to_tail_dll)
    have "insert_page ?new (lru_entries s) = touch ?f (lru_entries s)"
      using p(1,2) by (auto simp: insert_page_def es)
    also have "\<dots> = map (\<lambda>x. entry_of (lru_heap ?t x)) (as @ bs @ [p])"
      unfolding es p(1) using p(3,2) by (rule touch_map_split)
    finally show ?thesis using Some a s' by (simp add: lru_entries_dll dll_nodes)
  qed
qed

lemma find_victim_refines:
  assumes "lru_ok s" "lru_entries s = e # es"
  shows "\<exists>s'. find_LRU_victim_page s = ok (Some (e_pgn e, e_fpn e, e_pte e), s') \<and> lru_ok s' \<and> lru_entries s' = es"
proof -
  obtain x xs where n: "lru_nodes s = x # xs" and e: "e = entry_of (lru_heap s x)"
    and es: "es = map (\<lambda>x. entry_of (lru_heap s x)) xs"
    using assms(2) by (cases "lru_nodes s") (auto simp: lru_entries_def)
  have d: "dll s (x # xs)" using assms(1) n by (simp add: lru_ok_def)
  show ?thesis
  proof (cases xs)
    case Nil
    with d have "lru_head s = Some x" "lru_tail s = Some x" by (auto simp: dll_def last_of_def)
    moreover have "dll (s\<lparr>lru_head := None, lru_tail := None\<rparr>) []" by (simp add: dll_def)
    ultimately show ?thesis using Nil e es
      by (auto simp: find_LRU_victim_page_def entry_of_def lru_entries_dll dll_nodes)
  next
    case (Cons y ys)
    let ?s = "set_pre y None (s\<lparr>lru_head := Some y\<rparr>)"
    have "dll ?s xs" using unlink_head_dll [of s x y ys] d Cons by simp
    moreover have "dll_seg (lru_heap (set_next x None ?s)) None xs None = dll_seg (lru_heap ?s) None xs None"
      using d by (intro dll_seg_cong) (auto simp: dll_def)
    ultimately have d': "dll (set_next x None ?s) xs" unfolding dll_def set_next_simps by blast
    have "lru_head s = Some x" "lru_tail s \<noteq> Some x" "lru_next (lru_heap s x) = Some y"
      using d Cons by (auto simp: dll_def last_of_def)
    then have "find_LRU_victim_page s = ok (Some (e_pgn e, e_fpn e, e_pte e), set_next x None ?s)"
      using e by (simp add: find_LRU_victim_page_def entry_of_def Let_def)
    with d' es show ?thesis by (simp add: lru_entries_dll dll_nodes)
  qed
qed

interpretation lru: replacement_policy update_LRU_lst add_LRU_page find_LRU_victim_page lru_entries lru_ok
proof
  show "lru_ok s \<Longrightarrow> lru_entries s = [] \<Longrightarrow> update_LRU_lst w s = Inl NullDeref" for w s
    by (simp add: lru_entries_Nil update_LRU_lst_def)
  show "lru_ok s \<Longrightarrow> lru_entries s = [] \<Longrightarrow> find_LRU_victim_page s = ok (None, s)" for s
    by (simp add: lru_entries_Nil find_LRU_victim_page_def)
qed (fact update_LRU_lst_refines add_LRU_page_refines find_victim_refines)+

section \<open>Properties\<close>

text \<open>C11. The doubly linked LRU list implements a list of entries ordered by recency. On a well-formed
  list \<open>add_LRU_page\<close> appends the page, or moves the entry that already has its frame to the back;
  \<open>update_LRU_lst\<close> moves the entry of the frame to the back; \<open>find_LRU_victim_page\<close> removes the front
  entry and returns it. All keep the list well formed, none loops or follows a null pointer,
  except \<open>update_LRU_lst\<close> on an empty list, which dereferences the null head.\<close>

theorem lru_refinement:
  assumes "lru_ok s"
  shows "(\<exists>s'. add_LRU_page r w pg s = ok s' \<and> lru_ok s' \<and>
            lru_entries s' = insert_page \<lparr>e_pte = r, e_fpn = PAGING_PTE_FPN w, e_pgn = pg\<rparr> (lru_entries s)) \<and>
         (if lru_entries s = [] then update_LRU_lst w s = Inl NullDeref
          else \<exists>s'. update_LRU_lst w s = ok s' \<and> lru_ok s' \<and>
                 lru_entries s' = touch (PAGING_PTE_FPN w) (lru_entries s)) \<and>
         (case lru_entries s of
            [] \<Rightarrow> find_LRU_victim_page s = ok (None, s)
          | e # es \<Rightarrow> \<exists>s'. find_LRU_victim_page s = ok (Some (e_pgn e, e_fpn e, e_pte e), s') \<and> lru_ok s' \<and>
                     lru_entries s' = es)"
  using lru.add_ok [OF assms] lru.use_ok [OF assms] lru.use_null [OF assms]
    lru.victim_none [OF assms] lru.victim_some [OF assms]
  by (auto split: list.splits)

text \<open>
  C10. The list is ordered by recency. For a well-formed list that is not empty and names no frame twice, after any
  sequence of references (\<open>update_LRU_lst\<close> calls, which look their page up by the frame number of its
  entry) the frames that were not referenced come first, in their old order, followed by the
  referenced ones in the order of their last reference; references to frames that are not listed
  change nothing. So the next victim is a page that was not referenced if there is one, else the one
  referenced longest ago.
\<close>

theorem lru_recency_order:
  assumes "lru_ok s" "lru_entries s \<noteq> []" "distinct (map e_fpn (lru_entries s))"
  shows "\<exists>s'. use_all update_LRU_lst ws s = ok s' \<and> lru_ok s' \<and>
           map e_fpn (lru_entries s') = lru_order (map e_fpn (lru_entries s)) (map PAGING_PTE_FPN ws)"
  using assms by (rule lru.use_all_order)

section \<open>Witnesses\<close>

text \<open>The empty list, and the list after two pages in frames 4 and 5 were added.\<close>

definition lru0 :: lru_state where
  "lru0 = \<lparr>lru_heap = (\<lambda>_. \<lparr>lru_next = None, lru_pre = None, pte = (0, 0), fpn = 0, pgn = 0\<rparr>),
     lru_head = None, lru_tail = None, lru_brk = 0\<rparr>"

lemma lru0_ok: "lru_ok lru0" "lru_entries lru0 = []"
  by (simp_all add: lru0_def lru_ok_def lru_nodes_def dll_def lru_entries_def)

lemma lru2_ex: "\<exists>s. lru_ok s \<and> map e_fpn (lru_entries s) = [4, 5]"
proof -
  obtain s1 where s1: "lru_ok s1" "lru_entries s1 = [\<lparr>e_pte = (1, 0), e_fpn = 4, e_pgn = 0\<rparr>]"
    using lru.add_ok [OF lru0_ok(1), of "(1, 0)" 4 0] by (auto simp: lru0_ok(2) PAGING_PTE_FPN_eq)
  then show ?thesis
    using lru.add_ok [OF s1(1), of "(1, 1)" 5 1] by (auto simp: PAGING_PTE_FPN_eq)
qed

theorem lru_refinement_witness:
  "\<exists>s'. add_LRU_page (1, 0) 4 0 lru0 = ok s' \<and> lru_entries s' = [\<lparr>e_pte = (1, 0), e_fpn = 4, e_pgn = 0\<rparr>]"
  using lru_refinement [OF lru0_ok(1), of "(1, 0)" 4 0] by (auto simp: lru0_ok(2) PAGING_PTE_FPN_eq)

theorem lru_recency_order_witness:
  "\<exists>s s'. map e_fpn (lru_entries s) = [4, 5] \<and> use_all update_LRU_lst [5, 4, 5] s = ok s' \<and>
          map e_fpn (lru_entries s') = [4, 5]"
proof -
  from lru2_ex obtain s where s: "lru_ok s \<and> map e_fpn (lru_entries s) = [4, 5]" ..
  then have "lru_entries s \<noteq> []" "distinct (map e_fpn (lru_entries s))"
    by (metis list.distinct(1) list.simps(8), simp)
  from lru_recency_order [OF conjunct1 [OF s] this, of "[5, 4, 5]"] obtain s' where
    "use_all update_LRU_lst [5, 4, 5] s = ok s'"
    "map e_fpn (lru_entries s') = lru_order [4, 5] (map PAGING_PTE_FPN [5, 4, 5])"
    using s by metis
  moreover have "lru_order [4, 5] (map PAGING_PTE_FPN [5, 4, 5]) = [4, 5]"
    by (simp add: lru_order_def PAGING_PTE_FPN_eq)
  ultimately show ?thesis using s by metis
qed

end
