(* ===== verification/Vma.thy ===== *)
theory Vma
  imports Bitops
begin

text \<open>
  Virtual memory areas and regions: the structures of \<open>include/os-mm.h\<close>, the list operations and
  \<open>init_mm\<close> of \<open>src/mm.c\<close>, and the region management of \<open>src/mm-vm.c\<close> (free region lists, the
  symbol table, the overlap check, the FIFO page list). Linked lists are lists in link order;
  nodes are changed in place by changing the list element. \<open>unsigned long\<close> fields hold values
  of \<open>u64\<close>; an \<open>int\<close> argument is converted with \<open>s32\<close> where the call converts it.
\<close>

section \<open>Structures\<close>

record vm_rg_struct =
  vmaid :: int
  rg_start :: int
  rg_end :: int

record vm_area_struct =
  vm_id :: int
  vm_start :: int
  vm_end :: int
  sbrk :: int
  vm_freerg_list :: "vm_rg_struct list"

record mm_struct =
  pgd :: "int \<Rightarrow> 32 word"
  mmap :: "vm_area_struct list"
  symrgtbl :: "int \<Rightarrow> vm_rg_struct"
  fifo_pgn :: "int list"

section \<open>Lists and initialisation (mm.c)\<close>

definition init_vm_rg :: "int \<Rightarrow> int \<Rightarrow> int \<Rightarrow> vm_rg_struct" where
  "init_vm_rg start end' vid = \<lparr>vmaid = vid, rg_start = u64 start, rg_end = u64 end'\<rparr>"

definition enlist_vm_rg_node :: "vm_rg_struct list \<Rightarrow> vm_rg_struct \<Rightarrow> vm_rg_struct list" where
  "enlist_vm_rg_node rglist rgnode = rgnode # rglist"

definition enlist_pgn_node :: "int list \<Rightarrow> int \<Rightarrow> int list" where
  "enlist_pgn_node plist p = p # plist"

text \<open>\<open>init_mm\<close>: \<open>mm\<close> is the uninitialised object, \<open>pgd0\<close> the content of the fresh page table, \<open>fr0\<close> and
  \<open>fr1\<close> what the unwritten \<open>vm_freerg_list\<close> fields of the two fresh areas lead to.\<close>

definition init_mm ::
  "(int \<Rightarrow> 32 word) \<Rightarrow> vm_rg_struct list \<Rightarrow> vm_rg_struct list \<Rightarrow> mm_struct \<Rightarrow> int \<Rightarrow> mm_struct" where
  "init_mm pgd0 fr0 fr1 mm vmemsz =
     (let vma0 = \<lparr>vm_id = 0, vm_start = 0, vm_end = 0, sbrk = 0,
                  vm_freerg_list = enlist_vm_rg_node fr0 (init_vm_rg (s32 0) (s32 0) 0)\<rparr>;
          start1 = u32 (vmemsz - 1);
          vma1 = \<lparr>vm_id = 1, vm_start = start1, vm_end = start1, sbrk = start1,
                  vm_freerg_list = enlist_vm_rg_node fr1 (init_vm_rg (s32 start1) (s32 start1) 1)\<rparr>
      in mm\<lparr>pgd := pgd0, mmap := [vma0, vma1]\<rparr>)"

text \<open>What the debugging printers print, item by item (\<open>None\<close> for the NULL list message).\<close>

definition print_list_fp :: "int list \<Rightarrow> int list option" where
  "print_list_fp fps = (if fps = [] then None else Some fps)"

definition print_list_rg :: "vm_rg_struct list \<Rightarrow> (int \<times> int \<times> int) list option" where
  "print_list_rg rgs =
     (if rgs = [] then None else Some (map (\<lambda>rg. (rg_start rg, rg_end rg, vmaid rg)) rgs))"

definition print_list_vma :: "vm_area_struct list \<Rightarrow> (int \<times> int) list option" where
  "print_list_vma vmas = (if vmas = [] then None else Some (map (\<lambda>v. (vm_start v, vm_end v)) vmas))"

definition print_list_pgn :: "int list \<Rightarrow> int list option" where
  "print_list_pgn ps = (if ps = [] then None else Some ps)"

section \<open>Areas and regions (mm-vm.c)\<close>

text \<open>The walk of \<open>get_vma_by_num\<close> along \<open>vm_next\<close>.\<close>

fun vma_walk :: "nat \<Rightarrow> vm_area_struct list \<Rightarrow> vm_area_struct option" where
  "vma_walk 0 vmas = (case vmas of [] \<Rightarrow> None | v # _ \<Rightarrow> Some v)"
| "vma_walk (Suc n) vmas = (case vmas of [] \<Rightarrow> None | _ # rest \<Rightarrow> vma_walk n rest)"

definition get_vma_by_num :: "mm_struct \<Rightarrow> int \<Rightarrow> vm_area_struct option" where
  "get_vma_by_num mm vid = (if mmap mm = [] then None else vma_walk (nat vid) (mmap mm))"

text \<open>Writing through the pointer that \<open>get_vma_by_num\<close> returned.\<close>

definition set_vma :: "mm_struct \<Rightarrow> int \<Rightarrow> vm_area_struct \<Rightarrow> mm_struct" where
  "set_vma mm vid v = mm\<lparr>mmap := (mmap mm)[nat vid := v]\<rparr>"

text \<open>\<open>get_symrg_byid\<close>: \<open>None\<close> is NULL; the entry behind the pointer exists only inside the table.\<close>

definition get_symrg_byid :: "mm_struct \<Rightarrow> int \<Rightarrow> int option" where
  "get_symrg_byid mm rgid = (if rgid < 0 \<or> rgid > PAGING_MAX_SYMTBL_SZ then None else Some rgid)"

definition symrg_at :: "mm_struct \<Rightarrow> int \<Rightarrow> vm_rg_struct res" where
  "symrg_at mm rgid = guardR (0 \<le> rgid \<and> rgid < PAGING_MAX_SYMTBL_SZ) OutOfBounds (ok (symrgtbl mm rgid))"

definition set_symrg :: "mm_struct \<Rightarrow> int \<Rightarrow> vm_rg_struct \<Rightarrow> mm_struct res" where
  "set_symrg mm rgid rg =
     guardR (0 \<le> rgid \<and> rgid < PAGING_MAX_SYMTBL_SZ) OutOfBounds
       (ok (mm\<lparr>symrgtbl := (symrgtbl mm)(rgid := rg)\<rparr>))"

definition enlist_vm_freerg_list :: "mm_struct \<Rightarrow> int \<Rightarrow> vm_rg_struct \<Rightarrow> (int \<times> mm_struct) res" where
  "enlist_vm_freerg_list mm vid rg =
     bindR (from_opt NullDeref (get_vma_by_num mm vid)) (\<lambda>cur_vma.
       if rg_start rg \<ge> rg_end rg \<and> vid = 0 \<or> rg_start rg \<le> rg_end rg \<and> vid = 1 then ok (- 1, mm)
       else ok (0, set_vma mm vid (cur_vma\<lparr>vm_freerg_list := rg # vm_freerg_list cur_vma\<rparr>)))"

text \<open>
  \<open>get_free_vmrg_area\<close>. The tests and updates of one free region for a request of \<open>size\<close> bytes: does
  it fit, which block is taken, is something left, and what is left. The stack area grows up, the
  heap area down.
\<close>

definition rg_fits :: "int \<Rightarrow> int \<Rightarrow> vm_rg_struct \<Rightarrow> bool" where
  "rg_fits vid sz rg =
     (if vid = 0 then u64 (rg_start rg + sz - 1) \<le> rg_end rg
      else u64 (rg_start rg - sz + 1) \<ge> rg_end rg)"

definition rg_block :: "int \<Rightarrow> int \<Rightarrow> vm_rg_struct \<Rightarrow> int \<times> int" where
  "rg_block vid sz rg =
     (rg_start rg, if vid = 0 then u64 (rg_start rg + sz - 1) else u64 (rg_start rg - sz + 1))"

definition rg_slack :: "int \<Rightarrow> int \<Rightarrow> vm_rg_struct \<Rightarrow> bool" where
  "rg_slack vid sz rg =
     (if vid = 0 then u64 (rg_start rg + sz - 1) < rg_end rg
      else u64 (rg_start rg - sz + 1) > rg_end rg)"

definition rg_left :: "int \<Rightarrow> int \<Rightarrow> vm_rg_struct \<Rightarrow> vm_rg_struct" where
  "rg_left vid sz rg =
     rg\<lparr>rg_start := (if vid = 0 then u64 (rg_start rg + sz) else u64 (rg_start rg - sz))\<rparr>"

text \<open>
  The loop. \<open>nr\<close> is \<open>newrg\<close>, \<open>bef\<close> the nodes already passed (last first), the list argument the
  current node and its successors. After a fit the loop stays on the same node: there is no
  \<open>break\<close>. A used-up node takes over its successor; the last one becomes the dummy region
  \<open>[rg_end, rg_end]\<close>.
\<close>

partial_function (option) free_scan ::
  "(vm_rg_struct \<Rightarrow> bool) \<Rightarrow> (vm_rg_struct \<Rightarrow> bool) \<Rightarrow> (vm_rg_struct \<Rightarrow> int \<times> int) \<Rightarrow>
   (vm_rg_struct \<Rightarrow> vm_rg_struct) \<Rightarrow> int \<times> int \<Rightarrow> vm_rg_struct list \<Rightarrow> vm_rg_struct list \<Rightarrow>
   ((int \<times> int) \<times> vm_rg_struct list) option" where
  "free_scan fits slack block left nr bef rgit =
     (case rgit of
        [] \<Rightarrow> Some (nr, rev bef)
      | rg # next \<Rightarrow>
          if fits rg then
            (if slack rg then free_scan fits slack block left (block rg) bef (left rg # next)
             else
               (case next of
                  nextrg # next' \<Rightarrow>
                    free_scan fits slack block left (block rg) bef
                      (rg\<lparr>rg_start := rg_start nextrg, rg_end := rg_end nextrg\<rparr> # next')
                | [] \<Rightarrow> free_scan fits slack block left (block rg) bef [rg\<lparr>rg_start := rg_end rg\<rparr>]))
          else free_scan fits slack block left nr (rg # bef) next)"

declare free_scan.simps [code]

text \<open>Result: the return value, \<open>newrg\<close>'s bounds and the memory map with the changed free list.\<close>

definition get_free_vmrg_area :: "mm_struct \<Rightarrow> int \<Rightarrow> int \<Rightarrow> (int \<times> (int \<times> int) \<times> mm_struct) res" where
  "get_free_vmrg_area mm vid sz =
     bindR (from_opt NullDeref (get_vma_by_num mm vid)) (\<lambda>cur_vma.
       if vm_freerg_list cur_vma = [] then ok (- 1, (0, 0), mm)
       else
         bindR (from_opt Diverges
                  (free_scan (rg_fits vid sz) (rg_slack vid sz) (rg_block vid sz) (rg_left vid sz)
                     (u64 (- 1), u64 (- 1)) [] (vm_freerg_list cur_vma))) (\<lambda>(nr, rgs).
           let mm = set_vma mm vid (cur_vma\<lparr>vm_freerg_list := rgs\<rparr>)
           in ok (if fst nr = u64 (- 1) then - 1 else 0, nr, mm)))"

definition get_vm_area_node_at_brk :: "mm_struct \<Rightarrow> int \<Rightarrow> int \<Rightarrow> (int \<times> int) res" where
  "get_vm_area_node_at_brk mm vid sz =
     bindR (from_opt NullDeref (get_vma_by_num mm vid)) (\<lambda>cur_vma.
       ok (sbrk cur_vma, if vid = 0 then u64 (sbrk cur_vma + sz) else u64 (sbrk cur_vma - sz)))"

text \<open>\<open>validate_overlap_vm_area\<close>: the product of two differences is computed in \<open>int\<close>.\<close>

fun overlap_loop :: "int \<Rightarrow> int \<Rightarrow> int \<Rightarrow> vm_area_struct list \<Rightarrow> int" where
  "overlap_loop vid vmastart vmaend [] = 0"
| "overlap_loop vid vmastart vmaend (vma # rest) =
     (if u64 vid = vm_id vma then overlap_loop vid vmastart vmaend rest
      else if vm_start vma = vm_end vma then overlap_loop vid vmastart vmaend rest
      else if s32 (s32 (s32 (vm_start vma) - vmastart) * s32 (vmaend - s32 (vm_end vma))) \<ge> 0 \<and>
              u64 vmaend \<noteq> vm_end vma
           then - 1
           else overlap_loop vid vmastart vmaend rest)"

definition validate_overlap_vm_area :: "mm_struct \<Rightarrow> int \<Rightarrow> int \<Rightarrow> int \<Rightarrow> int" where
  "validate_overlap_vm_area mm vid vmastart vmaend = overlap_loop vid vmastart vmaend (mmap mm)"

text \<open>\<open>find_victim_page\<close>: the FIFO policy removes the last node of the list, the one enlisted first.\<close>

fun pop_last :: "int \<Rightarrow> int list \<Rightarrow> int \<times> int list" where
  "pop_last pg [] = (pg, [])"
| "pop_last pg (p # ps) = (case pop_last p ps of (v, rest) \<Rightarrow> (v, pg # rest))"

definition find_victim_page :: "mm_struct \<Rightarrow> int \<times> int option \<times> mm_struct" where
  "find_victim_page mm =
     (case fifo_pgn mm of
        [] \<Rightarrow> (- 1, None, mm)
      | [pg] \<Rightarrow> (0, Some pg, mm\<lparr>fifo_pgn := []\<rparr>)
      | pg # ps \<Rightarrow> (case pop_last pg ps of (v, rest) \<Rightarrow> (0, Some v, mm\<lparr>fifo_pgn := rest\<rparr>)))"

section \<open>Free region lists: the contract of one growth direction\<close>

text \<open>Lists whose elements cover disjoint sets.\<close>

fun disjoint_by :: "('a \<Rightarrow> 'b set) \<Rightarrow> 'a list \<Rightarrow> bool" where
  "disjoint_by f [] = True"
| "disjoint_by f (x # xs) = (f x \<inter> \<Union> (f ` set xs) = {} \<and> disjoint_by f xs)"

lemma disjoint_by_append:
  "disjoint_by f (xs @ ys) \<longleftrightarrow>
     disjoint_by f xs \<and> disjoint_by f ys \<and> \<Union> (f ` set xs) \<inter> \<Union> (f ` set ys) = {}"
  by (induction xs) auto

text \<open>
  The two growth directions share one contract. \<open>bytes\<close> are the free bytes a region stands for (none
  for the dummy \<open>[e, e]\<close>), \<open>blk\<close> those of an allocated block, \<open>weight\<close> bounds how often a region can
  be carved, \<open>good\<close> describes a valid block.
\<close>

locale region_dir =
  fixes fits slack :: "vm_rg_struct \<Rightarrow> bool"
    and block :: "vm_rg_struct \<Rightarrow> int \<times> int"
    and left :: "vm_rg_struct \<Rightarrow> vm_rg_struct"
    and bytes :: "vm_rg_struct \<Rightarrow> int set"
    and blk :: "int \<times> int \<Rightarrow> int set"
    and good :: "int \<times> int \<Rightarrow> bool"
    and wf :: "vm_rg_struct \<Rightarrow> bool"
    and weight :: "vm_rg_struct \<Rightarrow> nat"
  assumes block_free: "wf rg \<Longrightarrow> fits rg \<Longrightarrow> blk (block rg) \<subseteq> bytes rg \<and> good (block rg)"
    and left_ok: "wf rg \<Longrightarrow> fits rg \<Longrightarrow> slack rg \<Longrightarrow>
      wf (left rg) \<and> bytes (left rg) \<subseteq> bytes rg - blk (block rg) \<and> weight (left rg) < weight rg"
    and take_over: "wf rg \<Longrightarrow> wf n \<Longrightarrow> rg' = rg\<lparr>rg_start := rg_start n, rg_end := rg_end n\<rparr> \<Longrightarrow>
      wf rg' \<and> bytes rg' = bytes n \<and> weight rg' = weight n"
    and dummy: "wf rg \<Longrightarrow> fits rg \<Longrightarrow> rg' = rg\<lparr>rg_start := rg_end rg\<rparr> \<Longrightarrow>
      wf rg' \<and> bytes rg' = {} \<and> weight rg' < weight rg"
begin

abbreviation scan :: "int \<times> int \<Rightarrow> vm_rg_struct list \<Rightarrow> vm_rg_struct list \<Rightarrow> ((int \<times> int) \<times> vm_rg_struct list) option" where
  "scan \<equiv> free_scan fits slack block left"

abbreviation free_bytes :: "vm_rg_struct list \<Rightarrow> int set" where
  "free_bytes rgs \<equiv> \<Union> (bytes ` set rgs)"

text \<open>What the loop promises from a state in the middle of the list.\<close>

definition scanned :: "int \<times> int \<Rightarrow> vm_rg_struct list \<Rightarrow> vm_rg_struct list \<Rightarrow> int \<times> int \<Rightarrow> vm_rg_struct list \<Rightarrow> bool" where
  "scanned nr bef rest nr' rgs \<longleftrightarrow>
     (\<forall>rg \<in> set rgs. wf rg) \<and> disjoint_by bytes rgs \<and> free_bytes rgs \<subseteq> free_bytes (bef @ rest) \<and>
     (if \<exists>rg \<in> set rest. fits rg
      then good nr' \<and> blk nr' \<subseteq> free_bytes rest \<and> blk nr' \<inter> free_bytes rgs = {}
      else nr' = nr \<and> rgs = rev bef @ rest)"

lemma scanned_fitI:
  assumes "\<forall>rg \<in> set rgs. wf rg" "disjoint_by bytes rgs" "free_bytes rgs \<subseteq> free_bytes (bef @ rest)"
    "\<exists>rg \<in> set rest. fits rg" "good nr'" "blk nr' \<subseteq> free_bytes rest" "blk nr' \<inter> free_bytes rgs = {}"
  shows "scanned nr bef rest nr' rgs"
  unfolding scanned_def using assms(1-3,5-) by (simp only: if_P [OF assms(4)])

lemma scannedD:
  assumes "scanned nr bef rest nr' rgs"
  shows "\<forall>rg \<in> set rgs. wf rg" "disjoint_by bytes rgs" "free_bytes rgs \<subseteq> free_bytes (bef @ rest)"
    "\<exists>rg \<in> set rest. fits rg \<Longrightarrow> good nr' \<and> blk nr' \<subseteq> free_bytes rest \<and> blk nr' \<inter> free_bytes rgs = {}"
    "\<not> (\<exists>rg \<in> set rest. fits rg) \<Longrightarrow> nr' = nr \<and> rgs = rev bef @ rest"
  by (insert assms [unfolded scanned_def], blast, blast, blast) (simp_all only: if_P if_not_P if_False)

lemma scanned_after_fit:
  assumes s: "scanned (block rg) bef rest1 nr' rgs" and rg: "wf rg" "fits rg"
    and sub: "free_bytes rest1 \<subseteq> free_bytes (rg # nxt)" and disj: "blk (block rg) \<inter> free_bytes (bef @ rest1) = {}"
  shows "scanned nr bef (rg # nxt) nr' rgs"
proof (rule scanned_fitI)
  note sD = scannedD [OF s]
  have b: "blk (block rg) \<subseteq> bytes rg" "good (block rg)" using block_free rg by auto
  show "\<forall>rg \<in> set rgs. wf rg" "disjoint_by bytes rgs" by (rule sD)+
  show "free_bytes rgs \<subseteq> free_bytes (bef @ rg # nxt)" using sD(3) sub by (rule_tac subset_trans) auto
  show "\<exists>r \<in> set (rg # nxt). fits r" using rg by simp
  have "good nr' \<and> blk nr' \<subseteq> free_bytes (rg # nxt) \<and> blk nr' \<inter> free_bytes rgs = {}"
  proof (cases "\<exists>r \<in> set rest1. fits r")
    case True
    from sD(4) [OF True] sub show ?thesis by (meson subset_trans)
  next
    case False
    from sD(5) [OF False] have e: "nr' = block rg" "rgs = rev bef @ rest1" by auto
    have "free_bytes rgs = free_bytes (bef @ rest1)" by (simp add: e)
    with disj e b show ?thesis by simp (meson le_supI1)
  qed
  then show "good nr'" "blk nr' \<subseteq> free_bytes (rg # nxt)" "blk nr' \<inter> free_bytes rgs = {}" by auto
qed

lemma scanned_pass:
  assumes s: "scanned nr (rg # bef) nxt nr' rgs" and rg: "\<not> fits rg"
  shows "scanned nr bef (rg # nxt) nr' rgs"
proof (cases "\<exists>r \<in> set nxt. fits r")
  case True
  note sD = scannedD [OF s]
  from sD(4) [OF True] have q: "good nr'" "blk nr' \<subseteq> free_bytes nxt" "blk nr' \<inter> free_bytes rgs = {}" by auto
  show ?thesis
  proof (rule scanned_fitI)
    show "free_bytes rgs \<subseteq> free_bytes (bef @ rg # nxt)" using sD(3) by (simp add: Un_ac)
    show "blk nr' \<subseteq> free_bytes (rg # nxt)" using q(2) by (simp add: le_supI2)
  qed (use sD(1,2) True q in auto)
next
  case False
  note sD = scannedD [OF s]
  from sD(5) [OF False] sD(1-3) rg False show ?thesis unfolding scanned_def by (auto simp: Un_ac)
qed

lemma scan_total:
  assumes "\<forall>rg \<in> set (bef @ rest). wf rg" "disjoint_by bytes (rev bef @ rest)"
  shows "\<exists>nr' rgs. scan nr bef rest = Some (nr', rgs) \<and> scanned nr bef rest nr' rgs"
  using assms
proof (induction "sum_list (map weight rest) + length rest" arbitrary: nr bef rest rule: less_induct)
  case less
  show ?case
  proof (cases rest)
    case Nil
    then have "scan nr bef rest = Some (nr, rev bef)" by (subst free_scan.simps) simp
    with Nil less.prems show ?thesis by (simp add: scanned_def)
  next
    case rest: (Cons rg nxt)
    have w: "wf rg" "\<forall>r \<in> set (bef @ nxt). wf r" using less.prems(1) rest by auto
    have d: "disjoint_by bytes (rev bef @ nxt)" "bytes rg \<inter> free_bytes (bef @ nxt) = {}"
      using less.prems(2) rest by (auto simp: disjoint_by_append)
    show ?thesis
    proof (cases "fits rg")
      case False
      then have e: "scan nr bef rest = scan nr (rg # bef) nxt" using rest by (subst free_scan.simps) simp
      have "\<exists>nr' rgs. scan nr (rg # bef) nxt = Some (nr', rgs) \<and> scanned nr (rg # bef) nxt nr' rgs"
        using less.prems rest by (intro less.hyps) auto
      then obtain nr' rgs where q: "scan nr (rg # bef) nxt = Some (nr', rgs)" "scanned nr (rg # bef) nxt nr' rgs"
        by metis
      from e q(1) scanned_pass [OF q(2) False] show ?thesis unfolding rest by (intro exI conjI) auto
    next
      case True
      have b: "blk (block rg) \<subseteq> bytes rg" using block_free [OF w(1) True] by simp
      have step: ?thesis if "scan nr bef rest = scan (block rg) bef rest1"
        "sum_list (map weight rest1) + length rest1 < sum_list (map weight rest) + length rest"
        "\<forall>r \<in> set rest1. wf r" "disjoint_by bytes (rev bef @ rest1)"
        "free_bytes rest1 \<subseteq> free_bytes rest" "blk (block rg) \<inter> free_bytes (bef @ rest1) = {}" for rest1
      proof -
        have "\<exists>nr' rgs. scan (block rg) bef rest1 = Some (nr', rgs) \<and> scanned (block rg) bef rest1 nr' rgs"
          using that w(2) by (intro less.hyps) auto
        then obtain nr' rgs where "scan (block rg) bef rest1 = Some (nr', rgs)" "scanned (block rg) bef rest1 nr' rgs"
          by blast
        moreover from this(2) w(1) True that(5,6) have "scanned nr bef rest nr' rgs"
          unfolding rest by (rule scanned_after_fit)
        ultimately show ?thesis using that(1) by simp
      qed
      show ?thesis
      proof (cases "slack rg")
        case slack: True
        have l: "wf (left rg)" "bytes (left rg) \<subseteq> bytes rg - blk (block rg)" "weight (left rg) < weight rg"
          using left_ok [OF w(1) True slack] by auto
        show ?thesis
        proof (rule step)
          show "scan nr bef rest = scan (block rg) bef (left rg # nxt)"
            using rest True slack by (subst free_scan.simps) simp
          show "disjoint_by bytes (rev bef @ left rg # nxt)"
            using d l(2) by (auto simp: disjoint_by_append)
        qed (use rest w l b d in auto)
      next
        case no_slack: False
        show ?thesis
        proof (cases nxt)
          case Nil
          have l: "wf (rg\<lparr>rg_start := rg_end rg\<rparr>)" "bytes (rg\<lparr>rg_start := rg_end rg\<rparr>) = {}"
            "weight (rg\<lparr>rg_start := rg_end rg\<rparr>) < weight rg" using dummy [OF w(1) True refl] by auto
          show ?thesis
          proof (rule step)
            show "scan nr bef rest = scan (block rg) bef [rg\<lparr>rg_start := rg_end rg\<rparr>]"
              using rest True no_slack Nil by (subst free_scan.simps) simp
            show "disjoint_by bytes (rev bef @ [rg\<lparr>rg_start := rg_end rg\<rparr>])"
              using d l(2) Nil by (simp add: disjoint_by_append)
          qed (use rest w l b d Nil in auto)
        next
          case (Cons n nxt2)
          let ?rg = "rg\<lparr>rg_start := rg_start n, rg_end := rg_end n\<rparr>"
          have "wf n" using w(2) Cons by simp
          from take_over [OF w(1) this refl] have l: "wf ?rg" "bytes ?rg = bytes n" "weight ?rg = weight n" by auto
          show ?thesis
          proof (rule step)
            show "scan nr bef rest = scan (block rg) bef (?rg # nxt2)"
              using rest True no_slack Cons by (subst free_scan.simps) simp
            show "disjoint_by bytes (rev bef @ ?rg # nxt2)"
              using d l(2) Cons by (simp add: disjoint_by_append)
          qed (use rest w l b d Cons in auto)
        qed
      qed
    qed
  qed
qed

end

section \<open>The two growth directions\<close>

text \<open>The bytes a free region stands for, and the bytes of an allocated block.\<close>

definition rg_bytes :: "int \<Rightarrow> vm_rg_struct \<Rightarrow> int set" where
  "rg_bytes vid rg =
     (if rg_start rg = rg_end rg then {}
      else if vid = 0 then {rg_start rg..rg_end rg} else {rg_end rg..rg_start rg})"

definition blk_bytes :: "int \<Rightarrow> int \<times> int \<Rightarrow> int set" where
  "blk_bytes vid nr = (if vid = 0 then {fst nr..snd nr} else {snd nr..fst nr})"

definition blk_exact :: "int \<Rightarrow> int \<Rightarrow> int \<times> int \<Rightarrow> bool" where
  "blk_exact vid sz nr \<longleftrightarrow> snd nr = (if vid = 0 then fst nr + sz - 1 else fst nr - sz + 1) \<and> 0 \<le> fst nr \<and> fst nr < 9223372036854775808"

text \<open>
  Regions on which the tests of the loop mean what they say: oriented the way the area grows, at
  least two bytes asked for and, in the heap, no region that ends below the size asked for.
\<close>

definition rg_ok :: "int \<Rightarrow> int \<Rightarrow> vm_rg_struct \<Rightarrow> bool" where
  "rg_ok vid sz rg \<longleftrightarrow> 2 \<le> sz \<and> sz < 2147483648 \<and>
     (if vid = 0 then 0 \<le> rg_start rg \<and> rg_start rg \<le> rg_end rg \<and> rg_end rg < 9223372036854775808
      else sz \<le> rg_end rg + 1 \<and> rg_end rg \<le> rg_start rg \<and> rg_start rg < 9223372036854775808)"

definition rg_weight :: "vm_rg_struct \<Rightarrow> nat" where
  "rg_weight rg = nat \<bar>rg_end rg - rg_start rg\<bar>"

lemmas rg_defs = rg_fits_def rg_slack_def rg_block_def rg_left_def rg_bytes_def blk_bytes_def
  blk_exact_def rg_ok_def rg_weight_def

interpretation up: region_dir "rg_fits 0 sz" "rg_slack 0 sz" "rg_block 0 sz" "rg_left 0 sz"
  "rg_bytes 0" "blk_bytes 0" "blk_exact 0 sz" "rg_ok 0 sz" rg_weight for sz
  by unfold_locales (auto simp: rg_defs c_conv split: if_splits)

interpretation down: region_dir "rg_fits 1 sz" "rg_slack 1 sz" "rg_block 1 sz" "rg_left 1 sz"
  "rg_bytes 1" "blk_bytes 1" "blk_exact 1 sz" "rg_ok 1 sz" rg_weight for sz
  by unfold_locales (auto simp: rg_defs c_conv split: if_splits)

section \<open>Areas of a memory map\<close>

lemma vma_walk_eq: "vma_walk n vmas = (if n < length vmas then Some (vmas ! n) else None)"
  by (induction n vmas rule: vma_walk.induct) (auto split: list.splits)

lemma get_vma_by_num_eq:
  "get_vma_by_num mm vid = (if nat vid < length (mmap mm) then Some (mmap mm ! nat vid) else None)"
  by (auto simp: get_vma_by_num_def vma_walk_eq)

lemma set_vma_same: "get_vma_by_num mm vid = Some v \<Longrightarrow> set_vma mm vid v = mm"
  by (auto simp: get_vma_by_num_eq set_vma_def split: if_splits)

lemma get_set_vma: "get_vma_by_num mm vid = Some v \<Longrightarrow> get_vma_by_num (set_vma mm vid w) vid = Some w"
  by (auto simp: get_vma_by_num_eq set_vma_def split: if_splits)

lemma get_set_vma_other:
  "nat vid \<noteq> nat vid' \<Longrightarrow> get_vma_by_num (set_vma mm vid w) vid' = get_vma_by_num mm vid'"
  by (auto simp: get_vma_by_num_eq set_vma_def)

lemma set_vma_fields [simp]:
  "pgd (set_vma mm vid v) = pgd mm" "symrgtbl (set_vma mm vid v) = symrgtbl mm"
  "fifo_pgn (set_vma mm vid v) = fifo_pgn mm" "length (mmap (set_vma mm vid v)) = length (mmap mm)"
  by (simp_all add: set_vma_def)

section \<open>The search for a free region\<close>

abbreviation free_space :: "int \<Rightarrow> vm_rg_struct list \<Rightarrow> int set" where
  "free_space vid rgs \<equiv> \<Union> (rg_bytes vid ` set rgs)"

definition free_list_ok :: "int \<Rightarrow> int \<Rightarrow> vm_rg_struct list \<Rightarrow> bool" where
  "free_list_ok vid sz rgs \<longleftrightarrow> (\<forall>rg \<in> set rgs. rg_ok vid sz rg) \<and> disjoint_by (rg_bytes vid) rgs"

lemma rg_fits_iff: "rg_ok vid sz rg \<Longrightarrow> rg_fits vid sz rg \<longleftrightarrow> sz \<le> \<bar>rg_end rg - rg_start rg\<bar> + 1"
  by (auto simp: rg_defs c_conv split: if_splits)

abbreviation area_scan ::
  "int \<Rightarrow> int \<Rightarrow> int \<times> int \<Rightarrow> vm_rg_struct list \<Rightarrow> vm_rg_struct list \<Rightarrow> ((int \<times> int) \<times> vm_rg_struct list) option" where
  "area_scan vid sz \<equiv> free_scan (rg_fits vid sz) (rg_slack vid sz) (rg_block vid sz) (rg_left vid sz)"

text \<open>The contract of both directions, from the two interpretations.\<close>

lemma area_scan_total:
  assumes "vid = 0 \<or> vid = 1" "free_list_ok vid sz rgs"
  shows "\<exists>nr rgs'. area_scan vid sz nr0 [] rgs = Some (nr, rgs') \<and>
    free_list_ok vid sz rgs' \<and> free_space vid rgs' \<subseteq> free_space vid rgs \<and>
    (if \<exists>rg \<in> set rgs. rg_fits vid sz rg
     then blk_exact vid sz nr \<and> blk_bytes vid nr \<subseteq> free_space vid rgs \<and>
          blk_bytes vid nr \<inter> free_space vid rgs' = {}
     else nr = nr0 \<and> rgs' = rgs)"
  using assms(1)
proof
  assume "vid = 0"
  with assms(2) up.scan_total [of "[]" rgs sz nr0] show ?thesis
    unfolding free_list_ok_def up.scanned_def by (simp only: append_Nil rev.simps) blast
next
  assume "vid = 1"
  with assms(2) down.scan_total [of "[]" rgs sz nr0] show ?thesis
    unfolding free_list_ok_def down.scanned_def by (simp only: append_Nil rev.simps) blast
qed

text \<open>A found block never starts at the probe value \<open>-1\<close>.\<close>

lemma blk_exact_found: "blk_exact vid sz nr \<Longrightarrow> fst nr \<noteq> u64 (- 1)"
  by (auto simp: blk_exact_def u64_def)

text \<open>
  C20. The search for a free region returns on every list of well-oriented disjoint free regions
  (requests of at least two bytes, heap regions not below the request). If some region is large
  enough it returns 0 with a block of exactly the requested size, made of bytes that were free and
  are no longer free, and the list stays well-formed and disjoint; otherwise it returns -1 and
  changes nothing.
\<close>

theorem get_free_vmrg_area_spec:
  assumes "vid = 0 \<or> vid = 1" "get_vma_by_num mm vid = Some v" "free_list_ok vid sz (vm_freerg_list v)"
  shows "\<exists>ret nr rgs.
    get_free_vmrg_area mm vid sz = ok (ret, nr, set_vma mm vid (v\<lparr>vm_freerg_list := rgs\<rparr>)) \<and>
    free_list_ok vid sz rgs \<and> free_space vid rgs \<subseteq> free_space vid (vm_freerg_list v) \<and>
    (if \<exists>rg \<in> set (vm_freerg_list v). sz \<le> \<bar>rg_end rg - rg_start rg\<bar> + 1
     then ret = 0 \<and> blk_exact vid sz nr \<and> blk_bytes vid nr \<subseteq> free_space vid (vm_freerg_list v) \<and>
          blk_bytes vid nr \<inter> free_space vid rgs = {}
     else ret = - 1 \<and> rgs = vm_freerg_list v)"
proof (cases "vm_freerg_list v = []")
  case True
  then have "v\<lparr>vm_freerg_list := []\<rparr> = v" by simp
  with True assms show ?thesis
    by (intro exI [of _ "- 1"] exI [of _ "(0, 0)"] exI [of _ "[]"])
      (simp add: get_free_vmrg_area_def set_vma_same free_list_ok_def)
next
  case False
  have fits: "(\<exists>rg \<in> set (vm_freerg_list v). sz \<le> \<bar>rg_end rg - rg_start rg\<bar> + 1) \<longleftrightarrow>
      (\<exists>rg \<in> set (vm_freerg_list v). rg_fits vid sz rg)"
    using assms(3) unfolding free_list_ok_def by (metis rg_fits_iff)
  obtain nr rgs where r: "area_scan vid sz (u64 (- 1), u64 (- 1)) [] (vm_freerg_list v) = Some (nr, rgs)"
    "free_list_ok vid sz rgs" "free_space vid rgs \<subseteq> free_space vid (vm_freerg_list v)"
    "if \<exists>rg \<in> set (vm_freerg_list v). rg_fits vid sz rg
     then blk_exact vid sz nr \<and> blk_bytes vid nr \<subseteq> free_space vid (vm_freerg_list v) \<and>
          blk_bytes vid nr \<inter> free_space vid rgs = {}
     else nr = (u64 (- 1), u64 (- 1)) \<and> rgs = vm_freerg_list v"
    using area_scan_total [OF assms(1,3)] by metis
  have e: "get_free_vmrg_area mm vid sz =
      ok (if fst nr = u64 (- 1) then - 1 else 0, nr, set_vma mm vid (v\<lparr>vm_freerg_list := rgs\<rparr>))"
    using assms(2) False r(1) by (simp add: get_free_vmrg_area_def)
  show ?thesis
  proof (cases "\<exists>rg \<in> set (vm_freerg_list v). rg_fits vid sz rg")
    case True
    with r(4) have b: "blk_exact vid sz nr" "blk_bytes vid nr \<subseteq> free_space vid (vm_freerg_list v)"
      "blk_bytes vid nr \<inter> free_space vid rgs = {}" by auto
    with e blk_exact_found [OF b(1)] r(2,3) True show ?thesis
      unfolding fits if_P [OF True] by (intro exI conjI) simp_all
  next
    case False
    with r(4) have "nr = (u64 (- 1), u64 (- 1))" "rgs = vm_freerg_list v" by auto
    with e r(2,3) show ?thesis unfolding fits if_not_P [OF False] by (intro exI conjI) simp_all
  qed
qed

lemmas free_scan_induct = free_scan.raw_induct [rotated, consumes 1, case_names step]

text \<open>The loop only leaves a region that does not fit, so no region fits when it ends.\<close>

lemma free_scan_exhausts:
  assumes "free_scan fits slack block left nr bef rest = Some r" "\<forall>rg \<in> set bef. \<not> fits rg"
  shows "\<forall>rg \<in> set (snd r). \<not> fits rg"
  using assms
proof (induction rule: free_scan_induct)
  case (step scan fits slack block left nr bef rest r)
  show ?case
  proof (cases rest)
    case Nil
    with step show ?thesis by auto
  next
    case (Cons rg nxt)
    show ?thesis
    proof (cases "fits rg")
      case True
      with step(2) Cons obtain rest1 where "scan fits slack block left (block rg) bef rest1 = Some r"
        by (auto split: if_splits list.splits)
      from step(1) [OF this step(3)] show ?thesis .
    next
      case False
      with step(2) Cons have "scan fits slack block left nr (rg # bef) nxt = Some r" by simp
      from step(1) [OF this] step(3) False show ?thesis by simp
    qed
  qed
qed

text \<open>
  There is no \<open>break\<close> after a fit, so the search uses up more than it returns: when it ends,
  no free region of the area can hold another block of the same size, however many it could hold
  before.
\<close>

theorem get_free_vmrg_area_exhausts:
  assumes "get_free_vmrg_area mm vid sz = ok (ret, nr, mm')" "get_vma_by_num mm' vid = Some v'"
  shows "\<forall>rg \<in> set (vm_freerg_list v'). \<not> rg_fits vid sz rg"
proof -
  from assms(1) obtain v where v: "get_vma_by_num mm vid = Some v" by (auto simp: get_free_vmrg_area_def)
  show ?thesis
  proof (cases "vm_freerg_list v = []")
    case True
    with assms v show ?thesis by (simp add: get_free_vmrg_area_def)
  next
    case False
    with assms v obtain nr' rgs where
      s: "area_scan vid sz (u64 (- 1), u64 (- 1)) [] (vm_freerg_list v) = Some (nr', rgs)"
      and m: "mm' = set_vma mm vid (v\<lparr>vm_freerg_list := rgs\<rparr>)"
      by (auto simp: get_free_vmrg_area_def Let_def)
    from assms(2) m get_set_vma [OF v] have "vm_freerg_list v' = rgs" by auto
    with free_scan_exhausts [OF s] show ?thesis by simp
  qed
qed

text \<open>Oriented regions: every one holds at least one byte.\<close>

definition rg_oriented :: "int \<Rightarrow> vm_rg_struct \<Rightarrow> bool" where
  "rg_oriented vid rg \<longleftrightarrow>
     (if vid = 0 then 0 \<le> rg_start rg \<and> rg_start rg \<le> rg_end rg \<and> rg_end rg < 9223372036854775808
      else 0 \<le> rg_end rg \<and> rg_end rg \<le> rg_start rg \<and> rg_start rg < 9223372036854775808)"

lemma rg_oriented_size1:
  assumes "rg_oriented vid rg"
  shows "rg_fits vid 1 rg" "rg_slack vid 1 rg \<Longrightarrow> rg_oriented vid (rg_left vid 1 rg)"
    "rg_oriented vid (rg\<lparr>rg_start := rg_end rg\<rparr>)"
    "rg_oriented vid n \<Longrightarrow> rg_oriented vid (rg\<lparr>rg_start := rg_start n, rg_end := rg_end n\<rparr>)"
  using assms by (auto simp: rg_oriented_def rg_defs c_conv split: if_splits)

lemma free_scan_stuck:
  assumes "free_scan fits slack block left nr bef rest = Some r"
    and "fits = rg_fits vid 1" "slack = rg_slack vid 1" "left = rg_left vid 1"
    and "\<forall>rg \<in> set rest. rg_oriented vid rg"
  shows "rest = []"
  using assms
proof (induction rule: free_scan_induct)
  case (step scan fits slack block left nr bef rest r)
  show ?case
  proof (cases rest)
    case (Cons rg nxt)
    with step(6) have o: "rg_oriented vid rg" "\<forall>r \<in> set nxt. rg_oriented vid r" by auto
    note o1 = rg_oriented_size1 [OF o(1)]
    show ?thesis
    proof (cases "slack rg")
      case True
      with step(2-4) Cons o1(1) have "scan fits slack block left (block rg) bef (left rg # nxt) = Some r" by simp
      from step(1) [OF this step(3-5)] True step(4,5) o o1(2) show ?thesis by simp
    next
      case no_slack: False
      show ?thesis
      proof (cases nxt)
        case Nil
        with step(2-4) no_slack Cons o1(1)
        have "scan fits slack block left (block rg) bef [rg\<lparr>rg_start := rg_end rg\<rparr>] = Some r" by simp
        from step(1) [OF this step(3-5)] o1(3) show ?thesis by simp
      next
        case n: (Cons n nxt2)
        with step(2-4) no_slack Cons o1(1)
        have "scan fits slack block left (block rg) bef (rg\<lparr>rg_start := rg_start n, rg_end := rg_end n\<rparr> # nxt2) = Some r"
          by simp
        from step(1) [OF this step(3-5)] o1(4) [of n] o(2) n show ?thesis by simp
      qed
    qed
  qed simp
qed

lemma area_scan_size1_diverges:
  assumes "rest \<noteq> []" "\<forall>rg \<in> set rest. rg_oriented vid rg"
  shows "area_scan vid 1 nr bef rest = None"
  using assms free_scan_stuck [OF _ refl refl refl] by (cases "area_scan vid 1 nr bef rest") auto

text \<open>
  C40. A request of one byte never returns: every oriented region fits one byte, also the dummy
  left behind, so the loop stays on one node for ever. The free list of an area is never empty
  after \<open>init_mm\<close>, so this is every one-byte allocation.
\<close>

theorem get_free_vmrg_area_size1_hangs:
  assumes "get_vma_by_num mm vid = Some v" "vm_freerg_list v \<noteq> []"
    "\<forall>rg \<in> set (vm_freerg_list v). rg_oriented vid rg"
  shows "get_free_vmrg_area mm vid 1 = Inl Diverges"
  using assms area_scan_size1_diverges by (simp add: get_free_vmrg_area_def)

section \<open>Overlap of areas\<close>

lemma s32_product:
  assumes "\<bar>a\<bar> < 46341" "\<bar>b\<bar> < 46341"
  shows "s32 (a * b) = a * b"
proof -
  have "\<bar>a * b\<bar> \<le> 46340 * 46340" unfolding abs_mult using assms by (intro mult_mono) auto
  then show ?thesis by (intro s32_id) auto
qed

lemma overlap_below:
  assumes "mmap mm = [stk, heap]" "vm_id stk = 0" "vm_id heap = 1"
    and "0 \<le> vm_start stk" "vm_start stk \<le> vm_end stk" "0 \<le> vm_end heap" "vm_end heap \<le> vm_start heap"
    and "vm_start heap < 46341" "vm_end stk < 46341"
  shows "vm_end heap < vm_start heap \<Longrightarrow> 0 \<le> s \<Longrightarrow> s < vm_start heap \<Longrightarrow> s \<le> e \<Longrightarrow> e < 46341 \<Longrightarrow>
      validate_overlap_vm_area mm 0 s e = (if vm_end heap < e then - 1 else 0)"
    and "vm_start stk < vm_end stk \<Longrightarrow> s < 46341 \<Longrightarrow> vm_start stk < s \<Longrightarrow> 0 \<le> e \<Longrightarrow> e \<le> s \<Longrightarrow>
      validate_overlap_vm_area mm 1 s e = (if e < vm_end stk then - 1 else 0)"
  using assms by (auto simp: validate_overlap_vm_area_def c_conv s32_product zero_le_mult_iff)

text \<open>
  C39. With both areas below 46341 (where the product in the test stays an \<open>int\<close>), a request at
  the break of one area is refused exactly when it crosses the end of the other, non-empty one:
  the stack may grow to the heap's end and not beyond, the heap down to the stack's end and not
  below.
\<close>

theorem overlap_check_exact:
  assumes "mmap mm = [stk, heap]" "vm_id stk = 0" "vm_id heap = 1"
    and "0 \<le> vm_start stk" "vm_start stk \<le> vm_end stk" "0 \<le> vm_end heap" "vm_end heap \<le> vm_start heap"
    and "vm_start heap < 46341" "vm_end stk < 46341"
  shows "(vm_end heap < vm_start heap \<and> 0 \<le> s \<and> s < vm_start heap \<and> s \<le> e \<and> e < 46341 \<longrightarrow>
      validate_overlap_vm_area mm 0 s e = (if vm_end heap < e then - 1 else 0)) \<and>
    (vm_start stk < vm_end stk \<and> s < 46341 \<and> vm_start stk < s \<and> 0 \<le> e \<and> e \<le> s \<longrightarrow>
      validate_overlap_vm_area mm 1 s e = (if e < vm_end stk then - 1 else 0))"
  using overlap_below [OF assms] by blast

text \<open>
  Beyond that bound the product overflows and the check errs both ways, in an address space of 3145728
  bytes: with one page of heap the first 256 bytes of stack are refused, and with four pages a stack that
  runs 700 bytes into the heap is accepted.
\<close>

theorem overlap_check_overflow:
  "validate_overlap_vm_area (mm\<lparr>mmap :=
      [\<lparr>vm_id = 0, vm_start = 0, vm_end = 0, sbrk = 0, vm_freerg_list = f0\<rparr>,
       \<lparr>vm_id = 1, vm_start = 3145727, vm_end = 3145472, sbrk = b1, vm_freerg_list = f1\<rparr>]\<rparr>) 0 0 256 = - 1"
    "validate_overlap_vm_area (mm\<lparr>mmap :=
      [\<lparr>vm_id = 0, vm_start = 0, vm_end = 0, sbrk = 0, vm_freerg_list = f0\<rparr>,
       \<lparr>vm_id = 1, vm_start = 3145727, vm_end = 3144704, sbrk = b1, vm_freerg_list = f1\<rparr>]\<rparr>) 0 0 3145404 = 0"
  by (simp_all add: validate_overlap_vm_area_def s32_def u64_def)

section \<open>The FIFO list and the symbol table\<close>

lemma pop_last_eq: "pop_last p ps = (last (p # ps), if ps = [] then [] else p # butlast ps)"
  by (induction ps arbitrary: p) auto

lemma find_victim_snoc: "fifo_pgn mm = ps @ [p] \<Longrightarrow> find_victim_page mm = (0, Some p, mm\<lparr>fifo_pgn := ps\<rparr>)"
proof (cases ps)
  case (Cons q qs)
  assume "fifo_pgn mm = ps @ [p]"
  moreover obtain x xs where "qs @ [p] = x # xs" by (cases "qs @ [p]") auto
  moreover from this have "last (x # xs) = p" "butlast (x # xs) = qs" by (metis last_snoc, metis butlast_snoc)
  ultimately show ?thesis using Cons by (simp add: find_victim_page_def pop_last_eq)
qed (simp add: find_victim_page_def)

lemma enlist_all: "foldl enlist_pgn_node qs ps = rev ps @ qs"
  by (induction ps arbitrary: qs) (auto simp: enlist_pgn_node_def)

text \<open>
  The FIFO policy: among pages enlisted in some order, the victim is the one enlisted first,
  and the list is then the one the later pages alone would have made.
\<close>

theorem find_victim_page_fifo:
  "find_victim_page (mm\<lparr>fifo_pgn := foldl enlist_pgn_node [] (p # ps)\<rparr>) =
     (0, Some p, mm\<lparr>fifo_pgn := foldl enlist_pgn_node [] ps\<rparr>)"
  by (subst find_victim_snoc [where p = p and ps = "rev ps"]) (simp_all add: enlist_all enlist_pgn_node_def)

text \<open>
  The bound test of the symbol table lets one index too many through: \<open>get_symrg_byid\<close> hands
  out the entry of every index from 0 to 30 and of no other, while reading and writing an entry
  stays inside the table exactly for 0 to 29.
\<close>

theorem symtbl_bound_off_by_one:
  "(get_symrg_byid mm rgid = Some i \<longleftrightarrow> i = rgid \<and> 0 \<le> rgid \<and> rgid \<le> 30) \<and>
   (symrg_at mm i = Inl OutOfBounds \<longleftrightarrow> i \<notin> {0..29}) \<and>
   (set_symrg mm i rg = Inl OutOfBounds \<longleftrightarrow> i \<notin> {0..29})"
  by (auto simp: get_symrg_byid_def symrg_at_def set_symrg_def PAGING_MAX_SYMTBL_SZ_def guardR_def)

section \<open>Concrete memory maps\<close>

definition mm_ex :: "vm_rg_struct list \<Rightarrow> vm_rg_struct list \<Rightarrow> mm_struct" where
  "mm_ex f0 f1 =
     \<lparr>pgd = \<lambda>_. 0,
      mmap = [\<lparr>vm_id = 0, vm_start = 0, vm_end = 512, sbrk = 300, vm_freerg_list = f0\<rparr>,
              \<lparr>vm_id = 1, vm_start = 1023, vm_end = 768, sbrk = 900, vm_freerg_list = f1\<rparr>],
      symrgtbl = \<lambda>_. init_vm_rg 0 0 0, fifo_pgn = []\<rparr>"

lemma mm_ex_vma [simp]:
  "get_vma_by_num (mm_ex f0 f1) 0 = Some \<lparr>vm_id = 0, vm_start = 0, vm_end = 512, sbrk = 300, vm_freerg_list = f0\<rparr>"
  "get_vma_by_num (mm_ex f0 f1) 1 = Some \<lparr>vm_id = 1, vm_start = 1023, vm_end = 768, sbrk = 900, vm_freerg_list = f1\<rparr>"
  by (simp_all add: get_vma_by_num_eq mm_ex_def)

lemma mm_ex_set [simp]:
  "set_vma (mm_ex f0 f1) 0 \<lparr>vm_id = 0, vm_start = 0, vm_end = 512, sbrk = 300, vm_freerg_list = f\<rparr> = mm_ex f f1"
  by (simp add: set_vma_def mm_ex_def)

definition rg_ex :: "int \<Rightarrow> int \<Rightarrow> vm_rg_struct" where
  "rg_ex s e = \<lparr>vmaid = 0, rg_start = s, rg_end = e\<rparr>"

lemma free_list_ex: "free_list_ok 0 100 [rg_ex 10 20, rg_ex 100 199]"
  by (auto simp: free_list_ok_def rg_ok_def rg_bytes_def rg_ex_def)

theorem get_free_vmrg_area_spec_witness:
  "\<exists>nr rgs. get_free_vmrg_area (mm_ex [rg_ex 10 20, rg_ex 100 199] []) 0 100 = ok (0, nr, mm_ex rgs []) \<and>
     blk_exact 0 100 nr \<and> blk_bytes 0 nr \<subseteq> free_space 0 [rg_ex 10 20, rg_ex 100 199]"
proof -
  have big: "\<exists>rg \<in> set [rg_ex 10 20, rg_ex 100 199]. 100 \<le> \<bar>rg_end rg - rg_start rg\<bar> + 1"
    by (simp add: rg_ex_def)
  obtain ret nr rgs where
    "get_free_vmrg_area (mm_ex [rg_ex 10 20, rg_ex 100 199] []) 0 100 = ok (ret, nr, mm_ex rgs [])"
    "ret = 0" "blk_exact 0 100 nr" "blk_bytes 0 nr \<subseteq> free_space 0 [rg_ex 10 20, rg_ex 100 199]"
    using get_free_vmrg_area_spec [OF _ mm_ex_vma(1), of 100 "[rg_ex 10 20, rg_ex 100 199]" "[]"] free_list_ex big
    by (simp only: vm_area_struct.simps mm_ex_set simp_thms if_True) metis
  then show ?thesis by metis
qed

lemma leak_run: "get_free_vmrg_area (mm_ex [rg_ex 0 299] []) 0 100 = ok (0, (200, 299), mm_ex [rg_ex 299 299] [])"
  by (simp add: get_free_vmrg_area_def rg_ex_def)
    (simp add: free_scan.simps rg_fits_def rg_slack_def rg_block_def rg_left_def u64_def)

theorem get_free_vmrg_area_exhausts_witness:
  "get_free_vmrg_area (mm_ex [rg_ex 0 299] []) 0 100 = ok (0, (200, 299), mm_ex [rg_ex 299 299] []) \<and>
   \<not> rg_fits 0 100 (rg_ex 299 299)"
  using get_free_vmrg_area_exhausts [OF leak_run mm_ex_vma(1)] leak_run by simp

theorem get_free_vmrg_area_size1_hangs_witness:
  "get_free_vmrg_area (mm_ex [rg_ex 0 0] []) 0 1 = Inl Diverges"
  by (rule get_free_vmrg_area_size1_hangs [OF mm_ex_vma(1)]) (simp_all add: rg_ex_def rg_oriented_def)

theorem overlap_check_exact_witness:
  "validate_overlap_vm_area (mm_ex [] []) 0 300 800 = - 1 \<and> validate_overlap_vm_area (mm_ex [] []) 1 900 600 = 0"
  using overlap_check_exact [of "mm_ex [] []" _ _ 300 800] overlap_check_exact [of "mm_ex [] []" _ _ 900 600]
  by (simp add: mm_ex_def)

end
