(* ===== verification/Paging.thy ===== *)
theory Paging
  imports Pte Memphy Lru Vma
begin

text \<open>
  The paging layer: page faults, mapping and the memory instructions of \<open>src/mm-vm.c\<close> and
  \<open>src/mm.c\<close>, in the configuration of \<open>include/os-cfg.h\<close> (\<open>LRU\<close>, \<open>SYNC\<close>, \<open>MM_PAGING_HEAP_GODOWN\<close>).
  The state holds what all processes share: their memory maps by process id (a pointer into a page
  table is a process id and a page number), RAM, the active swap device, the LRU list and the
  global lock. Trace output is not part of the state. Each operation is one call, run to
  completion.
\<close>

section \<open>State\<close>

text \<open>
  \<open>active_mswp\<close> of every process is \<open>&mswp[0]\<close>, and the search for its index finds 0. The static
  lock \<open>MEM_in_use\<close> of the header exists once per source file: \<open>lock_vm\<close> is the copy of
  \<open>mm-vm.c\<close>, \<open>lock_mm\<close> the one of \<open>mm.c\<close>.
\<close>

record paging =
  mm_of :: "int \<Rightarrow> mm_struct"
  mram :: memphy_struct
  mswp :: memphy_struct
  lru :: lru_state
  vmemsz :: int
  lock_vm :: bool
  lock_mm :: bool

definition index_of_active_mswp :: int where
  "index_of_active_mswp = 0"

section \<open>Access to the parts of the state\<close>

definition MEM_lock :: "paging \<Rightarrow> paging res" where
  "MEM_lock st = guardR (\<not> lock_vm st) Diverges (ok (st\<lparr>lock_vm := True\<rparr>))"

definition MEM_unlock :: "paging \<Rightarrow> paging" where
  "MEM_unlock st = st\<lparr>lock_vm := False\<rparr>"

definition pte_at :: "pte_ref \<Rightarrow> paging \<Rightarrow> 32 word res" where
  "pte_at r st =
     guardR (0 \<le> snd r \<and> snd r < PAGING_MAX_PGN) OutOfBounds (ok (pgd (mm_of st (fst r)) (snd r)))"

definition set_mm :: "int \<Rightarrow> mm_struct \<Rightarrow> paging \<Rightarrow> paging" where
  "set_mm pid mm st = st\<lparr>mm_of := (mm_of st)(pid := mm)\<rparr>"

definition set_pte :: "pte_ref \<Rightarrow> 32 word \<Rightarrow> paging \<Rightarrow> paging" where
  "set_pte r w st =
     set_mm (fst r) ((mm_of st (fst r))\<lparr>pgd := (pgd (mm_of st (fst r)))(snd r := w)\<rparr>) st"

definition upd_pte :: "pte_ref \<Rightarrow> (32 word \<Rightarrow> 32 word) \<Rightarrow> paging \<Rightarrow> paging res" where
  "upd_pte r f st = bindR (pte_at r st) (\<lambda>w. ok (set_pte r (f w) st))"

definition ram_get :: "paging \<Rightarrow> (int \<times> int option \<times> paging) res" where
  "ram_get st = bindR (MEMPHY_get_freefp (mram st)) (\<lambda>(r, f, mp). ok (r, f, st\<lparr>mram := mp\<rparr>))"

definition swp_get :: "paging \<Rightarrow> (int \<times> int option \<times> paging) res" where
  "swp_get st = bindR (MEMPHY_get_freefp (mswp st)) (\<lambda>(r, f, mp). ok (r, f, st\<lparr>mswp := mp\<rparr>))"

definition swp_put :: "int \<Rightarrow> paging \<Rightarrow> paging res" where
  "swp_put f st = bindR (MEMPHY_put_freefp (mswp st) f) (\<lambda>(_, mp). ok (st\<lparr>mswp := mp\<rparr>))"

definition cp_out :: "int \<Rightarrow> int \<Rightarrow> paging \<Rightarrow> paging res" where
  "cp_out f g st =
     bindR (swap_cp_page (mram st) f (mswp st) g) (\<lambda>(r, s). ok (st\<lparr>mram := r, mswp := s\<rparr>))"

definition cp_in :: "int \<Rightarrow> int \<Rightarrow> paging \<Rightarrow> paging res" where
  "cp_in g f st =
     bindR (swap_cp_page (mswp st) g (mram st) f) (\<lambda>(s, r). ok (st\<lparr>mram := r, mswp := s\<rparr>))"

definition lru_add :: "pte_ref \<Rightarrow> paging \<Rightarrow> paging res" where
  "lru_add r st =
     bindR (pte_at r st) (\<lambda>w. bindR (add_LRU_page r w (snd r) (lru st)) (\<lambda>l. ok (st\<lparr>lru := l\<rparr>)))"

definition lru_use :: "32 word \<Rightarrow> paging \<Rightarrow> paging res" where
  "lru_use w st = bindR (update_LRU_lst w (lru st)) (\<lambda>l. ok (st\<lparr>lru := l\<rparr>))"

text \<open>The callers ignore the return value of \<open>find_LRU_victim_page\<close>: with an empty list they go on
  with unwritten variables (\<open>None\<close>), whose first use is the copy after the test of the swap device.\<close>

definition lru_victim :: "paging \<Rightarrow> ((int \<times> int \<times> pte_ref) option \<times> paging) res" where
  "lru_victim st = bindR (find_LRU_victim_page (lru st)) (\<lambda>(v, l). ok (v, st\<lparr>lru := l\<rparr>))"

section \<open>Page faults\<close>

definition pg_getpage :: "int \<Rightarrow> int \<Rightarrow> paging \<Rightarrow> (int \<times> int option \<times> paging) res" where
  "pg_getpage pid pg st =
     bindR (MEM_lock st) (\<lambda>st.
     bindR (pte_at (pid, pg) st) (\<lambda>pte.
     bindR
       (if \<not> PAGING_PTE_PAGE_PRESENT pte then
          bindR (ram_get st) (\<lambda>(r, fpn_temp, st).
          if r = 0 then
            bindR (from_opt Uninitialised fpn_temp) (\<lambda>fpn_temp.
            let tgtfpn = PAGING_PTE_FPN pte in
            bindR (cp_in tgtfpn fpn_temp st) (\<lambda>st.
            bindR (upd_pte (pid, pg) (\<lambda>w. pte_set_fpn w fpn_temp) st) (\<lambda>st. ok (0, st))))
          else
            let tgtfpn = PAGING_PTE_FPN pte in
            bindR (lru_victim st) (\<lambda>(vic, st).
            bindR (swp_get st) (\<lambda>(r, swpfpn, st).
            if r < 0 then ok (- 3000, MEM_unlock st)
            else
              bindR (from_opt Uninitialised swpfpn) (\<lambda>swpfpn.
              bindR (from_opt Uninitialised vic) (\<lambda>(vicpgn, vicfpn, vicpte).
              bindR (cp_out vicfpn swpfpn st) (\<lambda>st.
              bindR (cp_in tgtfpn vicfpn st) (\<lambda>st.
              bindR (upd_pte vicpte (\<lambda>w. pte_set_swap w index_of_active_mswp swpfpn) st) (\<lambda>st.
              bindR (upd_pte (pid, pg) (\<lambda>w. pte_set_fpn w vicfpn) st) (\<lambda>st.
              bindR (swp_put tgtfpn st) (\<lambda>st. ok (0, st)))))))))))
        else ok (0, st))
       (\<lambda>(ret, st).
          if ret \<noteq> 0 then ok (ret, None, st)
          else
            bindR (lru_add (pid, pg) st) (\<lambda>st.
            bindR (pte_at (pid, pg) st) (\<lambda>pte. ok (0, Some (PAGING_PTE_FPN pte), MEM_unlock st))))))"

text \<open>The physical address of a byte; heap pages are filled from their top.\<close>

definition phyaddr_of :: "int \<Rightarrow> int \<Rightarrow> int \<Rightarrow> int" where
  "phyaddr_of vid f off =
     (if vid = 0 then push_bit PAGING_ADDR_FPN_LOBIT f + off
      else push_bit PAGING_ADDR_FPN_LOBIT f + (PAGING_PAGESZ - 1 - off))"

definition pg_setval :: "int \<Rightarrow> int \<Rightarrow> byte \<Rightarrow> int \<Rightarrow> paging \<Rightarrow> (int \<times> paging) res" where
  "pg_setval pid addr val vid st =
     (let pgn = PAGING_PGN addr; off = PAGING_OFFST addr in
      bindR (pg_getpage pid pgn st) (\<lambda>(r, fpn, st).
      if r \<noteq> 0 then ok (- 1, st)
      else
        bindR (from_opt Uninitialised fpn) (\<lambda>fpn.
        bindR (MEMPHY_write (mram st) (phyaddr_of vid fpn off) val) (\<lambda>(_, mp).
        ok (0, st\<lparr>mram := mp\<rparr>)))))"

definition pg_getval :: "int \<Rightarrow> int \<Rightarrow> int \<Rightarrow> paging \<Rightarrow> (int \<times> byte option \<times> paging) res" where
  "pg_getval pid addr vid st =
     (let pgn = PAGING_PGN addr; off = PAGING_OFFST addr in
      bindR (pg_getpage pid pgn st) (\<lambda>(r, fpn, st).
      if r \<noteq> 0 then ok (- 1, None, st)
      else
        bindR (from_opt Uninitialised fpn) (\<lambda>fpn.
        bindR (MEMPHY_read (mram st) (phyaddr_of vid fpn off)) (\<lambda>(_, data, mp).
        ok (0, data, st\<lparr>mram := mp\<rparr>)))))"

section \<open>Mapping\<close>

text \<open>
  \<open>alloc_pages_range\<close>: \<open>n\<close> pages remain, \<open>frm_lst\<close> is the list built so far. When the active swap
  device is full, the fallback reads \<open>caller->mswp[i]\<close>, a pointer made of the bytes of a device
  structure (\<open>main\<close> casts an array of structures to an array of pointers).
\<close>

fun alloc_pages_range :: "int \<Rightarrow> nat \<Rightarrow> int list \<Rightarrow> paging \<Rightarrow> (int \<times> int list \<times> paging) res" where
  "alloc_pages_range pid 0 frm_lst st = ok (0, frm_lst, st)"
| "alloc_pages_range pid (Suc n) frm_lst st =
     bindR (ram_get st) (\<lambda>(r, fpn, st).
     bindR
       (if r < 0 then
          bindR (lru_victim st) (\<lambda>(vic, st).
          bindR (swp_get st) (\<lambda>(r, swpfpn, st).
          if r < 0 then Inl WildPointer
          else
            bindR (from_opt Uninitialised swpfpn) (\<lambda>swpfpn.
            bindR (from_opt Uninitialised vic) (\<lambda>(vicpgn, vicfpn, vicpte).
            bindR (cp_out vicfpn swpfpn st) (\<lambda>st.
            bindR (upd_pte vicpte (\<lambda>w. pte_set_swap w index_of_active_mswp swpfpn) st) (\<lambda>st.
            ok (vicfpn, st)))))))
        else bindR (from_opt Uninitialised fpn) (\<lambda>fpn. ok (fpn, st)))
       (\<lambda>(fpn, st). alloc_pages_range pid n (fpn # frm_lst) st))"

text \<open>The loop of \<open>vmap_page_range\<close>, for \<open>pgit = n - 1, ..., 0\<close>.\<close>

fun vmap_loop :: "int \<Rightarrow> int \<Rightarrow> int \<Rightarrow> nat \<Rightarrow> int list \<Rightarrow> paging \<Rightarrow> (int \<times> paging) res" where
  "vmap_loop pid vid pg 0 fps st = ok (0, st)"
| "vmap_loop pid vid pg (Suc pgit) fps st =
     (case fps of
        [] \<Rightarrow> ok (- 1, st)
      | fp # fps \<Rightarrow>
          let p = (if vid = 0 then pg + int pgit else pg - int pgit) in
          bindR (upd_pte (pid, p) (\<lambda>w. pte_set_fpn w fp) st) (\<lambda>st.
          bindR (lru_add (pid, p) st) (\<lambda>st.
          vmap_loop pid vid pg pgit fps st)))"

text \<open>\<open>vmap_page_range\<close>: the return value, the bounds of the mapped region \<open>ret_rg\<close> and the state.\<close>

definition vmap_page_range ::
  "int \<Rightarrow> int \<Rightarrow> int \<Rightarrow> int list \<Rightarrow> int \<Rightarrow> paging \<Rightarrow> (int \<times> (int \<times> int) \<times> paging) res" where
  "vmap_page_range pid addr pgnum frames vid st =
     bindR (vmap_loop pid vid (PAGING_PGN addr) (nat pgnum) frames st) (\<lambda>(r, st).
     if r < 0 then ok (- 1, (u64 addr, u64 addr), st)
     else ok (0, (u64 addr, if vid = 0 then u64 (addr + pgnum * PAGING_PAGESZ)
                            else u64 (addr - pgnum * PAGING_PAGESZ)), st))"

text \<open>\<open>vm_map_ram\<close>; its parameters \<open>astart\<close> and \<open>aend\<close> are not used.\<close>

definition vm_map_ram :: "int \<Rightarrow> int \<Rightarrow> int \<Rightarrow> int \<Rightarrow> paging \<Rightarrow> (int \<times> paging) res" where
  "vm_map_ram pid vid mapstart incpgnum st =
     bindR (guardR (\<not> lock_mm st) Diverges (ok (st\<lparr>lock_mm := True\<rparr>))) (\<lambda>st.
     bindR (alloc_pages_range pid (nat incpgnum) [] st) (\<lambda>(ret_alloc, frm_lst, st).
     if ret_alloc < 0 then ok (- 1, st\<lparr>lock_mm := False\<rparr>)
     else
       bindR
         (if vid = 0 then vmap_page_range pid mapstart incpgnum frm_lst vid st
          else if u32 mapstart = u32 (vmemsz st - 1)
               then vmap_page_range pid mapstart incpgnum frm_lst vid st
               else vmap_page_range pid (mapstart - 1) incpgnum frm_lst vid st)
         (\<lambda>(_, _, st). ok (0, st\<lparr>lock_mm := False\<rparr>))))"

text \<open>\<open>inc_vma_limit\<close>: the return value is also what is stored through \<open>inc_limit_ret\<close>.\<close>

definition inc_vma_limit :: "int \<Rightarrow> int \<Rightarrow> int \<Rightarrow> paging \<Rightarrow> (int \<times> paging) res" where
  "inc_vma_limit pid vid inc_sz st =
     bindR (from_opt NullDeref (get_vma_by_num (mm_of st pid) vid)) (\<lambda>cur_vma.
     let inc_amt = s32 (if vid = 0 then PAGING_PAGE_ALIGNSZ (u64 (inc_sz - u64 (vm_end cur_vma - sbrk cur_vma)))
                        else PAGING_PAGE_ALIGNSZ (u64 (inc_sz - u64 (sbrk cur_vma - vm_end cur_vma))));
         incnumpage = inc_amt sdiv PAGING_PAGESZ in
     bindR (get_vm_area_node_at_brk (mm_of st pid) vid inc_sz) (\<lambda>(area_start, area_end).
     let old_end = s32 (vm_end cur_vma) in
     if validate_overlap_vm_area (mm_of st pid) vid (s32 area_start) (s32 area_end) < 0 then ok (- 1, st)
     else
       let new_end = (if vid = 0 then PAGING_PAGE_ALIGNSZ (u64 (sbrk cur_vma + inc_sz))
                      else u64 (PAGING_PAGE_ALIGNSZ (u64 (sbrk cur_vma - inc_sz)) - PAGING_PAGESZ));
           st = set_mm pid (set_vma (mm_of st pid) vid (cur_vma\<lparr>vm_end := new_end\<rparr>)) st in
       bindR (vm_map_ram pid vid old_end incnumpage st) (\<lambda>(r, st).
       if r < 0 then
         bindR (from_opt NullDeref (get_vma_by_num (mm_of st pid) vid)) (\<lambda>cur_vma.
         let new_end = (if vid = 0 then u64 (vm_end cur_vma - inc_sz) else u64 (vm_end cur_vma + inc_sz)) in
         ok (- 1, set_mm pid (set_vma (mm_of st pid) vid (cur_vma\<lparr>vm_end := new_end\<rparr>)) st))
       else ok (0, st))))"

section \<open>Allocation\<close>

text \<open>
  \<open>__alloc\<close>. When a free region is reused, its pages are visited in the order of growth; a page that
  is not in RAM is brought in, always by evicting a victim. The loop of the heap compares an \<open>int\<close>
  with an unsigned value, so after page 0 it goes on to index -1.
\<close>

definition realloc_page :: "int \<Rightarrow> int \<Rightarrow> paging \<Rightarrow> (int \<times> paging) res" where
  "realloc_page pid i st =
     bindR (pte_at (pid, i) st) (\<lambda>current_pte.
     bindR
       (if \<not> PAGING_PTE_PAGE_PRESENT current_pte then
          let tgtfpn = PAGING_PTE_FPN current_pte in
          bindR (lru_victim st) (\<lambda>(vic, st).
          bindR (swp_get st) (\<lambda>(r, swpfpn, st).
          if r < 0 then ok (- 3000, st)
          else
            bindR (from_opt Uninitialised swpfpn) (\<lambda>swpfpn.
            bindR (from_opt Uninitialised vic) (\<lambda>(vicpgn, vicfpn, vicpte).
            bindR (cp_out vicfpn swpfpn st) (\<lambda>st.
            bindR (upd_pte vicpte (\<lambda>w. pte_set_swap w index_of_active_mswp swpfpn) st) (\<lambda>st.
            bindR (cp_in tgtfpn vicfpn st) (\<lambda>st.
            bindR (upd_pte (pid, i) (\<lambda>w. pte_set_fpn w vicfpn) st) (\<lambda>st.
            bindR (lru_add (pid, i) st) (\<lambda>st.
            bindR (swp_put tgtfpn st) (\<lambda>st. ok (0, st)))))))))))
        else ok (0, st))
       (\<lambda>(ret, st).
          if ret \<noteq> 0 then ok (ret, st)
          else bindR (lru_use current_pte st) (\<lambda>st. ok (0, st))))"

fun realloc_pages :: "int \<Rightarrow> int list \<Rightarrow> paging \<Rightarrow> (int \<times> paging) res" where
  "realloc_pages pid [] st = ok (0, st)"
| "realloc_pages pid (i # is) st =
     bindR (realloc_page pid i st) (\<lambda>(ret, st).
     if ret \<noteq> 0 then ok (ret, st) else realloc_pages pid is st)"

definition region_pages :: "int \<Rightarrow> int \<times> int \<Rightarrow> int list" where
  "region_pages vid rg =
     (let s = s32 (fst rg div 256); e = snd rg div 256 in
      if vid = 0 then [s..e]
      else rev [e..s] @ (if e = 0 then [- 1] else []))"

text \<open>The symbol table entry and the new break of a region taken at the break.\<close>

definition brk_region :: "int \<Rightarrow> int \<Rightarrow> int \<Rightarrow> int \<Rightarrow> (int \<times> int) \<times> int" where
  "brk_region vid vmem old_sbrk sz =
     (if vid = 0 then ((u64 old_sbrk, u64 (s32 (old_sbrk + sz - 1))), u64 (s32 (old_sbrk + sz)))
      else if u32 old_sbrk = u32 (vmem - 1)
           then ((u64 old_sbrk, u64 (s32 (old_sbrk + 1 - sz))), u64 (s32 (old_sbrk + 1 - sz)))
           else ((u64 (s32 (old_sbrk - 1)), u64 (s32 (old_sbrk - sz))), u64 (s32 (old_sbrk - sz))))"

text \<open>The part of \<open>__alloc\<close> after a failed search: out of memory, growth of the area, commit.\<close>

definition alloc_at_brk :: "int \<Rightarrow> int \<Rightarrow> int \<Rightarrow> int \<Rightarrow> paging \<Rightarrow> (int \<times> int option \<times> paging) res" where
  "alloc_at_brk pid vid rgid sz st =
     bindR (from_opt NullDeref (get_vma_by_num (mm_of st pid) vid)) (\<lambda>cur_vma.
     let old_sbrk = s32 (sbrk cur_vma) in
     if (if vid = 0 then u32 (s32 (old_sbrk + sz)) > vmemsz st else s32 (old_sbrk - sz) < 0)
     then ok (- 1, None, st)
     else
       bindR
         (if (if vid = 0 then u64 (s32 (old_sbrk + sz)) > vm_end cur_vma
              else s32 (old_sbrk - sz) < s32 (vm_end cur_vma))
          then inc_vma_limit pid vid sz st else ok (0, st))
         (\<lambda>(inc_limit_ret, st).
            if inc_limit_ret < 0 then ok (- 1, None, st)
            else
              bindR (from_opt NullDeref (get_vma_by_num (mm_of st pid) vid)) (\<lambda>cur_vma.
              let ((s, e), brk) = brk_region vid (vmemsz st) old_sbrk sz in
              bindR (set_symrg (set_vma (mm_of st pid) vid (cur_vma\<lparr>sbrk := brk\<rparr>)) rgid
                       \<lparr>vmaid = vid, rg_start = s, rg_end = e\<rparr>) (\<lambda>mm.
              ok (0, Some old_sbrk, set_mm pid mm st)))))"

text \<open>\<open>__alloc\<close>: the return value, what is stored through \<open>alloc_addr\<close> and the state.\<close>

definition do_alloc :: "int \<Rightarrow> int \<Rightarrow> int \<Rightarrow> int \<Rightarrow> paging \<Rightarrow> (int \<times> int option \<times> paging) res" where
  "do_alloc pid vid rgid sz st =
     bindR (get_free_vmrg_area (mm_of st pid) vid sz) (\<lambda>(found, rgnode, mm).
     let st = set_mm pid mm st in
     if found = 0 then
       bindR (set_symrg (mm_of st pid) rgid
                \<lparr>vmaid = vid, rg_start = fst rgnode, rg_end = snd rgnode\<rparr>) (\<lambda>mm.
       let st = set_mm pid mm st in
       bindR (realloc_pages pid (region_pages vid rgnode) st) (\<lambda>(ret, st).
       ok (ret, Some (s32 (fst rgnode)), st)))
     else alloc_at_brk pid vid rgid sz st)"

section \<open>Free, read and write\<close>

text \<open>The zeroing loop of \<open>__free\<close>; the results of \<open>pg_setval\<close> are ignored.\<close>

fun zero_loop :: "int \<Rightarrow> int \<Rightarrow> int list \<Rightarrow> paging \<Rightarrow> paging res" where
  "zero_loop pid vid [] st = ok st"
| "zero_loop pid vid (addr # addrs) st =
     bindR (pg_setval pid (s32 addr) 0 vid st) (\<lambda>(_, st). zero_loop pid vid addrs st)"

definition do_free :: "int \<Rightarrow> int \<Rightarrow> paging \<Rightarrow> (int \<times> paging) res" where
  "do_free pid rgid st =
     (if rgid < 0 \<or> rgid > PAGING_MAX_SYMTBL_SZ then ok (- 1, st)
      else
        bindR (from_opt NullDeref (get_symrg_byid (mm_of st pid) rgid)) (\<lambda>i.
        bindR (symrg_at (mm_of st pid) i) (\<lambda>rgnode.
        let vid = vmaid rgnode in
        if rg_start rgnode = rg_end rgnode then ok (- 1, st)
        else
          let freerg = \<lparr>vmaid = vid, rg_start = rg_start rgnode, rg_end = rg_end rgnode\<rparr> in
          bindR (zero_loop pid vid [rg_start rgnode..rg_end rgnode - 1] st) (\<lambda>st.
          bindR (set_symrg (mm_of st pid) i (rgnode\<lparr>rg_start := 0, rg_end := 0\<rparr>)) (\<lambda>mm.
          bindR (enlist_vm_freerg_list mm vid freerg) (\<lambda>(_, mm).
          ok (0, set_mm pid mm st)))))))"

text \<open>The checks shared by \<open>__read\<close> and \<open>__write\<close>: the area id and the address, or the return value -1.\<close>

definition rg_access :: "int \<Rightarrow> int \<Rightarrow> int \<Rightarrow> paging \<Rightarrow> (int \<times> int) option res" where
  "rg_access pid rgid offset st =
     bindR (from_opt NullDeref (get_symrg_byid (mm_of st pid) rgid)) (\<lambda>i.
     bindR (symrg_at (mm_of st pid) i) (\<lambda>currg.
     let vid = vmaid currg in
     case get_vma_by_num (mm_of st pid) vid of
       None \<Rightarrow> ok None
     | Some cur_vma \<Rightarrow>
         if rg_start currg = rg_end currg then ok None
         else if (if vid = 0 then u64 (rg_start currg + offset) > rg_end currg
                  else u64 (rg_start currg - offset) < rg_end currg) then ok None
         else ok (Some (vid, if vid = 0 then u64 (rg_start currg + offset)
                             else u64 (rg_start currg - offset)))))"

definition do_read :: "int \<Rightarrow> int \<Rightarrow> int \<Rightarrow> paging \<Rightarrow> (int \<times> byte option \<times> paging) res" where
  "do_read pid rgid offset st =
     bindR (rg_access pid rgid offset st) (\<lambda>acc.
     case acc of
       None \<Rightarrow> ok (- 1, None, st)
     | Some (vid, addr) \<Rightarrow>
         bindR (pg_getval pid (s32 addr) vid st) (\<lambda>(_, data, st).
         bindR (pte_at (pid, PAGING_PGN addr) st) (\<lambda>w.
         bindR (lru_use w st) (\<lambda>st. ok (0, data, st)))))"

definition do_write :: "int \<Rightarrow> int \<Rightarrow> int \<Rightarrow> byte \<Rightarrow> paging \<Rightarrow> (int \<times> paging) res" where
  "do_write pid rgid offset val st =
     bindR (rg_access pid rgid offset st) (\<lambda>acc.
     case acc of
       None \<Rightarrow> ok (- 1, st)
     | Some (vid, addr) \<Rightarrow>
         bindR (pg_setval pid (s32 addr) val (if vid = 0 then 0 else 1) st) (\<lambda>(_, st).
         bindR (pte_at (pid, PAGING_PGN addr) st) (\<lambda>w.
         bindR (lru_use w st) (\<lambda>st. ok (0, st)))))"

section \<open>The instructions\<close>

definition pgalloc :: "int \<Rightarrow> int \<Rightarrow> int \<Rightarrow> paging \<Rightarrow> (int \<times> paging) res" where
  "pgalloc pid sz reg_index st =
     bindR (do_alloc pid 0 (s32 reg_index) (s32 sz) st) (\<lambda>(val, addr, st). ok (val, st))"

definition pgmalloc :: "int \<Rightarrow> int \<Rightarrow> int \<Rightarrow> paging \<Rightarrow> (int \<times> paging) res" where
  "pgmalloc pid sz reg_index st =
     bindR (do_alloc pid 1 (s32 reg_index) (s32 sz) st) (\<lambda>(val, addr, st). ok (val, st))"

definition pgfree_data :: "int \<Rightarrow> int \<Rightarrow> paging \<Rightarrow> (int \<times> paging) res" where
  "pgfree_data pid reg_index st = do_free pid (s32 reg_index) st"

text \<open>\<open>pgread\<close> assigns the byte to its parameter \<open>destination\<close>, which is lost; the byte is printed.\<close>

definition pgread :: "int \<Rightarrow> int \<Rightarrow> int \<Rightarrow> int \<Rightarrow> paging \<Rightarrow> (int \<times> byte option \<times> paging) res" where
  "pgread pid source offset destination st = do_read pid (s32 source) (s32 offset) st"

definition pgwrite :: "int \<Rightarrow> byte \<Rightarrow> int \<Rightarrow> int \<Rightarrow> paging \<Rightarrow> (int \<times> paging) res" where
  "pgwrite pid data destination offset st = do_write pid (s32 destination) (s32 offset) data st"

section \<open>Release and page table dump\<close>

text \<open>\<open>free_pcb_memph\<close>: the loop over all pages, for the page numbers in the list.\<close>

fun free_pcb_loop :: "int \<Rightarrow> int list \<Rightarrow> paging \<Rightarrow> paging res" where
  "free_pcb_loop pid [] st = ok st"
| "free_pcb_loop pid (pagenum # ps) st =
     bindR (pte_at (pid, pagenum) st) (\<lambda>w.
     bindR
       (if \<not> PAGING_PTE_PAGE_PRESENT w then
          bindR (MEMPHY_put_freefp (mram st) (PAGING_PTE_FPN w)) (\<lambda>(_, mp). ok (st\<lparr>mram := mp\<rparr>))
        else swp_put (PAGING_SWPOFF w sdiv PAGING_PAGESZ) st)
       (free_pcb_loop pid ps))"

definition free_pcb_memph :: "int \<Rightarrow> paging \<Rightarrow> (int \<times> paging) res" where
  "free_pcb_memph pid st =
     bindR (free_pcb_loop pid [0..PAGING_MAX_PGN - 1] st) (\<lambda>st. ok (0, st))"

text \<open>\<open>print_pgtbl\<close>: the rows (byte offset, entry) printed for the stack and for the heap.\<close>

fun pgtbl_rows :: "int \<Rightarrow> int list \<Rightarrow> paging \<Rightarrow> (int \<times> 32 word) list res" where
  "pgtbl_rows pid [] st = ok []"
| "pgtbl_rows pid (i # is) st =
     bindR (pte_at (pid, i) st) (\<lambda>w. bindR (pgtbl_rows pid is st) (\<lambda>rows. ok ((i * 4, w) # rows)))"

definition print_pgtbl ::
  "int \<Rightarrow> int \<Rightarrow> int \<Rightarrow> paging \<Rightarrow> ((int \<times> 32 word) list \<times> (int \<times> 32 word) list) res" where
  "print_pgtbl pid start end' st =
     bindR (if u32 end' = u32 (- 1)
            then bindR (from_opt NullDeref (get_vma_by_num (mm_of st pid) 0)) (\<lambda>v. ok (u32 (vm_end v)))
            else ok (u32 end')) (\<lambda>e.
     bindR (if e = 0 then ok [] else pgtbl_rows pid [PAGING_PGN start..PAGING_PGN e - 1] st) (\<lambda>stack_rows.
     bindR (from_opt NullDeref (get_vma_by_num (mm_of st pid) 1)) (\<lambda>v.
     let heap_end = u32 (vm_end v); pgn_start = s32 (u32 (vmemsz st div PAGING_PAGESZ - 1)) in
     bindR (if u32 (vmemsz st - 1) = heap_end then ok []
            else pgtbl_rows pid (rev [PAGING_PGN heap_end..pgn_start]) st) (\<lambda>heap_rows.
     ok (stack_rows, heap_rows)))))"

end
