(* ===== verification/Frames.thy ===== *)
theory Frames
  imports Paging
begin

text \<open>
  Ownership of RAM frames: the invariant that connects page tables, the LRU list and the free list of
  RAM, and its preservation by every step of the paging layer. In the middle of an operation some
  frames are held: taken from the free list or from a victim and not mapped yet. They are a
  parameter of the invariant.
\<close>

section \<open>The invariant\<close>

definition pte_of :: "paging \<Rightarrow> pte_ref \<Rightarrow> 32 word" where
  "pte_of st r = pgd (mm_of st (fst r)) (snd r)"

definition in_table :: "pte_ref \<Rightarrow> bool" where
  "in_table r \<longleftrightarrow> 0 \<le> snd r \<and> snd r < PAGING_MAX_PGN"

definition present :: "paging \<Rightarrow> pte_ref \<Rightarrow> bool" where
  "present st r \<longleftrightarrow> in_table r \<and> PAGING_PTE_PAGE_PRESENT (pte_of st r)"

definition frame_of :: "paging \<Rightarrow> pte_ref \<Rightarrow> int" where
  "frame_of st r = PAGING_PTE_FPN (pte_of st r)"

definition devices_ok :: "paging \<Rightarrow> bool" where
  "devices_ok st \<longleftrightarrow> ready (mram st) \<and> ready (mswp st) \<and> frames_ok (mram st) \<and>
     maxsz (mram st) \<le> 2097152 \<and> (\<forall>f \<in> set (free_fp_list (mswp st)). frame_in (mswp st) f)"

definition used_frame :: "paging \<Rightarrow> int \<Rightarrow> bool" where
  "used_frame st f \<longleftrightarrow> frame_in (mram st) f \<and> f \<notin> set (free_fp_list (mram st))"

definition entry_ok :: "paging \<Rightarrow> lru_entry \<Rightarrow> bool" where
  "entry_ok st e \<longleftrightarrow> present st (e_pte e) \<and> frame_of st (e_pte e) = e_fpn e \<and>
     snd (e_pte e) = e_pgn e \<and> used_frame st (e_fpn e)"

abbreviation lru_es :: "paging \<Rightarrow> lru_entry list" where
  "lru_es st \<equiv> lru_entries (lru st)"

definition map_ok :: "int set \<Rightarrow> paging \<Rightarrow> bool" where
  "map_ok H st \<longleftrightarrow> devices_ok st \<and> lru_ok (lru st) \<and> distinct (map e_fpn (lru_es st)) \<and>
     (\<forall>e \<in> set (lru_es st). entry_ok st e) \<and>
     (\<forall>r. present st r \<longrightarrow> used_frame st (frame_of st r)) \<and>
     (\<forall>r r'. present st r \<and> present st r' \<and> frame_of st r = frame_of st r' \<longrightarrow> r = r') \<and>
     (\<forall>f \<in> H. used_frame st f \<and> (\<forall>r. present st r \<longrightarrow> frame_of st r \<noteq> f))"

lemma map_okD:
  assumes "map_ok H st"
  shows "devices_ok st" "lru_ok (lru st)" "distinct (map e_fpn (lru_es st))"
    "\<And>e. e \<in> set (lru_es st) \<Longrightarrow> entry_ok st e"
    "\<And>r. present st r \<Longrightarrow> used_frame st (frame_of st r)"
    "\<And>r r'. present st r \<Longrightarrow> present st r' \<Longrightarrow> frame_of st r = frame_of st r' \<Longrightarrow> r = r'"
    "\<And>f. f \<in> H \<Longrightarrow> used_frame st f"
    "\<And>f r. f \<in> H \<Longrightarrow> present st r \<Longrightarrow> frame_of st r \<noteq> f"
  using assms unfolding map_ok_def by blast+

lemma map_okI:
  assumes "devices_ok st" "lru_ok (lru st)" "distinct (map e_fpn (lru_es st))"
    "\<And>e. e \<in> set (lru_es st) \<Longrightarrow> entry_ok st e"
    "\<And>r. present st r \<Longrightarrow> used_frame st (frame_of st r)"
    "\<And>r r'. present st r \<Longrightarrow> present st r' \<Longrightarrow> frame_of st r = frame_of st r' \<Longrightarrow> r = r'"
    "\<And>f. f \<in> H \<Longrightarrow> used_frame st f"
    "\<And>f r. f \<in> H \<Longrightarrow> present st r \<Longrightarrow> frame_of st r \<noteq> f"
  shows "map_ok H st"
  using assms unfolding map_ok_def by blast

lemma used_frame_bound: "devices_ok st \<Longrightarrow> used_frame st f \<Longrightarrow> 0 \<le> f \<and> f < 8192"
  by (auto simp: devices_ok_def used_frame_def frame_in_def)

section \<open>Steps on the parts of the state\<close>

lemma set_pte_simps [simp]:
  "mram (set_pte r w st) = mram st" "mswp (set_pte r w st) = mswp st" "lru (set_pte r w st) = lru st"
  "vmemsz (set_pte r w st) = vmemsz st" "lock_vm (set_pte r w st) = lock_vm st"
  "lock_mm (set_pte r w st) = lock_mm st"
  by (simp_all add: set_pte_def set_mm_def)

lemma pte_of_set_pte: "pte_of (set_pte r w st) r' = (if r' = r then w else pte_of st r')"
  by (auto simp: pte_of_def set_pte_def set_mm_def prod_eq_iff)

lemma pte_of_update [simp]:
  "pte_of (st\<lparr>mram := x\<rparr>) = pte_of st" "pte_of (st\<lparr>mswp := y\<rparr>) = pte_of st"
  "pte_of (st\<lparr>lru := z\<rparr>) = pte_of st" "pte_of (st\<lparr>lock_vm := b\<rparr>) = pte_of st"
  "pte_of (st\<lparr>lock_mm := b\<rparr>) = pte_of st"
  by (simp_all add: pte_of_def fun_eq_iff)

lemma present_update [simp]:
  "present (st\<lparr>mram := x\<rparr>) = present st" "present (st\<lparr>mswp := y\<rparr>) = present st"
  "present (st\<lparr>lru := z\<rparr>) = present st" "present (st\<lparr>lock_vm := b\<rparr>) = present st"
  "present (st\<lparr>lock_mm := b\<rparr>) = present st"
  by (simp_all add: present_def fun_eq_iff)

lemma frame_of_update [simp]:
  "frame_of (st\<lparr>mram := x\<rparr>) = frame_of st" "frame_of (st\<lparr>mswp := y\<rparr>) = frame_of st"
  "frame_of (st\<lparr>lru := z\<rparr>) = frame_of st" "frame_of (st\<lparr>lock_vm := b\<rparr>) = frame_of st"
  "frame_of (st\<lparr>lock_mm := b\<rparr>) = frame_of st"
  by (simp_all add: frame_of_def fun_eq_iff)

lemma pte_at_eq: "pte_at r st = (if in_table r then ok (pte_of st r) else Inl OutOfBounds)"
  by (simp add: pte_at_def in_table_def pte_of_def guardR_def)

lemma upd_pte_eq: "upd_pte r f st = (if in_table r then ok (set_pte r (f (pte_of st r)) st) else Inl OutOfBounds)"
  by (simp add: upd_pte_def pte_at_eq)

text \<open>The invariant only looks at these observations.\<close>

lemma map_ok_cong:
  assumes "map_ok H st" "pte_of st' = pte_of st" "lru st' = lru st" "devices_ok st'"
    "maxsz (mram st') = maxsz (mram st)" "set (free_fp_list (mram st')) \<subseteq> set (free_fp_list (mram st))"
  shows "map_ok H st'"
proof -
  note D = map_okD [OF assms(1)]
  have p: "present st' = present st" "frame_of st' = frame_of st"
    using assms(2) by (simp_all add: present_def frame_of_def fun_eq_iff)
  have u: "used_frame st f \<Longrightarrow> used_frame st' f" for f
    using assms(5,6) by (auto simp: used_frame_def frame_in_def)
  then have e: "entry_ok st e \<Longrightarrow> entry_ok st' e" for e by (simp add: entry_ok_def p)
  show ?thesis
    by (rule map_okI) (use D u e in \<open>simp_all add: p assms(3,4)\<close>)
qed

lemma map_ok_locks [simp]:
  "map_ok H (st\<lparr>lock_vm := b\<rparr>) = map_ok H st" "map_ok H (st\<lparr>lock_mm := b\<rparr>) = map_ok H st"
  by (simp_all add: map_ok_def devices_ok_def entry_ok_def used_frame_def)

text \<open>Copying a page succeeds exactly on frames inside both devices.\<close>

lemma swap_cp_cells_inside:
  assumes "swap_cp_cells cs src sf dst df = ok x" "ready src" "ready dst"
  shows "\<forall>c \<in> set cs. in_storage src (sf * 256 + c) \<and> in_storage dst (df * 256 + c)"
  using assms
proof (induction cs arbitrary: dst)
  case (Cons c cs)
  let ?a = "sf * 256 + c" and ?b = "df * 256 + c"
  have rd: "in_storage src ?a"
    using Cons.prems(1,2) by (auto simp: MEMPHY_read_def ready_def PAGING_PAGESZ_def)
  have wr: "in_storage dst ?b"
    using Cons.prems rd by (auto simp: memphy_ready MEMPHY_write_def ready_def PAGING_PAGESZ_def)
  let ?d = "dst\<lparr>storage := (storage dst)(?b := storage src ?a)\<rparr>"
  have "swap_cp_cells cs src sf ?d df = ok x"
    using Cons.prems rd wr by (simp add: memphy_ready PAGING_PAGESZ_def)
  from Cons.IH [OF this] Cons.prems(2,3) rd wr show ?case by simp
qed simp

lemma swap_cp_page_inside:
  assumes "swap_cp_page src sf dst df = ok x" "ready src" "ready dst" "0 \<le> sf" "0 \<le> df"
  shows "frame_in src sf" "frame_in dst df"
proof -
  have "\<forall>c \<in> set [0..255]. in_storage src (sf * 256 + c) \<and> in_storage dst (df * 256 + c)"
    using assms(1) unfolding swap_cp_page_def PAGING_PAGESZ_def
    by (intro swap_cp_cells_inside [OF _ assms(2,3), of _ sf df x]) simp
  then have "in_storage src (sf * 256 + 255) \<and> in_storage dst (df * 256 + 255)" by (rule bspec) simp
  with assms(4,5) show "frame_in src sf" "frame_in dst df" by (auto simp: frame_in_def in_storage_def)
qed

lemma ram_get_eq:
  "devices_ok st \<Longrightarrow> ram_get st =
     (case free_fp_list (mram st) of [] \<Rightarrow> ok (- 1, None, st)
      | f # fs \<Rightarrow> ok (0, Some f, st\<lparr>mram := (mram st)\<lparr>free_fp_list := fs\<rparr>\<rparr>))"
  by (simp add: ram_get_def devices_ok_def MEMPHY_get_freefp_ready split: list.split)

lemma swp_get_eq:
  "devices_ok st \<Longrightarrow> swp_get st =
     (case free_fp_list (mswp st) of [] \<Rightarrow> ok (- 1, None, st)
      | f # fs \<Rightarrow> ok (0, Some f, st\<lparr>mswp := (mswp st)\<lparr>free_fp_list := fs\<rparr>\<rparr>))"
  by (simp add: swp_get_def devices_ok_def MEMPHY_get_freefp_ready split: list.split)

lemma swp_put_eq:
  "devices_ok st \<Longrightarrow>
   swp_put f st = ok (st\<lparr>mswp := (mswp st)\<lparr>free_fp_list := f # free_fp_list (mswp st)\<rparr>\<rparr>)"
  by (simp add: swp_put_def devices_ok_def MEMPHY_put_freefp_ready)

lemma cp_out_eq:
  "devices_ok st \<Longrightarrow> frame_in (mram st) f \<Longrightarrow> frame_in (mswp st) g \<Longrightarrow>
   cp_out f g st = ok (st\<lparr>mswp := copy_frame (mram st) f (mswp st) g\<rparr>)"
  by (simp add: cp_out_def devices_ok_def swap_cp_page_eq)

lemma cp_in_eq:
  "devices_ok st \<Longrightarrow> frame_in (mram st) f \<Longrightarrow> frame_in (mswp st) g \<Longrightarrow>
   cp_in g f st = ok (st\<lparr>mram := copy_frame (mswp st) g (mram st) f\<rparr>)"
  by (simp add: cp_in_def devices_ok_def swap_cp_page_eq)

lemma cp_in_inside:
  assumes "cp_in g f st = ok st'" "devices_ok st" "0 \<le> g" "0 \<le> f"
  shows "frame_in (mswp st) g" "frame_in (mram st) f"
  using assms swap_cp_page_inside [of "mswp st" g "mram st" f] by (auto simp: cp_in_def devices_ok_def)

section \<open>The invariant along the steps\<close>

lemma map_ok_ram_get:
  assumes "map_ok H st" "free_fp_list (mram st) = f # fs"
  shows "map_ok (insert f H) (st\<lparr>mram := (mram st)\<lparr>free_fp_list := fs\<rparr>\<rparr>)" "f \<notin> H" "frame_in (mram st) f"
proof -
  note D = map_okD [OF assms(1)]
  let ?st = "st\<lparr>mram := (mram st)\<lparr>free_fp_list := fs\<rparr>\<rparr>"
  show f: "frame_in (mram st) f" using D(1) assms(2) by (auto simp: devices_ok_def frames_ok_def)
  have d: "devices_ok ?st" "f \<notin> set fs" using D(1) assms(2) by (auto simp: devices_ok_def frames_ok_def)
  have not_used: "\<not> used_frame st f" using assms(2) by (simp add: used_frame_def)
  then show "f \<notin> H" using D(7) by blast
  have m: "map_ok H ?st" by (rule map_ok_cong [OF assms(1)]) (use d assms(2) in auto)
  show "map_ok (insert f H) ?st"
  proof (rule map_okI)
    show "used_frame ?st g" if "g \<in> insert f H" for g
      using that map_okD(7) [OF m, of g] f d(2) by (auto simp: used_frame_def)
    show "frame_of ?st r \<noteq> g" if "g \<in> insert f H" "present ?st r" for g r
      using that D(5) [of r] D(8) [of g r] not_used by auto
  qed (rule map_okD [OF m]; assumption)+
qed

lemma map_ok_lru:
  assumes "map_ok H st" "lru_ok l" "\<forall>e \<in> set (lru_entries l). entry_ok st e" "distinct (map e_fpn (lru_entries l))"
  shows "map_ok H (st\<lparr>lru := l\<rparr>)"
proof -
  note D = map_okD [OF assms(1)]
  show ?thesis by (rule map_okI) (use D assms(2-) in \<open>simp_all add: devices_ok_def entry_ok_def used_frame_def\<close>)
qed

lemma map_ok_victim:
  assumes "map_ok H st" "lru_es st = e # es"
  shows "\<exists>l. lru_victim st = ok (Some (e_pgn e, e_fpn e, e_pte e), st\<lparr>lru := l\<rparr>) \<and> map_ok H (st\<lparr>lru := l\<rparr>) \<and> lru_entries l = es"
    and "e_pte e \<notin> e_pte ` set es" "present st (e_pte e)" "frame_of st (e_pte e) = e_fpn e"
proof -
  note D = map_okD [OF assms(1)]
  have eok: "entry_ok st e" using D(4) assms(2) by simp
  then show "present st (e_pte e)" "frame_of st (e_pte e) = e_fpn e" by (auto simp: entry_ok_def)
  show "e_pte e \<notin> e_pte ` set es"
  proof
    assume "e_pte e \<in> e_pte ` set es"
    then obtain a where a: "a \<in> set es" "e_pte e = e_pte a" by (rule imageE) simp
    with D(4) [of a] eok assms(2) have "e_fpn e = e_fpn a" by (simp add: entry_ok_def)
    moreover have "e_fpn e \<notin> e_fpn ` set es" using D(3) assms(2) by simp
    ultimately show False using a(1) by (metis imageI)
  qed
  obtain l where l: "find_LRU_victim_page (lru st) = ok (Some (e_pgn e, e_fpn e, e_pte e), l)" "lru_ok l" "lru_entries l = es"
    using lru.victim_some [OF D(2) assms(2)] by metis
  have "\<forall>a \<in> set es. entry_ok st a" using D(4) assms(2) by simp
  moreover have "distinct (map e_fpn es)" using D(3) assms(2) by simp
  ultimately have "map_ok H (st\<lparr>lru := l\<rparr>)" using l(3) by (intro map_ok_lru [OF assms(1) l(2)]) simp_all
  with l show "\<exists>l. lru_victim st = ok (Some (e_pgn e, e_fpn e, e_pte e), st\<lparr>lru := l\<rparr>) \<and> map_ok H (st\<lparr>lru := l\<rparr>) \<and> lru_entries l = es"
    by (intro exI [of _ l]) (simp add: lru_victim_def)
qed

lemma lru_victim_empty: "map_ok H st \<Longrightarrow> lru_es st = [] \<Longrightarrow> lru_victim st = ok (None, st)"
  using lru.victim_none [of "lru st"] map_okD(2) by (auto simp: lru_victim_def)

lemma map_ok_swp:
  assumes "map_ok H st" "ready mp" "\<forall>f \<in> set (free_fp_list mp). frame_in mp f"
  shows "map_ok H (st\<lparr>mswp := mp\<rparr>)"
  by (rule map_ok_cong [OF assms(1)]) (use map_okD(1) [OF assms(1)] assms(2,3) in \<open>auto simp: devices_ok_def\<close>)

lemma map_ok_swp_get:
  assumes "map_ok H st" "free_fp_list (mswp st) = g # gs"
  shows "map_ok H (st\<lparr>mswp := (mswp st)\<lparr>free_fp_list := gs\<rparr>\<rparr>)" "frame_in (mswp st) g"
  using map_okD(1) [OF assms(1)] assms(2)
  by (auto simp: devices_ok_def intro!: map_ok_swp [OF assms(1)])

lemma map_ok_swp_put:
  assumes "map_ok H st" "frame_in (mswp st) f"
  shows "map_ok H (st\<lparr>mswp := (mswp st)\<lparr>free_fp_list := f # free_fp_list (mswp st)\<rparr>\<rparr>)"
  by (rule map_ok_swp [OF assms(1)]) (use map_okD(1) [OF assms(1)] assms(2) in \<open>auto simp: devices_ok_def\<close>)

lemma map_ok_cp_out: "map_ok H st \<Longrightarrow> map_ok H (st\<lparr>mswp := copy_frame (mram st) f (mswp st) g\<rparr>)"
  by (rule map_ok_swp) (auto dest: map_okD(1) simp: devices_ok_def)

lemma map_ok_ram:
  assumes "map_ok H st" "ready mp" "maxsz mp = maxsz (mram st)" "free_fp_list mp = free_fp_list (mram st)"
  shows "map_ok H (st\<lparr>mram := mp\<rparr>)"
  by (rule map_ok_cong [OF assms(1)])
    (use map_okD(1) [OF assms(1)] assms(2-) in \<open>auto simp: devices_ok_def frames_ok_def frame_in_def\<close>)

lemma map_ok_cp_in: "map_ok H st \<Longrightarrow> map_ok H (st\<lparr>mram := copy_frame (mswp st) g (mram st) f\<rparr>)"
  by (rule map_ok_ram) (auto dest: map_okD(1) simp: devices_ok_def)

lemma present_set_pte:
  "present (set_pte r w st) x \<longleftrightarrow> (if x = r then in_table r \<and> bit w 31 else present st x)"
  by (simp add: present_def pte_of_set_pte)

lemma frame_of_set_pte: "frame_of (set_pte r w st) x = (if x = r then PAGING_PTE_FPN w else frame_of st x)"
  by (simp add: frame_of_def pte_of_set_pte)

lemma devices_ok_set_pte [simp]: "devices_ok (set_pte r w st) = devices_ok st"
  by (simp add: devices_ok_def)

lemma used_frame_set_pte [simp]: "used_frame (set_pte r w st) = used_frame st"
  by (simp add: used_frame_def fun_eq_iff)

lemma entry_ok_set_pte:
  "entry_ok st e \<Longrightarrow> e_pte e \<noteq> r \<Longrightarrow> entry_ok (set_pte r w st) e"
  by (simp add: entry_ok_def present_set_pte frame_of_set_pte)

text \<open>Taking a page off-line frees its frame for the caller.\<close>

lemma map_ok_set_swap:
  assumes "map_ok H st" "present st r" "r \<notin> e_pte ` set (lru_es st)"
  shows "map_ok (insert (frame_of st r) H) (set_pte r (pte_set_swap w t g) st)"
proof -
  note D = map_okD [OF assms(1)]
  have absent: "present (set_pte r (pte_set_swap w t g) st) x \<longleftrightarrow> x \<noteq> r \<and> present st x" for x
    by (simp add: present_set_pte)
  have fr: "x \<noteq> r \<Longrightarrow> frame_of (set_pte r (pte_set_swap w t g) st) x = frame_of st x" for x
    by (simp add: frame_of_set_pte)
  show ?thesis
  proof (rule map_okI)
    show "entry_ok (set_pte r (pte_set_swap w t g) st) e" if "e \<in> set (lru_es (set_pte r (pte_set_swap w t g) st))" for e
    proof -
      from that have e: "e \<in> set (lru_es st)" by simp
      with assms(3) have "e_pte e \<noteq> r" by (metis imageI)
      with D(4) [OF e] show ?thesis by (rule entry_ok_set_pte)
    qed
    show "frame_of (set_pte r (pte_set_swap w t g) st) x \<noteq> f"
      if "f \<in> insert (frame_of st r) H" "present (set_pte r (pte_set_swap w t g) st) x" for f x
      using that D(6) [of x r] D(8) [of f x] assms(2) by (auto simp: absent fr)
    show "used_frame (set_pte r (pte_set_swap w t g) st) f" if "f \<in> insert (frame_of st r) H" for f
      using that D(5) [OF assms(2)] D(7) [of f] by auto
  qed (use D(1-3,5) D(6) in \<open>auto simp: absent fr\<close>)
qed

text \<open>Mapping an absent page to a held frame.\<close>

lemma map_ok_set_fpn:
  assumes "map_ok (insert f H) st" "f \<notin> H" "\<not> present st r" "in_table r"
  shows "map_ok H (set_pte r (pte_set_fpn w f) st)" "present (set_pte r (pte_set_fpn w f) st) r"
    "frame_of (set_pte r (pte_set_fpn w f) st) r = f"
proof -
  note D = map_okD [OF assms(1)]
  have b: "0 \<le> f" "f < 8192" using used_frame_bound [OF D(1)] D(7) [of f] by auto
  have pr: "present (set_pte r (pte_set_fpn w f) st) x \<longleftrightarrow> x = r \<or> present st x" for x
    using assms(4) by (simp add: present_set_pte)
  have fr: "frame_of (set_pte r (pte_set_fpn w f) st) x = (if x = r then f else frame_of st x)" for x
    using b by (simp add: frame_of_set_pte)
  show "present (set_pte r (pte_set_fpn w f) st) r" "frame_of (set_pte r (pte_set_fpn w f) st) r = f"
    by (simp_all add: pr fr)
  show "map_ok H (set_pte r (pte_set_fpn w f) st)"
  proof (rule map_okI)
    show "entry_ok (set_pte r (pte_set_fpn w f) st) e" if "e \<in> set (lru_es (set_pte r (pte_set_fpn w f) st))" for e
    proof -
      from that have e: "entry_ok st e" using D(4) by simp
      with assms(3) have "e_pte e \<noteq> r" by (auto simp: entry_ok_def)
      with e show ?thesis by (rule entry_ok_set_pte)
    qed
    show "x = y" if "present (set_pte r (pte_set_fpn w f) st) x" "present (set_pte r (pte_set_fpn w f) st) y"
      "frame_of (set_pte r (pte_set_fpn w f) st) x = frame_of (set_pte r (pte_set_fpn w f) st) y" for x y
    proof (cases "x = r \<or> y = r")
      case True
      with that D(8) [of f x] D(8) [of f y] show ?thesis by (auto simp: pr fr split: if_splits)
    next
      case False
      with that have "present st x" "present st y" "frame_of st x = frame_of st y" by (simp_all add: pr fr)
      then show ?thesis by (rule D(6))
    qed
    show "used_frame (set_pte r (pte_set_fpn w f) st) (frame_of (set_pte r (pte_set_fpn w f) st) x)"
      if "present (set_pte r (pte_set_fpn w f) st) x" for x
      using that D(5) [of x] D(7) [of f] by (auto simp: pr fr)
    show "frame_of (set_pte r (pte_set_fpn w f) st) x \<noteq> g" if "g \<in> H" "present (set_pte r (pte_set_fpn w f) st) x" for g x
      using that D(8) [of g x] assms(2) by (auto simp: pr fr)
    show "used_frame (set_pte r (pte_set_fpn w f) st) g" if "g \<in> H" for g using that D(7) [of g] by simp
  qed (use D(1-3) in auto)
qed

text \<open>Operations on the LRU list.\<close>

lemma lru_use_ok:
  assumes "map_ok H st" "lru_es st \<noteq> []"
  shows "\<exists>l. lru_use w st = ok (st\<lparr>lru := l\<rparr>) \<and> map_ok H (st\<lparr>lru := l\<rparr>) \<and>
    lru_entries l = touch (PAGING_PTE_FPN w) (lru_es st)"
proof -
  note D = map_okD [OF assms(1)]
  obtain l where l: "update_LRU_lst w (lru st) = ok l" "lru_ok l"
      "lru_entries l = touch (PAGING_PTE_FPN w) (lru_es st)"
    using lru.use_ok [OF D(2) assms(2), of w] by metis
  have "map_ok H (st\<lparr>lru := l\<rparr>)" by (rule map_ok_lru [OF assms(1) l(2)]) (use l(3) D(3,4) in simp_all)
  with l show ?thesis by (intro exI [of _ l]) (simp add: lru_use_def)
qed

lemma lru_use_map_ok:
  assumes "map_ok H st" "lru_use w st = ok st'"
  shows "map_ok H st' \<and> st' = st\<lparr>lru := lru st'\<rparr>"
proof (cases "lru_es st = []")
  case True
  from lru.use_null [OF map_okD(2) [OF assms(1)] True] assms(2) show ?thesis by (simp add: lru_use_def)
next
  case False
  obtain l where "lru_use w st = ok (st\<lparr>lru := l\<rparr>)" "map_ok H (st\<lparr>lru := l\<rparr>)"
    using lru_use_ok [OF assms(1) False, of w] by metis
  with assms(2) show ?thesis by auto
qed

lemma lru_add_ok:
  assumes "map_ok H st" "present st r"
  shows "\<exists>l. lru_add r st = ok (st\<lparr>lru := l\<rparr>) \<and> map_ok H (st\<lparr>lru := l\<rparr>) \<and>
    lru_entries l = insert_page \<lparr>e_pte = r, e_fpn = frame_of st r, e_pgn = snd r\<rparr> (lru_es st)"
proof -
  note D = map_okD [OF assms(1)]
  let ?e = "\<lparr>e_pte = r, e_fpn = frame_of st r, e_pgn = snd r\<rparr>"
  obtain l where l: "add_LRU_page r (pte_of st r) (snd r) (lru st) = ok l" "lru_ok l"
      "lru_entries l = insert_page ?e (lru_es st)"
    using lru.add_ok [OF D(2), of r "pte_of st r" "snd r"] unfolding frame_of_def by metis
  have "entry_ok st ?e" using assms(2) D(5) by (simp add: entry_ok_def)
  with D(4) have "\<forall>e \<in> set (lru_entries l). entry_ok st e" by (auto simp: l(3) insert_page_def)
  then have "map_ok H (st\<lparr>lru := l\<rparr>)" using D(3) by (intro map_ok_lru [OF assms(1) l(2)]) (simp_all add: l(3))
  with l assms(2) show ?thesis by (intro exI [of _ l]) (simp add: lru_add_def pte_at_eq present_def)
qed

end
