(* ===== verification/Faults.thy ===== *)
theory Faults
  imports Frames
begin

text \<open>
  Page faults: what \<open>pg_getpage\<close> does on each of its branches, and what \<open>pg_setval\<close> and \<open>pg_getval\<close> do
  to the bytes of the pages in RAM.
\<close>

section \<open>What a page fault leaves alone\<close>

definition same_maps :: "paging \<Rightarrow> paging \<Rightarrow> bool" where
  "same_maps st st' \<longleftrightarrow> vmemsz st' = vmemsz st \<and> lock_mm st' = lock_mm st \<and>
     (\<forall>p. mmap (mm_of st' p) = mmap (mm_of st p) \<and> symrgtbl (mm_of st' p) = symrgtbl (mm_of st p))"

lemma same_maps_refl [simp]: "same_maps st st"
  by (simp add: same_maps_def)

lemma same_maps_trans [trans]: "same_maps st st1 \<Longrightarrow> same_maps st1 st2 \<Longrightarrow> same_maps st st2"
  by (simp add: same_maps_def)

lemma same_maps_update [simp]:
  "same_maps st (st'\<lparr>mram := x\<rparr>) = same_maps st st'" "same_maps st (st'\<lparr>mswp := y\<rparr>) = same_maps st st'"
  "same_maps st (st'\<lparr>lru := z\<rparr>) = same_maps st st'" "same_maps st (st'\<lparr>lock_vm := b\<rparr>) = same_maps st st'"
  "same_maps st (set_pte r w st') = same_maps st st'" "same_maps st (MEM_unlock st') = same_maps st st'"
  by (auto simp: same_maps_def set_pte_def set_mm_def MEM_unlock_def)

lemma MEM_unlock_simps [simp]:
  "mram (MEM_unlock st) = mram st" "mswp (MEM_unlock st) = mswp st" "lru (MEM_unlock st) = lru st"
  "pte_of (MEM_unlock st) = pte_of st" "present (MEM_unlock st) = present st" "frame_of (MEM_unlock st) = frame_of st"
  "lock_vm (MEM_unlock st) = False" "lock_mm (MEM_unlock st) = lock_mm st" "vmemsz (MEM_unlock st) = vmemsz st"
  "mm_of (MEM_unlock st) = mm_of st" "map_ok H (MEM_unlock st) = map_ok H st"
  by (simp_all add: MEM_unlock_def)

lemma copy_frame_free_list [simp]:
  "copy_frame (src\<lparr>free_fp_list := l\<rparr>) sf dst df = copy_frame src sf dst df"
  "copy_frame src sf (dst\<lparr>free_fp_list := l\<rparr>) df = (copy_frame src sf dst df)\<lparr>free_fp_list := l\<rparr>"
  by (simp_all add: copy_frame_def cong: if_cong)

section \<open>The branches of pg_getpage\<close>

lemma getpage_present:
  assumes "map_ok H st" "\<not> lock_vm st" "present st (pid, pg)"
  shows "\<exists>st'. pg_getpage pid pg st = ok (0, Some (frame_of st (pid, pg)), st') \<and> map_ok H st' \<and> \<not> lock_vm st' \<and>
    same_maps st st' \<and> pte_of st' = pte_of st \<and> mram st' = mram st \<and> mswp st' = mswp st \<and>
    lru_es st' = insert_page \<lparr>e_pte = (pid, pg), e_fpn = frame_of st (pid, pg), e_pgn = pg\<rparr> (lru_es st)"
proof -
  let ?st = "st\<lparr>lock_vm := True\<rparr>"
  have m: "map_ok H ?st" "present ?st (pid, pg)" using assms by simp_all
  obtain l where l: "lru_add (pid, pg) ?st = ok (?st\<lparr>lru := l\<rparr>)" "map_ok H (?st\<lparr>lru := l\<rparr>)"
    "lru_entries l = insert_page \<lparr>e_pte = (pid, pg), e_fpn = frame_of st (pid, pg), e_pgn = pg\<rparr> (lru_es st)"
    using lru_add_ok [OF m] by auto
  have "pg_getpage pid pg st = ok (0, Some (frame_of st (pid, pg)), MEM_unlock (?st\<lparr>lru := l\<rparr>))"
    using assms l(1) by (simp add: pg_getpage_def MEM_lock_def pte_at_eq present_def frame_of_def)
  with l(2,3) show ?thesis by (intro exI [of _ "MEM_unlock (?st\<lparr>lru := l\<rparr>)"]) simp
qed

lemma getpage_free_frame:
  assumes "map_ok H st" "\<not> lock_vm st" "\<not> present st (pid, pg)" "in_table (pid, pg)"
    and "free_fp_list (mram st) = f # fs" "frame_in (mswp st) (frame_of st (pid, pg))"
  shows "\<exists>st'. pg_getpage pid pg st = ok (0, Some f, st') \<and> map_ok H st' \<and> \<not> lock_vm st' \<and> same_maps st st' \<and>
    pte_of st' = (pte_of st)((pid, pg) := pte_set_fpn (pte_of st (pid, pg)) f) \<and>
    mram st' = copy_frame (mswp st) (frame_of st (pid, pg)) ((mram st)\<lparr>free_fp_list := fs\<rparr>) f \<and> mswp st' = mswp st \<and>
    present st' (pid, pg) \<and> frame_of st' (pid, pg) = f"
proof -
  let ?r = "(pid, pg)" and ?t = "frame_of st (pid, pg)"
  let ?st0 = "st\<lparr>lock_vm := True\<rparr>"
  let ?st1 = "?st0\<lparr>mram := (mram ?st0)\<lparr>free_fp_list := fs\<rparr>\<rparr>"
  let ?st2 = "?st1\<lparr>mram := copy_frame (mswp ?st1) ?t (mram ?st1) f\<rparr>"
  let ?st3 = "set_pte ?r (pte_set_fpn (pte_of ?st2 ?r) f) ?st2"
  have m1: "map_ok (insert f H) ?st1" "f \<notin> H" "frame_in (mram ?st1) f"
    using map_ok_ram_get [of H ?st0 f fs] assms(1,5) by auto
  have m2: "map_ok (insert f H) ?st2" using m1(1) by (rule map_ok_cp_in)
  have m3: "map_ok H ?st3" "present ?st3 ?r" "frame_of ?st3 ?r = f"
    using map_ok_set_fpn [OF m2 m1(2), of ?r] assms(3,4) by auto
  obtain l where l: "lru_add ?r ?st3 = ok (?st3\<lparr>lru := l\<rparr>)" "map_ok H (?st3\<lparr>lru := l\<rparr>)"
    using lru_add_ok [OF m3(1,2)] by metis
  have cp: "cp_in ?t f ?st1 = ok ?st2"
    using cp_in_eq [OF map_okD(1) [OF m1(1)] m1(3)] assms(6) by simp
  have "pg_getpage pid pg st = ok (0, Some f, MEM_unlock (?st3\<lparr>lru := l\<rparr>))"
    using assms(2-5) l(1) cp m3(3) map_okD(1) [of H ?st0] assms(1)
    by (simp add: pg_getpage_def MEM_lock_def pte_at_eq upd_pte_eq present_def ram_get_eq frame_of_def)
  with l(2) m3 show ?thesis
    by (intro exI [of _ "MEM_unlock (?st3\<lparr>lru := l\<rparr>)"]) (auto simp: pte_of_set_pte)
qed

text \<open>The lemmas below share the start of the slow path: RAM has no free frame.\<close>

lemma getpage_slow:
  assumes "map_ok H st" "\<not> lock_vm st" "\<not> present st (pid, pg)" "in_table (pid, pg)" "free_fp_list (mram st) = []"
  shows "ram_get (st\<lparr>lock_vm := True\<rparr>) = ok (- 1, None, st\<lparr>lock_vm := True\<rparr>)"
    "pte_at (pid, pg) (st\<lparr>lock_vm := True\<rparr>) = ok (pte_of st (pid, pg))"
    "MEM_lock st = ok (st\<lparr>lock_vm := True\<rparr>)" "\<not> bit (pte_of st (pid, pg)) 31"
  using assms map_okD(1) [of H "st\<lparr>lock_vm := True\<rparr>"]
  by (simp_all add: ram_get_eq pte_at_eq MEM_lock_def present_def)

lemma getpage_no_victim:
  assumes "map_ok H st" "\<not> lock_vm st" "\<not> present st (pid, pg)" "in_table (pid, pg)" "free_fp_list (mram st) = []"
    and "lru_es st = []" "free_fp_list (mswp st) = g # gs"
  shows "pg_getpage pid pg st = Inl Uninitialised"
  using lru_victim_empty [of H "st\<lparr>lock_vm := True\<rparr>"] assms map_okD(1) [of H "st\<lparr>lock_vm := True\<rparr>"]
  by (simp add: pg_getpage_def getpage_slow [OF assms(1-5)] swp_get_eq)

text \<open>A victim, if there is one, is taken off the list even when swap turns out to be full.\<close>

lemma take_victim:
  assumes "map_ok H st"
  shows "\<exists>vic l. lru_victim st = ok (vic, st\<lparr>lru := l\<rparr>) \<and> map_ok H (st\<lparr>lru := l\<rparr>) \<and> lru_entries l = tl (lru_es st)"
proof (cases "lru_es st")
  case Nil
  with lru_victim_empty [OF assms] assms show ?thesis by (intro exI [of _ None] exI [of _ "lru st"]) simp
next
  case (Cons e es)
  with map_ok_victim(1) [OF assms Cons] show ?thesis by auto
qed

lemma getpage_out_of_swap:
  assumes "map_ok H st" "\<not> lock_vm st" "\<not> present st (pid, pg)" "in_table (pid, pg)" "free_fp_list (mram st) = []"
    and "free_fp_list (mswp st) = []"
  shows "\<exists>st'. pg_getpage pid pg st = ok (- 3000, None, st') \<and> map_ok H st' \<and> \<not> lock_vm st' \<and> same_maps st st' \<and>
    pte_of st' = pte_of st \<and> mram st' = mram st \<and> mswp st' = mswp st \<and> lru_es st' = tl (lru_es st)"
proof -
  let ?st0 = "st\<lparr>lock_vm := True\<rparr>"
  have "map_ok H ?st0" using assms by simp
  then obtain vic l where l: "lru_victim ?st0 = ok (vic, ?st0\<lparr>lru := l\<rparr>)"
    "map_ok H (?st0\<lparr>lru := l\<rparr>)" "lru_entries l = tl (lru_es ?st0)"
    using take_victim by metis
  have "swp_get (?st0\<lparr>lru := l\<rparr>) = ok (- 1, None, ?st0\<lparr>lru := l\<rparr>)"
    using map_okD(1) [OF l(2)] assms(6) by (simp add: swp_get_eq)
  with l(1) have "pg_getpage pid pg st = ok (- 3000, None, MEM_unlock (?st0\<lparr>lru := l\<rparr>))"
    by (simp add: pg_getpage_def getpage_slow [OF assms(1-5)])
  with l(2,3) show ?thesis by (intro exI [of _ "MEM_unlock (?st0\<lparr>lru := l\<rparr>)"]) simp
qed

lemma getpage_evict_run:
  assumes "MEM_lock st = ok st0" "pte_at (pid, pg) st0 = ok w" "\<not> bit w 31" "ram_get st0 = ok (- 1, None, st0)"
    "lru_victim st0 = ok (Some (vp, f, v), st1)" "swp_get st1 = ok (0, Some g, st2)" "cp_out f g st2 = ok st3"
    "cp_in (PAGING_PTE_FPN w) f st3 = ok st4"
    "upd_pte v (\<lambda>w. pte_set_swap w index_of_active_mswp g) st4 = ok st5"
    "upd_pte (pid, pg) (\<lambda>w. pte_set_fpn w f) st5 = ok st6" "swp_put (PAGING_PTE_FPN w) st6 = ok st7"
    "lru_add (pid, pg) st7 = ok st8" "pte_at (pid, pg) st8 = ok w'"
  shows "pg_getpage pid pg st = ok (0, Some (PAGING_PTE_FPN w'), MEM_unlock st8)"
  using assms by (simp add: pg_getpage_def)

lemma getpage_evict:
  fixes st pid pg e g
  defines "r \<equiv> (pid, pg)" and "t \<equiv> frame_of st (pid, pg)" and "v \<equiv> e_pte e" and "f \<equiv> e_fpn e"
  defines "swp1 \<equiv> copy_frame (mram st) f (mswp st) g"
  assumes "map_ok H st" "\<not> lock_vm st" "\<not> present st (pid, pg)" "in_table (pid, pg)" "free_fp_list (mram st) = []"
    and "lru_es st = e # es" "free_fp_list (mswp st) = g # gs" "frame_in (mswp st) t"
  shows "\<exists>st'. pg_getpage pid pg st = ok (0, Some f, st') \<and> map_ok H st' \<and> \<not> lock_vm st' \<and> same_maps st st' \<and>
    pte_of st' = (pte_of st)(v := pte_set_swap (pte_of st v) 0 g, r := pte_set_fpn (pte_of st r) f) \<and>
    mram st' = copy_frame swp1 t (mram st) f \<and> mswp st' = swp1\<lparr>free_fp_list := t # gs\<rparr> \<and>
    present st' r \<and> frame_of st' r = f"
proof -
  note slow = getpage_slow [OF assms(6-10)]
  let ?st0 = "st\<lparr>lock_vm := True\<rparr>"
  have m0: "map_ok H ?st0" "lru_es ?st0 = e # es" using assms(6,11) by simp_all
  obtain l where l: "lru_victim ?st0 = ok (Some (e_pgn e, f, v), ?st0\<lparr>lru := l\<rparr>)"
    "map_ok H (?st0\<lparr>lru := l\<rparr>)" "lru_entries l = es"
    using map_ok_victim(1) [OF m0] unfolding f_def v_def by metis
  have v: "v \<notin> e_pte ` set es" "present st v" "frame_of st v = f" "in_table v"
    using map_ok_victim(2-4) [OF m0] by (auto simp: v_def f_def present_def)
  then have rv: "r \<noteq> v" using assms(8) by (auto simp: r_def)
  let ?st2 = "?st0\<lparr>lru := l, mswp := (mswp st)\<lparr>free_fp_list := gs\<rparr>\<rparr>"
  have m2: "map_ok H ?st2" "frame_in (mswp st) g"
    using map_ok_swp_get [OF l(2), of g gs] assms(12) by auto
  have get: "swp_get (?st0\<lparr>lru := l\<rparr>) = ok (0, Some g, ?st2)"
    using map_okD(1) [OF l(2)] assms(12) by (simp add: swp_get_eq)
  let ?st3 = "?st2\<lparr>mswp := copy_frame (mram ?st2) f (mswp ?st2) g\<rparr>"
  have m3: "map_ok H ?st3" using m2(1) by (rule map_ok_cp_out)
  have fin: "frame_in (mram st) f" using map_okD(5) [OF assms(6) v(2)] v(3) by (simp add: used_frame_def)
  have out: "cp_out f g ?st2 = ok ?st3" using map_okD(1) [OF m2(1)] fin m2(2) by (simp add: cp_out_eq)
  let ?st4 = "?st3\<lparr>mram := copy_frame (mswp ?st3) t (mram ?st3) f\<rparr>"
  have m4: "map_ok H ?st4" using m3 by (rule map_ok_cp_in)
  have inn: "cp_in t f ?st3 = ok ?st4" using map_okD(1) [OF m3] fin assms(13) by (simp add: cp_in_eq)
  let ?st5 = "set_pte v (pte_set_swap (pte_of ?st4 v) 0 g) ?st4"
  have m5: "map_ok (insert f H) ?st5"
    using map_ok_set_swap [OF m4, of v] v l(3) by simp
  have fH: "f \<notin> H" using map_okD(8) [OF assms(6) _ v(2)] v(3) by blast
  let ?st6 = "set_pte r (pte_set_fpn (pte_of ?st5 r) f) ?st5"
  have m6: "map_ok H ?st6" "present ?st6 r" "frame_of ?st6 r = f"
    using map_ok_set_fpn [OF m5 fH, of r] assms(8,9) rv unfolding r_def by (simp_all add: present_set_pte)
  let ?st7 = "?st6\<lparr>mswp := (mswp ?st6)\<lparr>free_fp_list := t # free_fp_list (mswp ?st6)\<rparr>\<rparr>"
  have m7: "map_ok H ?st7" "present ?st7 r" using map_ok_swp_put [OF m6(1), of t] assms(13) m6(2) by auto
  have put: "swp_put t ?st6 = ok ?st7" using map_okD(1) [OF m6(1)] by (rule swp_put_eq)
  obtain l' where add: "lru_add r ?st7 = ok (?st7\<lparr>lru := l'\<rparr>)" "map_ok H (?st7\<lparr>lru := l'\<rparr>)"
    using lru_add_ok [OF m7] by metis
  have swp: "mswp ?st7 = swp1\<lparr>free_fp_list := t # gs\<rparr>" "mram ?st7 = copy_frame swp1 t (mram st) f"
    by (simp_all add: swp1_def)
  have pte: "pte_of ?st7 = (pte_of st)(v := pte_set_swap (pte_of st v) 0 g, r := pte_set_fpn (pte_of st r) f)"
    using rv by (auto simp: pte_of_set_pte fun_eq_iff)
  have steps: "upd_pte v (\<lambda>w. pte_set_swap w index_of_active_mswp g) ?st4 = ok ?st5"
    "upd_pte r (\<lambda>w. pte_set_fpn w f) ?st5 = ok ?st6" "pte_at r (?st7\<lparr>lru := l'\<rparr>) = ok (pte_of ?st7 r)"
    using v(4) assms(9) by (simp_all add: upd_pte_eq pte_at_eq index_of_active_mswp_def r_def)
  have "pg_getpage pid pg st = ok (0, Some (PAGING_PTE_FPN (pte_of ?st7 r)), MEM_unlock (?st7\<lparr>lru := l'\<rparr>))"
    using slow(3,2,4,1) l(1) get out inn [unfolded t_def frame_of_def] steps(1) steps(2) [unfolded r_def]
      put [unfolded t_def frame_of_def] add(1) [unfolded r_def t_def frame_of_def]
      steps(3) [unfolded r_def t_def frame_of_def]
    unfolding r_def t_def frame_of_def by (rule getpage_evict_run)
  moreover have "PAGING_PTE_FPN (pte_of ?st7 r) = f" using m6(3) by (simp add: frame_of_def)
  ultimately have "pg_getpage pid pg st = ok (0, Some f, MEM_unlock (?st7\<lparr>lru := l'\<rparr>))" by simp
  with add(2) m6 swp pte show ?thesis
    by (intro exI [of _ "MEM_unlock (?st7\<lparr>lru := l'\<rparr>)"]) simp
qed

text \<open>A target outside the swap device stops the run in the copy.\<close>

lemma cp_in_bad:
  assumes "devices_ok st" "\<not> frame_in (mswp st) g" "0 \<le> g" "0 \<le> f"
  shows "\<exists>e. cp_in g f st = Inl e"
  using assms cp_in_inside(1) [of g f st] by (cases "cp_in g f st") auto

lemma getpage_bad_target:
  assumes "map_ok H st" "\<not> lock_vm st" "\<not> present st (pid, pg)" "in_table (pid, pg)"
    and "\<not> frame_in (mswp st) (frame_of st (pid, pg))"
    and "free_fp_list (mram st) \<noteq> [] \<or> free_fp_list (mswp st) \<noteq> []"
  shows "\<exists>e. pg_getpage pid pg st = Inl e"
proof (cases "free_fp_list (mram st)")
  case (Cons f fs)
  let ?st1 = "st\<lparr>lock_vm := True, mram := (mram st)\<lparr>free_fp_list := fs\<rparr>\<rparr>"
  have m: "map_ok (insert f H) ?st1" "frame_in (mram st) f"
    using map_ok_ram_get [of H "st\<lparr>lock_vm := True\<rparr>" f fs] assms(1) Cons by auto
  obtain e where "cp_in (frame_of st (pid, pg)) f ?st1 = Inl e"
    using cp_in_bad [OF map_okD(1) [OF m(1)], of "frame_of st (pid, pg)" f] assms(5) m(2)
    by (auto simp: frame_of_def frame_in_def)
  then have "pg_getpage pid pg st = Inl e"
    using assms(2-4) Cons map_okD(1) [of H "st\<lparr>lock_vm := True\<rparr>"] assms(1)
    by (simp add: pg_getpage_def MEM_lock_def pte_at_eq present_def ram_get_eq frame_of_def)
  then show ?thesis ..
next
  case ram: Nil
  note slow = getpage_slow [OF assms(1-4) ram]
  obtain g gs where g: "free_fp_list (mswp st) = g # gs" using assms(6) ram by (cases "free_fp_list (mswp st)") auto
  show ?thesis
  proof (cases "lru_es st")
    case Nil
    with getpage_no_victim [OF assms(1-4) ram _ g] show ?thesis by simp
  next
    case (Cons e es)
    let ?st0 = "st\<lparr>lock_vm := True\<rparr>"
    have m0: "map_ok H ?st0" "lru_es ?st0 = e # es" using assms(1) Cons by simp_all
    obtain l where l: "lru_victim ?st0 = ok (Some (e_pgn e, e_fpn e, e_pte e), ?st0\<lparr>lru := l\<rparr>)" "map_ok H (?st0\<lparr>lru := l\<rparr>)"
      using map_ok_victim(1) [OF m0] by metis
    let ?st2 = "?st0\<lparr>lru := l, mswp := (mswp st)\<lparr>free_fp_list := gs\<rparr>\<rparr>"
    have m2: "map_ok H ?st2" "frame_in (mswp st) g" using map_ok_swp_get [OF l(2), of g gs] g by auto
    have get: "swp_get (?st0\<lparr>lru := l\<rparr>) = ok (0, Some g, ?st2)"
      using map_okD(1) [OF l(2)] g by (simp add: swp_get_eq)
    have f: "frame_in (mram st) (e_fpn e)"
      using map_okD(4) [OF assms(1), of e] Cons by (simp add: entry_ok_def used_frame_def)
    let ?st3 = "?st2\<lparr>mswp := copy_frame (mram ?st2) (e_fpn e) (mswp ?st2) g\<rparr>"
    have out: "cp_out (e_fpn e) g ?st2 = ok ?st3" using map_okD(1) [OF m2(1)] f m2(2) by (simp add: cp_out_eq)
    have d3: "devices_ok ?st3" by (rule map_okD(1) [OF map_ok_cp_out [OF m2(1)]])
    obtain x where "cp_in (frame_of st (pid, pg)) (e_fpn e) ?st3 = Inl x"
      using cp_in_bad [OF d3, of "frame_of st (pid, pg)" "e_fpn e"] assms(5) f
      by (auto simp: frame_of_def frame_in_def)
    then have "pg_getpage pid pg st = Inl x"
      unfolding pg_getpage_def using slow l(1) get out by (simp add: frame_of_def)
    then show ?thesis ..
  qed
qed

text \<open>Whatever the branch, a call that returns keeps the invariant.\<close>

lemma getpage_inv:
  assumes "map_ok H st" "\<not> lock_vm st" "pg_getpage pid pg st = ok (ret, fo, st')"
  shows "map_ok H st' \<and> \<not> lock_vm st' \<and> same_maps st st' \<and>
    (ret = 0 \<and> present st' (pid, pg) \<and> fo = Some (frame_of st' (pid, pg)) \<or> ret = - 3000 \<and> fo = None)"
proof -
  have t: "in_table (pid, pg)"
    using assms(2,3) by (auto simp: pg_getpage_def MEM_lock_def pte_at_eq split: if_splits)
  show ?thesis
  proof (cases "present st (pid, pg)")
    case True
    with getpage_present [OF assms(1,2) True] assms(3) show ?thesis
      by (auto simp: present_def frame_of_def)
  next
    case absent: False
    show ?thesis
    proof (cases "free_fp_list (mram st) = [] \<and> free_fp_list (mswp st) = []")
      case True
      with getpage_out_of_swap [OF assms(1,2) absent t] assms(3) show ?thesis by auto
    next
      case False
      then have target: "frame_in (mswp st) (frame_of st (pid, pg))"
        using getpage_bad_target [OF assms(1,2) absent t] assms(3) by auto
      show ?thesis
      proof (cases "free_fp_list (mram st)")
        case (Cons f fs)
        from getpage_free_frame [OF assms(1,2) absent t Cons target] assms(3) show ?thesis by auto
      next
        case Nil
        with False obtain g gs where g: "free_fp_list (mswp st) = g # gs"
          by (cases "free_fp_list (mswp st)") auto
        have "lru_es st \<noteq> []" using getpage_no_victim [OF assms(1,2) absent t Nil _ g] assms(3) by auto
        then obtain e es where es: "lru_es st = e # es" by (cases "lru_es st") auto
        from getpage_evict [OF assms(1,2) absent t Nil es g target] assms(3) show ?thesis by auto
      qed
    qed
  qed
qed

section \<open>Bytes\<close>

text \<open>The byte that a mapped virtual address stands for.\<close>

definition phys :: "paging \<Rightarrow> int \<Rightarrow> int \<Rightarrow> int \<Rightarrow> int" where
  "phys st vid pid addr = phyaddr_of vid (frame_of st (pid, PAGING_PGN addr)) (PAGING_OFFST addr)"

definition vbyte :: "paging \<Rightarrow> int \<Rightarrow> int \<Rightarrow> int \<Rightarrow> byte" where
  "vbyte st vid pid addr = storage (mram st) (phys st vid pid addr)"

abbreviation mapped :: "paging \<Rightarrow> int \<Rightarrow> int \<Rightarrow> bool" where
  "mapped st pid addr \<equiv> present st (pid, PAGING_PGN addr)"

definition cell_of :: "int \<Rightarrow> int \<Rightarrow> int" where
  "cell_of vid off = (if vid = 0 then off else 255 - off)"

lemma cell_of_bounds: "0 \<le> off \<Longrightarrow> off < 256 \<Longrightarrow> 0 \<le> cell_of vid off \<and> cell_of vid off < 256"
  by (simp add: cell_of_def)

lemma phyaddr_of_eq: "phyaddr_of vid f off = f * 256 + cell_of vid off"
  unfolding phyaddr_of_def PAGING_ADDR_FPN_LOBIT_def NBITS_PAGESZ
  by (simp add: push_bit_eq_mult cell_of_def PAGING_PAGESZ_def)

lemma frame_cell_inj:
  fixes f f' c c' :: int
  assumes "f * 256 + c = f' * 256 + c'" "0 \<le> c" "c < 256" "0 \<le> c'" "c' < 256"
  shows "f = f' \<and> c = c'"
proof -
  have "f = (f * 256 + c) div 256" "f' = (f' * 256 + c') div 256" using assms(2-5) by simp_all
  with assms(1) show ?thesis by simp
qed

text \<open>Two mapped addresses share a byte of RAM only if they share the page and the cell in it.\<close>

lemma phys_inj:
  assumes "map_ok H st" "mapped st pid addr" "mapped st pid' addr'" "phys st vid pid addr = phys st vid' pid' addr'"
  shows "pid = pid' \<and> PAGING_PGN addr = PAGING_PGN addr' \<and>
    cell_of vid (PAGING_OFFST addr) = cell_of vid' (PAGING_OFFST addr')"
proof -
  have "frame_of st (pid, PAGING_PGN addr) = frame_of st (pid', PAGING_PGN addr') \<and>
      cell_of vid (PAGING_OFFST addr) = cell_of vid' (PAGING_OFFST addr')"
    using assms(4) unfolding phys_def phyaddr_of_eq
    by (rule frame_cell_inj) (simp_all add: cell_of_bounds)
  with map_okD(6) [OF assms(1-3)] show ?thesis by simp
qed

lemma phys_inside:
  assumes "map_ok H st" "mapped st pid addr"
  shows "in_storage (mram st) (phys st vid pid addr)"
  unfolding phys_def phyaddr_of_eq using map_okD(5) [OF assms] cell_of_bounds [of "PAGING_OFFST addr" vid]
  by (intro frame_in_storage) (simp_all add: used_frame_def)

lemma map_ok_write:
  assumes "map_ok H st"
  shows "map_ok H (st\<lparr>mram := (mram st)\<lparr>storage := s\<rparr>\<rparr>)"
  by (rule map_ok_ram [OF assms]) (use map_okD(1) [OF assms] in \<open>simp_all add: devices_ok_def\<close>)

lemma setval_after_getpage:
  assumes "pg_getpage pid (PAGING_PGN addr) st = ok (0, Some (frame_of st1 (pid, PAGING_PGN addr)), st1)"
    "map_ok H st1" "mapped st1 pid addr"
  shows "pg_setval pid addr v vid st =
    ok (0, st1\<lparr>mram := (mram st1)\<lparr>storage := (storage (mram st1))(phys st1 vid pid addr := v)\<rparr>\<rparr>)"
  using assms phys_inside [OF assms(2,3), of vid] map_okD(1) [OF assms(2)]
  by (simp add: pg_setval_def phys_def devices_ok_def MEMPHY_write_ready)

lemma getval_after_getpage:
  assumes "pg_getpage pid (PAGING_PGN addr) st = ok (0, Some (frame_of st1 (pid, PAGING_PGN addr)), st1)"
    "map_ok H st1" "mapped st1 pid addr"
  shows "pg_getval pid addr vid st = ok (0, Some (vbyte st1 vid pid addr), st1)"
  using assms phys_inside [OF assms(2,3), of vid] map_okD(1) [OF assms(2)]
  by (simp add: pg_getval_def vbyte_def phys_def devices_ok_def MEMPHY_read_ready)

lemma setval_inv:
  assumes "map_ok H st" "\<not> lock_vm st" "pg_setval pid addr v vid st = ok (ret, st')"
  shows "map_ok H st' \<and> \<not> lock_vm st' \<and> same_maps st st' \<and> (ret = 0 \<and> mapped st' pid addr \<and> vbyte st' vid pid addr = v \<or> ret = - 1)"
proof -
  obtain r fo st1 where g: "pg_getpage pid (PAGING_PGN addr) st = ok (r, fo, st1)"
    using assms(3) by (auto simp: pg_setval_def Let_def)
  note I = getpage_inv [OF assms(1,2) g]
  show ?thesis
  proof (cases "r = 0")
    case True
    with I have "pg_setval pid addr v vid st =
        ok (0, st1\<lparr>mram := (mram st1)\<lparr>storage := (storage (mram st1))(phys st1 vid pid addr := v)\<rparr>\<rparr>)"
      using setval_after_getpage [of pid addr st st1 H] g by auto
    with assms(3) I True show ?thesis by (auto simp: map_ok_write vbyte_def phys_def)
  next
    case False
    with I assms(3) g show ?thesis by (auto simp: pg_setval_def)
  qed
qed

lemma getval_inv:
  assumes "map_ok H st" "\<not> lock_vm st" "pg_getval pid addr vid st = ok (ret, d, st')"
  shows "map_ok H st' \<and> \<not> lock_vm st' \<and> same_maps st st' \<and>
    (ret = 0 \<and> mapped st' pid addr \<and> d = Some (vbyte st' vid pid addr) \<or> ret = - 1 \<and> d = None)"
proof -
  obtain r fo st1 where g: "pg_getpage pid (PAGING_PGN addr) st = ok (r, fo, st1)"
    using assms(3) by (auto simp: pg_getval_def Let_def)
  note I = getpage_inv [OF assms(1,2) g]
  show ?thesis
  proof (cases "r = 0")
    case True
    with I have "pg_getval pid addr vid st = ok (0, Some (vbyte st1 vid pid addr), st1)"
      using getval_after_getpage [of pid addr st st1 H] g by auto
    with assms(3) I True show ?thesis by auto
  next
    case False
    with I assms(3) g show ?thesis by (auto simp: pg_getval_def)
  qed
qed

section \<open>Properties of page faults\<close>

definition page_byte :: "paging \<Rightarrow> pte_ref \<Rightarrow> int \<Rightarrow> byte" where
  "page_byte st r i = frame_bytes (mram st) (frame_of st r) i"

text \<open>All pages in RAM other than \<open>v\<close> are still there, in their frames and with their content.\<close>

definition others_kept :: "pte_ref \<Rightarrow> paging \<Rightarrow> paging \<Rightarrow> bool" where
  "others_kept v st st' \<longleftrightarrow> (\<forall>x. present st x \<and> x \<noteq> v \<longrightarrow>
     present st' x \<and> pte_of st' x = pte_of st x \<and> (\<forall>i. 0 \<le> i \<and> i < 256 \<longrightarrow> page_byte st' x i = page_byte st x i))"

lemma others_keptI:
  assumes "\<And>x. present st x \<Longrightarrow> x \<noteq> v \<Longrightarrow> pte_of st' x = pte_of st x"
    "\<And>x i. present st x \<Longrightarrow> x \<noteq> v \<Longrightarrow> 0 \<le> i \<Longrightarrow> i < 256 \<Longrightarrow>
       frame_bytes (mram st') (frame_of st x) i = frame_bytes (mram st) (frame_of st x) i"
  shows "others_kept v st st'"
  using assms by (auto simp: others_kept_def present_def page_byte_def frame_of_def)

text \<open>
  C5. A page fault with RAM full and room in swap: the least recently used page \<open>v\<close> is written to
  the free swap frame \<open>g\<close> and marked as swapped there, its frame receives the swap frame that the
  faulting entry designates and the faulting page is mapped to it; every other page in RAM keeps
  frame and content, ownership of frames stays exclusive and the lock is released.
\<close>

theorem page_fault_eviction:
  assumes "map_ok H st" "\<not> lock_vm st" "\<not> present st (pid, pg)" "in_table (pid, pg)" "free_fp_list (mram st) = []"
    and "lru_es st = e # es" "free_fp_list (mswp st) = g # gs" "frame_in (mswp st) (frame_of st (pid, pg))"
  shows "\<exists>st'. pg_getpage pid pg st = ok (0, Some (e_fpn e), st') \<and> map_ok H st' \<and> \<not> lock_vm st' \<and>
    present st' (pid, pg) \<and> frame_of st' (pid, pg) = e_fpn e \<and>
    \<not> present st' (e_pte e) \<and> PAGING_SWPOFF (pte_of st' (e_pte e)) = g mod 2097152 \<and>
    (\<forall>i. 0 \<le> i \<and> i < 256 \<longrightarrow>
       frame_bytes (mswp st') g i = page_byte st (e_pte e) i \<and>
       page_byte st' (pid, pg) i =
         (if frame_of st (pid, pg) = g then page_byte st (e_pte e) i
          else frame_bytes (mswp st) (frame_of st (pid, pg)) i)) \<and>
    others_kept (e_pte e) st st'"
proof -
  let ?v = "e_pte e" and ?r = "(pid, pg)"
  have v: "present st ?v" "frame_of st ?v = e_fpn e" using map_ok_victim(3,4) [OF assms(1,6)] by auto
  obtain st' where st': "pg_getpage pid pg st = ok (0, Some (e_fpn e), st')" "map_ok H st'" "\<not> lock_vm st'"
    "pte_of st' = (pte_of st)(?v := pte_set_swap (pte_of st ?v) 0 g, ?r := pte_set_fpn (pte_of st ?r) (e_fpn e))"
    "mram st' = copy_frame (copy_frame (mram st) (e_fpn e) (mswp st) g) (frame_of st ?r) (mram st) (e_fpn e)"
    "mswp st' = (copy_frame (mram st) (e_fpn e) (mswp st) g)\<lparr>free_fp_list := frame_of st ?r # gs\<rparr>"
    "present st' ?r" "frame_of st' ?r = e_fpn e"
    using getpage_evict [OF assms] by metis
  have rv: "?r \<noteq> ?v" using v(1) assms(3) by auto
  have swp: "frame_bytes (mswp st') g i = page_byte st ?v i" if "0 \<le> i" "i < 256" for i
  proof -
    have "frame_bytes (mswp st') g i = frame_bytes (copy_frame (mram st) (e_fpn e) (mswp st) g) g i"
      by (simp add: st'(6) frame_bytes_def)
    with that v(2) show ?thesis by (simp add: frame_bytes_copy_frame page_byte_def)
  qed
  have new: "page_byte st' ?r i = (if frame_of st ?r = g then page_byte st ?v i else frame_bytes (mswp st) (frame_of st ?r) i)"
    if "0 \<le> i" "i < 256" for i
    using that v(2) by (simp add: page_byte_def st'(5,8) frame_bytes_copy_frame)
  have others: "others_kept ?v st st'"
  proof (rule others_keptI)
    show "pte_of st' x = pte_of st x" if "present st x" "x \<noteq> ?v" for x
      using that assms(3) by (auto simp: st'(4))
    show "frame_bytes (mram st') (frame_of st x) i = frame_bytes (mram st) (frame_of st x) i"
      if "present st x" "x \<noteq> ?v" "0 \<le> i" "i < 256" for x i
      using map_okD(6) [OF assms(1) that(1) v(1)] that v(2) by (auto simp: st'(5) frame_bytes_copy_frame)
  qed
  have "pte_of st' ?v = pte_set_swap (pte_of st ?v) 0 g" using rv by (simp add: st'(4))
  then have gone: "\<not> present st' ?v" "PAGING_SWPOFF (pte_of st' ?v) = g mod 2097152"
    by (simp_all add: present_def SWPOFF_pte_set_swap)
  from st'(1-3,7,8) gone swp new others show ?thesis by (intro exI [of _ st']) simp
qed

text \<open>
  A fault with RAM and swap both full returns -3000 and changes no page and no frame, but the
  page chosen as victim is gone from the LRU list: it stays in RAM and can no longer be chosen.
\<close>

theorem page_fault_out_of_swap:
  assumes "map_ok H st" "\<not> lock_vm st" "\<not> present st (pid, pg)" "in_table (pid, pg)" "free_fp_list (mram st) = []"
    and "lru_es st = e # es" "free_fp_list (mswp st) = []"
  shows "\<exists>st'. pg_getpage pid pg st = ok (- 3000, None, st') \<and> map_ok H st' \<and> \<not> lock_vm st' \<and>
    pte_of st' = pte_of st \<and> mram st' = mram st \<and> mswp st' = mswp st \<and> lru_es st' = es"
  using getpage_out_of_swap [OF assms(1-5,7)] assms(6) by auto

text \<open>The slot number that is loaded is the one stored only for slot 0.\<close>

lemma slot_fixed: "32 * (k mod 256) = k \<longleftrightarrow> k = (0::int)"
proof
  assume *: "32 * (k mod 256) = k"
  define m q where "m = k mod 256" and "q = k div 256"
  have "m = k - 256 * q" unfolding m_def q_def by (simp add: minus_mult_div_eq_mod)
  moreover have "32 * m = k" using * by (simp add: m_def)
  ultimately have "m = 256 * (4 * m - 33 * q)" by simp
  then have "256 dvd m" by (metis dvd_triv_left)
  moreover have "m mod 256 = m" by (simp add: m_def)
  ultimately have "m = 0" by (metis dvd_eq_mod_eq_0)
  with * show "k = 0" by (simp add: m_def)
qed simp

text \<open>
  C38. The slot a swapped page is read back from is wrong. For an entry that \<open>pte_set_swap\<close> made for swap
  frame \<open>k\<close> of device 0, the fault loads swap frame \<open>32 * (k mod 256)\<close>, because the FPN field is read where
  the offset field was written: both when RAM has a free frame and when a page is evicted to a swap frame
  other than the one loaded. That frame is inside the device by hypothesis; it is \<open>k\<close> only for \<open>k = 0\<close>, so
  only a page that went to swap frame 0 comes back from where it was put.
\<close>

theorem page_fault_wrong_slot:
  assumes "map_ok H st" "\<not> lock_vm st" "in_table (pid, pg)" "pte_of st (pid, pg) = pte_set_swap w 0 k"
    and "frame_in (mswp st) (32 * (k mod 256))"
    and "free_fp_list (mram st) = f # fs \<or>
      free_fp_list (mram st) = [] \<and> lru_es st = e # es \<and> e_fpn e = f \<and> free_fp_list (mswp st) = g # gs \<and> g \<noteq> 32 * (k mod 256)"
  shows "(\<exists>st'. pg_getpage pid pg st = ok (0, Some f, st') \<and> map_ok H st' \<and> present st' (pid, pg) \<and>
      (\<forall>i. 0 \<le> i \<and> i < 256 \<longrightarrow> page_byte st' (pid, pg) i = frame_bytes (mswp st) (32 * (k mod 256)) i)) \<and>
    (32 * (k mod 256) = k \<longleftrightarrow> k = 0)"
proof
  let ?r = "(pid, pg)" and ?k = "32 * (k mod 256)"
  have t: "frame_of st ?r = ?k" "\<not> present st ?r"
    using assms(4) by (simp_all add: frame_of_def present_def FPN_pte_set_swap)
  have "\<exists>st'. pg_getpage pid pg st = ok (0, Some f, st') \<and> map_ok H st' \<and> present st' ?r \<and> frame_of st' ?r = f \<and>
    (\<forall>i. 0 \<le> i \<and> i < 256 \<longrightarrow> frame_bytes (mram st') f i = frame_bytes (mswp st) ?k i)"
    using assms(6)
  proof (elim disjE conjE)
    assume *: "free_fp_list (mram st) = f # fs"
    obtain st' where st': "pg_getpage pid pg st = ok (0, Some f, st')" "map_ok H st'"
      "mram st' = copy_frame (mswp st) ?k ((mram st)\<lparr>free_fp_list := fs\<rparr>) f" "present st' ?r" "frame_of st' ?r = f"
      using getpage_free_frame [OF assms(1,2) t(2) assms(3) *] assms(5) t(1) by metis
    have "frame_bytes (mram st') f i = frame_bytes (mswp st) ?k i" if "0 \<le> i" "i < 256" for i
      unfolding st'(3) frame_bytes_copy_frame [OF that] by simp
    with st' show ?thesis by blast
  next
    assume *: "free_fp_list (mram st) = []" "lru_es st = e # es" "e_fpn e = f" "free_fp_list (mswp st) = g # gs" "g \<noteq> ?k"
    obtain st' where st': "pg_getpage pid pg st = ok (0, Some f, st')" "map_ok H st'"
      "mram st' = copy_frame (copy_frame (mram st) f (mswp st) g) ?k (mram st) f" "present st' ?r" "frame_of st' ?r = f"
      using getpage_evict [OF assms(1,2) t(2) assms(3) *(1,2,4)] assms(5) t(1) *(3) by auto
    have "frame_bytes (mram st') f i = frame_bytes (mswp st) ?k i" if "0 \<le> i" "i < 256" for i
      unfolding st'(3) frame_bytes_copy_frame [OF that] using *(5) by simp
    with st' show ?thesis by blast
  qed
  then obtain st' where st': "pg_getpage pid pg st = ok (0, Some f, st')" "map_ok H st'" "present st' ?r" "frame_of st' ?r = f"
    "\<forall>i. 0 \<le> i \<and> i < 256 \<longrightarrow> frame_bytes (mram st') f i = frame_bytes (mswp st) ?k i" by blast
  show "\<exists>st'. pg_getpage pid pg st = ok (0, Some f, st') \<and> map_ok H st' \<and> present st' ?r \<and>
      (\<forall>i. 0 \<le> i \<and> i < 256 \<longrightarrow> page_byte st' ?r i = frame_bytes (mswp st) ?k i)"
    by (intro exI [of _ st'] conjI, (fact st'(1-3))+) (unfold page_byte_def st'(4), fact st'(5))
  show "?k = k \<longleftrightarrow> k = 0" by (rule slot_fixed)
qed

section \<open>A concrete state\<close>

text \<open>Process 1 has its page 0 in frame 0; the free lists of the devices (two frames each) are arguments.\<close>

definition lru1 :: lru_state where
  "lru1 = (case add_LRU_page (1, 0) (pte_set_fpn 0 0) 0 lru0 of Inr l \<Rightarrow> l | Inl _ \<Rightarrow> lru0)"

lemma lru1_ok: "lru_ok lru1" "lru_entries lru1 = [\<lparr>e_pte = (1, 0), e_fpn = 0, e_pgn = 0\<rparr>]"
proof -
  obtain l where "add_LRU_page (1, 0) (pte_set_fpn 0 0) 0 lru0 = ok l" "lru_ok l"
    "lru_entries l = insert_page \<lparr>e_pte = (1, 0), e_fpn = PAGING_PTE_FPN (pte_set_fpn 0 0), e_pgn = 0\<rparr> []"
    using lru.add_ok [OF lru0_ok(1), of "(1, 0)" "pte_set_fpn 0 0" 0] unfolding lru0_ok(2) by metis
  then show "lru_ok lru1" "lru_entries lru1 = [\<lparr>e_pte = (1, 0), e_fpn = 0, e_pgn = 0\<rparr>]"
    by (simp_all add: lru1_def insert_page_def)
qed

definition st_ex :: "int list \<Rightarrow> int list \<Rightarrow> paging" where
  "st_ex rfree sfree =
     \<lparr>mm_of = (\<lambda>p. (mm_ex [] [])\<lparr>pgd := (\<lambda>g. if p = 1 \<and> g = 0 then pte_set_fpn 0 0 else pte_set_swap 0 0 0)\<rparr>),
      mram = dev512\<lparr>free_fp_list := rfree\<rparr>, mswp = dev512\<lparr>free_fp_list := sfree\<rparr>, lru = lru1,
      vmemsz = 1024, lock_vm = False, lock_mm = False\<rparr>"

lemma st_ex_pte: "pte_of (st_ex rf sf) r = (if r = (1, 0) then pte_set_fpn 0 0 else pte_set_swap 0 0 0)"
  by (auto simp: pte_of_def st_ex_def prod_eq_iff)

lemma st_ex_present [simp]: "present (st_ex rf sf) r \<longleftrightarrow> r = (1, 0)"
  by (auto simp: present_def st_ex_pte in_table_def PAGING_MAX_PGN_eq)

lemma st_ex_frame [simp]: "frame_of (st_ex rf sf) r = 0"
  by (simp add: frame_of_def st_ex_pte FPN_pte_set_swap)

lemma st_ex_fields [simp]:
  "free_fp_list (mram (st_ex rf sf)) = rf" "free_fp_list (mswp (st_ex rf sf)) = sf"
  "lru_es (st_ex rf sf) = [\<lparr>e_pte = (1, 0), e_fpn = 0, e_pgn = 0\<rparr>]" "\<not> lock_vm (st_ex rf sf)"
  "frame_in (mswp (st_ex rf sf)) 0"
  by (simp_all add: st_ex_def lru1_ok)

lemma st_ex_lru: "lru (st_ex rf sf) = lru1"
  by (simp add: st_ex_def)

lemma st_ex_ok:
  assumes "rf = [] \<or> rf = [1]" "\<forall>g \<in> set sf. g = 0 \<or> g = 1"
  shows "map_ok {} (st_ex rf sf)"
proof (rule map_okI)
  show d: "devices_ok (st_ex rf sf)"
    using assms by (auto simp: devices_ok_def st_ex_def dev512_def ready_def frames_ok_def frame_in_def)
  have u: "used_frame (st_ex rf sf) 0"
    using assms(1) by (auto simp: used_frame_def st_ex_def dev512_def frame_in_def)
  then show "used_frame (st_ex rf sf) (frame_of (st_ex rf sf) r)" for r by simp
  show "entry_ok (st_ex rf sf) e" if "e \<in> set (lru_es (st_ex rf sf))" for e
    using that u by (simp add: entry_ok_def)
qed (simp_all add: st_ex_lru lru1_ok)

lemma in_table_ex [simp]: "in_table (1, 1)"
  by (simp add: in_table_def PAGING_MAX_PGN_eq)

theorem page_fault_eviction_witness:
  "\<exists>st'. pg_getpage 1 1 (st_ex [] [1]) = ok (0, Some 0, st') \<and> present st' (1, 1) \<and> \<not> present st' (1, 0) \<and>
     PAGING_SWPOFF (pte_of st' (1, 0)) = 1"
proof -
  have "map_ok {} (st_ex [] [1])" by (rule st_ex_ok) simp_all
  from page_fault_eviction [OF this, of 1 1 "\<lparr>e_pte = (1, 0), e_fpn = 0, e_pgn = 0\<rparr>" "[]" 1 "[]"]
  show ?thesis by auto
qed

theorem page_fault_out_of_swap_witness:
  "\<exists>st'. pg_getpage 1 1 (st_ex [] []) = ok (- 3000, None, st') \<and> lru_es st' = []"
proof -
  have "map_ok {} (st_ex [] [])" by (rule st_ex_ok) simp_all
  from page_fault_out_of_swap [OF this, of 1 1 "\<lparr>e_pte = (1, 0), e_fpn = 0, e_pgn = 0\<rparr>" "[]"]
  show ?thesis by auto
qed

theorem page_fault_wrong_slot_witness:
  "(\<exists>st'. pg_getpage 1 1 (st_ex [1] []) = ok (0, Some 1, st') \<and> present st' (1, 1)) \<and>
   (\<exists>st'. pg_getpage 1 1 (st_ex [] [1]) = ok (0, Some 0, st') \<and> present st' (1, 1))"
proof -
  have "map_ok {} (st_ex [1] [])" "map_ok {} (st_ex [] [1])" by (rule st_ex_ok; simp)+
  from page_fault_wrong_slot [OF this(1), of 1 1 0 0 1 "[]"]
    page_fault_wrong_slot [OF this(2), of 1 1 0 0 0 _ "\<lparr>e_pte = (1, 0), e_fpn = 0, e_pgn = 0\<rparr>" "[]" 1 "[]"]
  show ?thesis by (auto simp: st_ex_pte)
qed

end
