(* ===== verification/Access.thy ===== *)
theory Access
  imports Faults
begin

text \<open>
  The instructions READ, WRITE and FREE: bounds of a region, the bytes they change, and the
  ownership invariant.
\<close>

text \<open>Changing areas or symbols does not touch the mapping.\<close>

lemma set_mm_areas:
  assumes "pgd mm = pgd (mm_of st pid)"
  shows "pte_of (set_mm pid mm st) = pte_of st" "present (set_mm pid mm st) = present st"
    "frame_of (set_mm pid mm st) = frame_of st" "map_ok H (set_mm pid mm st) = map_ok H st"
proof -
  show p: "pte_of (set_mm pid mm st) = pte_of st" using assms by (auto simp: pte_of_def set_mm_def fun_eq_iff)
  then show q: "present (set_mm pid mm st) = present st" "frame_of (set_mm pid mm st) = frame_of st"
    by (simp_all add: present_def frame_of_def fun_eq_iff)
  show "map_ok H (set_mm pid mm st) = map_ok H st"
    unfolding map_ok_def devices_ok_def entry_ok_def used_frame_def q by (simp add: set_mm_def)
qed

lemma set_mm_simps [simp]:
  "mram (set_mm pid mm st) = mram st" "mswp (set_mm pid mm st) = mswp st" "lru (set_mm pid mm st) = lru st"
  "vmemsz (set_mm pid mm st) = vmemsz st" "lock_vm (set_mm pid mm st) = lock_vm st"
  "lock_mm (set_mm pid mm st) = lock_mm st" "mm_of (set_mm pid mm st) pid = mm"
  by (simp_all add: set_mm_def)

section \<open>Regions of the symbol table\<close>

definition region_at :: "paging \<Rightarrow> int \<Rightarrow> int \<Rightarrow> int \<Rightarrow> int \<Rightarrow> int \<Rightarrow> bool" where
  "region_at st pid rgid vid s e \<longleftrightarrow> 0 \<le> rgid \<and> rgid < 30 \<and>
     symrgtbl (mm_of st pid) rgid = \<lparr>vmaid = vid, rg_start = s, rg_end = e\<rparr> \<and>
     (vid = 0 \<and> 0 \<le> s \<and> s < e \<and> e < 2147483648 \<or> vid = 1 \<and> 0 \<le> e \<and> e < s \<and> s < 2147483648) \<and>
     get_vma_by_num (mm_of st pid) vid \<noteq> None"

definition addr_at :: "int \<Rightarrow> int \<Rightarrow> int \<Rightarrow> int" where
  "addr_at vid s off = (if vid = 0 then s + off else s - off)"

lemma rg_access_region:
  assumes "region_at st pid rgid vid s e"
  shows "rg_access pid rgid off st =
    ok (if (if vid = 0 then u64 (s + off) > e else u64 (s - off) < e) then None
        else Some (vid, u64 (addr_at vid s off)))"
  using assms
  by (auto simp: region_at_def rg_access_def get_symrg_byid_def symrg_at_def PAGING_MAX_SYMTBL_SZ_def
      addr_at_def Let_def)

lemma rg_access_inside:
  assumes "region_at st pid rgid vid s e" "0 \<le> off" "off \<le> \<bar>e - s\<bar>"
  shows "rg_access pid rgid off st = ok (Some (vid, addr_at vid s off))"
    "0 \<le> addr_at vid s off" "addr_at vid s off < 2147483648" "s32 (addr_at vid s off) = addr_at vid s off"
proof -
  show "0 \<le> addr_at vid s off" "addr_at vid s off < 2147483648"
    using assms by (auto simp: region_at_def addr_at_def)
  then show "s32 (addr_at vid s off) = addr_at vid s off" by (simp add: s32_id)
  show "rg_access pid rgid off st = ok (Some (vid, addr_at vid s off))"
    unfolding rg_access_region [OF assms(1)] using assms by (auto simp: region_at_def addr_at_def c_conv)
qed

text \<open>
  C25. The bound check of READ and WRITE on a valid region, for every offset a 32-bit operand can give. In the
  stack the offset is accepted exactly when the address \<open>s + off\<close> is not negative and at most \<open>e\<close>: an offset
  inside the region, but also a negative one (an operand from 2147483648 on) that leads below the region.
  In the heap it is accepted exactly when the address \<open>s - off\<close> is at least \<open>e\<close> or is negative and wraps
  around: besides the offsets inside the region, every negative one, which leads above it, and every one
  beyond the start address. The address used is that sum or difference, modulo 2 to the 64.
\<close>

theorem region_bound_check:
  assumes "region_at st pid rgid vid s e" "- 2147483648 \<le> off" "off < 2147483648"
  shows "rg_access pid rgid off st = ok (
    if vid = 0 then (if 0 \<le> s + off \<and> s + off \<le> e then Some (0, s + off) else None)
    else if s - off < 0 then Some (1, s - off + 18446744073709551616)
    else if e \<le> s - off then Some (1, s - off) else None)"
proof -
  have r: "vid = 0 \<and> 0 \<le> s \<and> s < e \<and> e < 2147483648 \<or> vid = 1 \<and> 0 \<le> e \<and> e < s \<and> s < 2147483648"
    using assms(1) by (simp add: region_at_def)
  have up: "u64 x = x + 18446744073709551616" if "- 4294967296 \<le> x" "x < 0" for x
    unfolding u64_def using that by (subst mod_add_self2 [symmetric], subst mod_pos_pos_trivial) auto
  have id: "u64 x = x" if "0 \<le> x" "x < 4294967296" for x using that by (intro u64_id) auto
  from r show ?thesis
  proof (elim disjE conjE)
    assume v: "vid = 0" "0 \<le> s" "s < e" "e < 2147483648"
    show ?thesis unfolding rg_access_region [OF assms(1)]
      using v assms(2,3) up [of "s + off"] id [of "s + off"] by (cases "s + off < 0") (simp_all add: addr_at_def)
  next
    assume v: "vid = 1" "0 \<le> e" "e < s" "s < 2147483648"
    show ?thesis unfolding rg_access_region [OF assms(1)]
      using v assms(2,3) up [of "s - off"] id [of "s - off"] by (cases "s - off < 0") (simp_all add: addr_at_def)
  qed
qed

section \<open>Reading and writing mapped bytes\<close>

lemma touched_not_empty: "insert_page x (lru_es st) = lru_es st' \<Longrightarrow> lru_es st' \<noteq> []"
  by (metis insert_page_not_Nil)

lemma do_write_mapped:
  assumes "map_ok H st" "\<not> lock_vm st" "region_at st pid rgid vid s e" "0 \<le> off" "off \<le> \<bar>e - s\<bar>"
    and "mapped st pid (addr_at vid s off)"
  shows "\<exists>st'. do_write pid rgid off v st = ok (0, st') \<and> map_ok H st' \<and> \<not> lock_vm st' \<and> same_maps st st' \<and>
    pte_of st' = pte_of st \<and> mswp st' = mswp st \<and>
    mram st' = (mram st)\<lparr>storage := (storage (mram st))(phys st vid pid (addr_at vid s off) := v)\<rparr>"
proof -
  let ?a = "addr_at vid s off"
  note acc = rg_access_inside [OF assms(3-5)]
  have vid: "(if vid = 0 then 0 else 1) = vid" using assms(3) by (auto simp: region_at_def)
  obtain st1 where st1: "pg_getpage pid (PAGING_PGN ?a) st = ok (0, Some (frame_of st (pid, PAGING_PGN ?a)), st1)"
    "map_ok H st1" "\<not> lock_vm st1" "same_maps st st1" "pte_of st1 = pte_of st" "mram st1 = mram st" "mswp st1 = mswp st"
    "lru_es st1 \<noteq> []"
    using getpage_present [OF assms(1,2,6)] by (metis insert_page_not_Nil)
  have obs: "frame_of st1 = frame_of st" "present st1 = present st"
    using st1(5) by (simp_all add: frame_of_def present_def fun_eq_iff)
  let ?st2 = "st1\<lparr>mram := (mram st1)\<lparr>storage := (storage (mram st1))(phys st1 vid pid ?a := v)\<rparr>\<rparr>"
  have set: "pg_setval pid ?a v vid st = ok (0, ?st2)"
    by (rule setval_after_getpage [OF _ st1(2)]) (use st1(1) assms(6) obs in simp_all)
  have m2: "map_ok H ?st2" "lru_es ?st2 \<noteq> []" using map_ok_write [OF st1(2)] st1(8) by simp_all
  have t: "in_table (pid, PAGING_PGN ?a)" using assms(6) by (simp add: present_def)
  obtain l where l: "lru_use (pte_of ?st2 (pid, PAGING_PGN ?a)) ?st2 = ok (?st2\<lparr>lru := l\<rparr>)" "map_ok H (?st2\<lparr>lru := l\<rparr>)"
    using lru_use_ok [OF m2] by metis
  have "do_write pid rgid off v st = ok (0, ?st2\<lparr>lru := l\<rparr>)"
    using acc set l(1) t by (simp add: do_write_def vid pte_at_eq)
  with l(2) st1 obs show ?thesis
    by (intro exI [of _ "?st2\<lparr>lru := l\<rparr>"]) (simp add: phys_def)
qed

lemma do_read_mapped:
  assumes "map_ok H st" "\<not> lock_vm st" "region_at st pid rgid vid s e" "0 \<le> off" "off \<le> \<bar>e - s\<bar>"
    and "mapped st pid (addr_at vid s off)"
  shows "\<exists>st'. do_read pid rgid off st = ok (0, Some (vbyte st vid pid (addr_at vid s off)), st') \<and> map_ok H st' \<and>
    \<not> lock_vm st' \<and> same_maps st st' \<and> pte_of st' = pte_of st \<and> mswp st' = mswp st \<and> mram st' = mram st"
proof -
  let ?a = "addr_at vid s off"
  note acc = rg_access_inside [OF assms(3-5)]
  obtain st1 where st1: "pg_getpage pid (PAGING_PGN ?a) st = ok (0, Some (frame_of st (pid, PAGING_PGN ?a)), st1)"
    "map_ok H st1" "\<not> lock_vm st1" "same_maps st st1" "pte_of st1 = pte_of st" "mram st1 = mram st" "mswp st1 = mswp st"
    "lru_es st1 \<noteq> []"
    using getpage_present [OF assms(1,2,6)] by (metis insert_page_not_Nil)
  have obs: "frame_of st1 = frame_of st" "present st1 = present st"
    using st1(5) by (simp_all add: frame_of_def present_def fun_eq_iff)
  have get: "pg_getval pid ?a vid st = ok (0, Some (vbyte st1 vid pid ?a), st1)"
    by (rule getval_after_getpage [OF _ st1(2)]) (use st1(1) assms(6) obs in simp_all)
  have t: "in_table (pid, PAGING_PGN ?a)" using assms(6) by (simp add: present_def)
  obtain l where l: "lru_use (pte_of st1 (pid, PAGING_PGN ?a)) st1 = ok (st1\<lparr>lru := l\<rparr>)" "map_ok H (st1\<lparr>lru := l\<rparr>)"
    using lru_use_ok [OF st1(2,8)] by metis
  have "do_read pid rgid off st = ok (0, Some (vbyte st1 vid pid ?a), st1\<lparr>lru := l\<rparr>)"
    using acc get l(1) t by (simp add: do_read_def pte_at_eq)
  moreover have "vbyte st1 vid pid ?a = vbyte st vid pid ?a" by (simp add: vbyte_def phys_def obs st1(6))
  ultimately show ?thesis using l(2) st1 by (intro exI [of _ "st1\<lparr>lru := l\<rparr>"]) simp
qed

lemma region_at_same_maps: "same_maps st st' \<Longrightarrow> region_at st' pid rgid vid s e = region_at st pid rgid vid s e"
  by (simp add: same_maps_def region_at_def get_vma_by_num_def)

lemma present_cong: "pte_of st' = pte_of st \<Longrightarrow> present st' = present st \<and> frame_of st' = frame_of st"
  by (simp add: frame_of_def present_def fun_eq_iff)

lemma region_operands:
  assumes "region_at st pid rgid vid s e" "0 \<le> off" "off \<le> \<bar>e - s\<bar>"
  shows "s32 rgid = rgid" "s32 off = off"
  using assms by (auto simp: region_at_def intro!: s32_id)

text \<open>
  C1. What WRITE stores READ returns: for an offset inside a region whose page is in RAM, WRITE
  returns 0, a READ of the same offset returns 0 and the byte written, and no other byte of any page
  in RAM, of this process or another one, is changed.
\<close>

theorem write_read_roundtrip:
  assumes "map_ok {} st" "\<not> lock_vm st" "region_at st pid rgid vid s e" "0 \<le> off" "off \<le> \<bar>e - s\<bar>"
    and "mapped st pid (addr_at vid s off)"
  shows "\<exists>st1 st2. pgwrite pid v rgid off st = ok (0, st1) \<and> pgread pid rgid off dst st1 = ok (0, Some v, st2) \<and>
    map_ok {} st1 \<and> map_ok {} st2 \<and>
    (\<forall>pid' vid' a. mapped st pid' a \<and>
       (pid', PAGING_PGN a, cell_of vid' (PAGING_OFFST a)) \<noteq>
       (pid, PAGING_PGN (addr_at vid s off), cell_of vid (PAGING_OFFST (addr_at vid s off))) \<longrightarrow>
       mapped st1 pid' a \<and> vbyte st1 vid' pid' a = vbyte st vid' pid' a)"
proof -
  let ?a = "addr_at vid s off"
  note o = region_operands [OF assms(3-5)]
  obtain st1 where st1: "do_write pid rgid off v st = ok (0, st1)" "map_ok {} st1" "\<not> lock_vm st1" "same_maps st st1"
    "pte_of st1 = pte_of st" "mram st1 = (mram st)\<lparr>storage := (storage (mram st))(phys st vid pid ?a := v)\<rparr>"
    using do_write_mapped [OF assms] by metis
  note obs = present_cong [OF st1(5)]
  have phys: "phys st1 = phys st" by (simp add: phys_def fun_eq_iff obs)
  have r1: "region_at st1 pid rgid vid s e" "mapped st1 pid ?a"
    using assms(3,6) region_at_same_maps [OF st1(4)] obs by simp_all
  obtain st2 where st2: "do_read pid rgid off st1 = ok (0, Some (vbyte st1 vid pid ?a), st2)" "map_ok {} st2"
    using do_read_mapped [OF st1(2,3) r1(1) assms(4,5) r1(2)] by metis
  have v: "vbyte st1 vid pid ?a = v" by (simp add: vbyte_def phys st1(6))
  have other: "vbyte st1 vid' pid' a = vbyte st vid' pid' a"
    if "mapped st pid' a" "(pid', PAGING_PGN a, cell_of vid' (PAGING_OFFST a)) \<noteq> (pid, PAGING_PGN ?a, cell_of vid (PAGING_OFFST ?a))"
    for pid' vid' a
    using phys_inj [OF assms(1) that(1) assms(6), of vid' vid] that(2) by (auto simp: vbyte_def phys st1(6))
  have w: "pgwrite pid v rgid off st = ok (0, st1)" "pgread pid rgid off dst st1 = ok (0, Some v, st2)"
    using st1(1) st2(1) v o by (simp_all add: pgwrite_def pgread_def)
  show ?thesis using w st1(2) st2(2) other obs by (intro exI [of _ st1] exI [of _ st2]) simp
qed

text \<open>Freed bytes are zeroed one by one.\<close>

lemma zero_loop_mapped:
  assumes "map_ok H st" "\<not> lock_vm st" "\<forall>a \<in> set as. mapped st pid a \<and> s32 a = a"
  shows "\<exists>st'. zero_loop pid vid as st = ok st' \<and> map_ok H st' \<and> \<not> lock_vm st' \<and> same_maps st st' \<and>
    pte_of st' = pte_of st \<and> mswp st' = mswp st \<and>
    (\<forall>x. storage (mram st') x = (if x \<in> phys st vid pid ` set as then 0 else storage (mram st) x))"
  using assms
proof (induction as arbitrary: st)
  case (Cons a as)
  have a: "mapped st pid a" "s32 a = a" using Cons.prems(3) by simp_all
  obtain st1 where st1: "pg_getpage pid (PAGING_PGN a) st = ok (0, Some (frame_of st (pid, PAGING_PGN a)), st1)"
    "map_ok H st1" "\<not> lock_vm st1" "same_maps st st1" "pte_of st1 = pte_of st" "mram st1 = mram st" "mswp st1 = mswp st"
    using getpage_present [OF Cons.prems(1,2) a(1)] by metis
  note obs1 = present_cong [OF st1(5)]
  let ?st2 = "st1\<lparr>mram := (mram st1)\<lparr>storage := (storage (mram st1))(phys st1 vid pid a := 0)\<rparr>\<rparr>"
  have set: "pg_setval pid a 0 vid st = ok (0, ?st2)"
    by (rule setval_after_getpage [OF _ st1(2)]) (use st1(1) a obs1 in simp_all)
  have p2: "map_ok H ?st2" "\<not> lock_vm ?st2" "\<forall>a \<in> set as. mapped ?st2 pid a \<and> s32 a = a"
    using map_ok_write [OF st1(2)] st1(3) Cons.prems(3) obs1 by simp_all
  have phys: "phys ?st2 = phys st" by (simp add: phys_def fun_eq_iff obs1)
  obtain st' where st': "zero_loop pid vid as ?st2 = ok st'" "map_ok H st'" "\<not> lock_vm st'" "same_maps ?st2 st'"
    "pte_of st' = pte_of ?st2" "mswp st' = mswp ?st2"
    "\<forall>x. storage (mram st') x = (if x \<in> phys st vid pid ` set as then 0 else storage (mram ?st2) x)"
    using Cons.IH [OF p2] unfolding phys by metis
  have "same_maps st ?st2" using st1(4) by simp
  then have "same_maps st st'" using st'(4) by (rule same_maps_trans)
  moreover have "phys st1 = phys st" by (simp add: phys_def fun_eq_iff obs1)
  ultimately show ?case using st' set a(2) st1(5-7) by (intro exI [of _ st']) simp
qed (simp add: image_def)

text \<open>
  C24. FREE of a stack region \<open>[s, e]\<close> whose pages are in RAM returns 0, clears the symbol table
  entry and puts the region at the front of the stack's free list. The bytes from \<open>s\<close> to \<open>e - 1\<close>
  are zero afterwards; the last byte \<open>e\<close> keeps its value, as does every byte in RAM, of this process or
  another one, that is not one of the zeroed bytes: another cell of the same page, another page.
\<close>

theorem free_stack_region:
  assumes "map_ok {} st" "\<not> lock_vm st" "region_at st pid rgid 0 s e" "\<forall>a. s \<le> a \<and> a \<le> e \<longrightarrow> mapped st pid a"
    and "e < 4194304" "get_vma_by_num (mm_of st pid) 0 = Some area"
  shows "\<exists>st'. pgfree_data pid rgid st = ok (0, st') \<and> map_ok {} st' \<and> \<not> lock_vm st' \<and> pte_of st' = pte_of st \<and>
    symrgtbl (mm_of st' pid) rgid = \<lparr>vmaid = 0, rg_start = 0, rg_end = 0\<rparr> \<and>
    get_vma_by_num (mm_of st' pid) 0 =
      Some (area\<lparr>vm_freerg_list := \<lparr>vmaid = 0, rg_start = s, rg_end = e\<rparr> # vm_freerg_list area\<rparr>) \<and>
    (\<forall>a. s \<le> a \<and> a < e \<longrightarrow> vbyte st' 0 pid a = 0) \<and> vbyte st' 0 pid e = vbyte st 0 pid e \<and>
    (\<forall>pid' vid a. mapped st pid' a \<and>
       \<not> (pid' = pid \<and> (\<exists>b. s \<le> b \<and> b < e \<and> PAGING_PGN a = PAGING_PGN b \<and> cell_of vid (PAGING_OFFST a) = PAGING_OFFST b)) \<longrightarrow>
       vbyte st' vid pid' a = vbyte st vid pid' a)"
proof -
  have reg: "0 \<le> rgid" "rgid < 30" "symrgtbl (mm_of st pid) rgid = \<lparr>vmaid = 0, rg_start = s, rg_end = e\<rparr>" "0 \<le> s" "s < e"
    using assms(3) by (auto simp: region_at_def)
  have ad: "\<forall>a \<in> set [s..e - 1]. mapped st pid a \<and> s32 a = a"
    using assms(4,5) reg by (auto intro!: s32_id)
  obtain st1 where st1: "zero_loop pid 0 [s..e - 1] st = ok st1" "map_ok {} st1" "\<not> lock_vm st1" "same_maps st st1"
    "pte_of st1 = pte_of st"
    "\<forall>x. storage (mram st1) x = (if x \<in> phys st 0 pid ` set [s..e - 1] then 0 else storage (mram st) x)"
    using zero_loop_mapped [OF assms(1,2) ad] by metis
  have mm1: "mmap (mm_of st1 pid) = mmap (mm_of st pid)" "symrgtbl (mm_of st1 pid) = symrgtbl (mm_of st pid)"
    using st1(4) by (simp_all add: same_maps_def)
  let ?mm = "(mm_of st1 pid)\<lparr>symrgtbl := (symrgtbl (mm_of st1 pid))(rgid := \<lparr>vmaid = 0, rg_start = 0, rg_end = 0\<rparr>)\<rparr>"
  let ?area = "area\<lparr>vm_freerg_list := \<lparr>vmaid = 0, rg_start = s, rg_end = e\<rparr> # vm_freerg_list area\<rparr>"
  let ?st = "set_mm pid (set_vma ?mm 0 ?area) st1"
  have area: "get_vma_by_num ?mm 0 = Some area"
    using assms(6) mm1 by (simp add: get_vma_by_num_eq split: if_splits)
  have run: "pgfree_data pid rgid st = ok (0, ?st)"
    using reg st1(1) mm1 area
    by (simp add: pgfree_data_def do_free_def s32_id get_symrg_byid_def symrg_at_def set_symrg_def
        PAGING_MAX_SYMTBL_SZ_def enlist_vm_freerg_list_def Let_def)
  have same: "pte_of ?st = pte_of st" "mram ?st = mram st1" "lru ?st = lru st1" "lock_vm ?st = lock_vm st1" "mswp ?st = mswp st1"
    using st1(5) by (auto simp: pte_of_def set_mm_def fun_eq_iff)
  have m: "map_ok {} ?st"
    by (rule map_ok_cong [OF st1(2)]) (use same st1(5) map_okD(1) [OF st1(2)] in \<open>simp_all add: devices_ok_def\<close>)
  have phys: "phys ?st = phys st" using present_cong [OF same(1)] by (simp add: phys_def fun_eq_iff)
  have z: "vbyte ?st vid q a = (if phys st vid q a \<in> phys st 0 pid ` set [s..e - 1] then 0 else vbyte st vid q a)" for vid q a
    using st1(6) by (simp add: vbyte_def phys same(2))
  have others: "vbyte ?st vid q a = vbyte st vid q a" if "mapped st q a"
    "\<not> (q = pid \<and> (\<exists>b. s \<le> b \<and> b < e \<and> PAGING_PGN a = PAGING_PGN b \<and> cell_of vid (PAGING_OFFST a) = PAGING_OFFST b))" for vid q a
  proof -
    have "phys st vid q a \<notin> phys st 0 pid ` set [s..e - 1]"
    proof
      assume "phys st vid q a \<in> phys st 0 pid ` set [s..e - 1]"
      then obtain b where b: "b \<in> set [s..e - 1]" "phys st vid q a = phys st 0 pid b" by auto
      have "mapped st pid b" using ad b(1) by blast
      from phys_inj [OF assms(1) that(1) this b(2)] that(2) b(1) show False by (auto simp: cell_of_def [of 0])
    qed
    with z show ?thesis by simp
  qed
  have last: "phys st 0 pid e \<notin> phys st 0 pid ` set [s..e - 1]"
  proof
    assume "phys st 0 pid e \<in> phys st 0 pid ` set [s..e - 1]"
    then obtain a where a: "s \<le> a" "a < e" "phys st 0 pid e = phys st 0 pid a" by auto
    have "mapped st pid e" "mapped st pid a" using a(1,2) reg assms(4) by auto
    from phys_inj [OF assms(1) this a(3)] have "PAGING_PGN e = PAGING_PGN a" "PAGING_OFFST e = PAGING_OFFST a"
      by (simp_all add: cell_of_def)
    then show False using PGN_OFFST_decompose [of e] PGN_OFFST_decompose [of a] a(1,2) reg assms(5) by simp
  qed
  have g: "get_vma_by_num (mm_of ?st pid) 0 = Some ?area"
    using get_set_vma [OF area, of ?area] by (simp add: set_mm_def)
  show ?thesis
    by (intro exI [of _ ?st] conjI) (use run m same(1,4) st1(3) g z last others in \<open>simp_all add: set_mm_def\<close>)
qed

section \<open>The invariant across READ, WRITE and FREE\<close>

lemma lru_use_inv:
  assumes "map_ok H st" "\<not> lock_vm st" "lru_use w st = ok st'"
  shows "map_ok H st' \<and> \<not> lock_vm st'"
proof -
  have m: "map_ok H st' \<and> st' = st\<lparr>lru := lru st'\<rparr>" using assms(1,3) by (rule lru_use_map_ok)
  have "lock_vm (st\<lparr>lru := lru st'\<rparr>) = lock_vm st" by simp
  with m assms(2) show ?thesis by metis
qed

lemma do_read_inv:
  assumes "map_ok H st" "\<not> lock_vm st" "do_read pid rgid off st = ok (ret, d, st')"
  shows "map_ok H st' \<and> \<not> lock_vm st'"
proof -
  obtain acc where acc: "rg_access pid rgid off st = ok acc" using assms(3) by (auto simp: do_read_def)
  show ?thesis
  proof (cases acc)
    case None
    with acc assms show ?thesis by (simp add: do_read_def)
  next
    case (Some va)
    obtain vid a where va: "va = (vid, a)" by (cases va)
    obtain r1 d1 st1 w where st1: "pg_getval pid (s32 a) vid st = ok (r1, d1, st1)" "lru_use w st1 = ok st'"
      using assms(3) acc Some va by (auto simp: do_read_def)
    from getval_inv [OF assms(1,2) st1(1)] st1(2) show ?thesis using lru_use_inv by blast
  qed
qed

lemma do_write_inv:
  assumes "map_ok H st" "\<not> lock_vm st" "do_write pid rgid off v st = ok (ret, st')"
  shows "map_ok H st' \<and> \<not> lock_vm st'"
proof -
  obtain acc where acc: "rg_access pid rgid off st = ok acc" using assms(3) by (auto simp: do_write_def)
  show ?thesis
  proof (cases acc)
    case None
    with acc assms show ?thesis by (simp add: do_write_def)
  next
    case (Some va)
    obtain vid a where va: "va = (vid, a)" by (cases va)
    obtain vid' r1 st1 w where st1: "pg_setval pid (s32 a) v vid' st = ok (r1, st1)" "lru_use w st1 = ok st'"
      using assms(3) acc Some va by (auto simp: do_write_def)
    from setval_inv [OF assms(1,2) st1(1)] st1(2) show ?thesis using lru_use_inv by blast
  qed
qed

lemma zero_loop_inv:
  assumes "map_ok H st" "\<not> lock_vm st" "zero_loop pid vid as st = ok st'"
  shows "map_ok H st' \<and> \<not> lock_vm st'"
  using assms
proof (induction as arbitrary: st)
  case (Cons a as)
  obtain r st1 where 1: "pg_setval pid (s32 a) 0 vid st = ok (r, st1)" "zero_loop pid vid as st1 = ok st'"
    using Cons.prems(3) by auto
  from setval_inv [OF Cons.prems(1,2) 1(1)] 1(2) show ?case using Cons.IH by blast
qed simp

lemma do_free_inv:
  assumes "map_ok H st" "\<not> lock_vm st" "do_free pid rgid st = ok (ret, st')"
  shows "map_ok H st' \<and> \<not> lock_vm st'"
proof (cases "st' = st")
  case True
  with assms show ?thesis by simp
next
  case False
  obtain vid as st1 i rg mm v fr r mm' where
    z: "zero_loop pid vid as st = ok st1" "set_symrg (mm_of st1 pid) i rg = ok mm"
      "enlist_vm_freerg_list mm v fr = ok (r, mm')" "st' = set_mm pid mm' st1"
    using assms(3) False by (auto simp: do_free_def Let_def split: if_splits)
  have "pgd mm' = pgd (mm_of st1 pid)"
    using z(2,3) by (auto simp: set_symrg_def enlist_vm_freerg_list_def split: if_splits)
  with zero_loop_inv [OF assms(1,2) z(1)] z(4) show ?thesis by (simp add: set_mm_areas)
qed

text \<open>
  C8. Frames stay private: whatever READ, WRITE or FREE does (page faults, swapping, errors), if it
  returns then still no two mapped pages share a RAM frame, no mapped frame is in the free list,
  the LRU list only holds mapped pages with their frames, and the lock is free.
\<close>

theorem instructions_keep_ownership:
  assumes "map_ok {} st" "\<not> lock_vm st"
  shows "(\<forall>r d st'. pgread pid src off dst st = ok (r, d, st') \<longrightarrow> map_ok {} st' \<and> \<not> lock_vm st') \<and>
    (\<forall>r st'. pgwrite pid v rgid off st = ok (r, st') \<longrightarrow> map_ok {} st' \<and> \<not> lock_vm st') \<and>
    (\<forall>r st'. pgfree_data pid rgid st = ok (r, st') \<longrightarrow> map_ok {} st' \<and> \<not> lock_vm st')"
  unfolding pgread_def pgwrite_def pgfree_data_def
  using do_read_inv [OF assms] do_write_inv [OF assms] do_free_inv [OF assms] by blast

section \<open>Witnesses\<close>

text \<open>Region 0 of process 1 is \<open>[10, 99]\<close> on the stack, region 1 is \<open>[1000, 950]\<close> in the heap.\<close>

definition st_rg :: paging where
  "st_rg = set_mm 1 ((mm_of (st_ex [1] []) 1)\<lparr>symrgtbl :=
     (symrgtbl (mm_of (st_ex [1] []) 1))(0 := rg_ex 10 99, 1 := \<lparr>vmaid = 1, rg_start = 1000, rg_end = 950\<rparr>)\<rparr>) (st_ex [1] [])"

lemma st_rg_ok: "map_ok {} st_rg" "\<not> lock_vm st_rg" "present st_rg r \<longleftrightarrow> r = (1, 0)"
  using st_ex_ok [of "[1]" "[]"] unfolding st_rg_def by (simp_all add: set_mm_areas)

lemma st_rg_area: "get_vma_by_num (mm_of st_rg 1) 0 =
    Some \<lparr>vm_id = 0, vm_start = 0, vm_end = 512, sbrk = 300, vm_freerg_list = []\<rparr>"
  by (simp add: st_rg_def st_ex_def get_vma_by_num_eq mm_ex_def)

lemma st_rg_regions: "region_at st_rg 1 0 0 10 99" "region_at st_rg 1 1 1 1000 950"
  by (simp_all add: region_at_def st_rg_def rg_ex_def get_vma_by_num_eq st_ex_def mm_ex_def)

theorem region_bound_check_witness:
  "rg_access 1 0 89 st_rg = ok (Some (0, 99)) \<and> rg_access 1 0 90 st_rg = ok None \<and> rg_access 1 0 (- 5) st_rg = ok (Some (0, 5)) \<and>
   rg_access 1 1 50 st_rg = ok (Some (1, 950)) \<and> rg_access 1 1 51 st_rg = ok None \<and> rg_access 1 1 (- 5) st_rg = ok (Some (1, 1005)) \<and>
   rg_access 1 1 1001 st_rg = ok (Some (1, 18446744073709551615))"
  using region_bound_check [OF st_rg_regions(1)] region_bound_check [OF st_rg_regions(2)] by simp

theorem write_read_roundtrip_witness:
  "\<exists>st1 st2. pgwrite 1 7 0 20 st_rg = ok (0, st1) \<and> pgread 1 0 20 0 st1 = ok (0, Some 7, st2)"
proof -
  have "mapped st_rg 1 (addr_at 0 10 20)" by (simp add: st_rg_ok(3) addr_at_def PAGING_PGN_eq)
  from write_read_roundtrip [OF st_rg_ok(1,2) st_rg_regions(1) _ _ this, of 7 0] show ?thesis by auto
qed

theorem free_stack_region_witness:
  "\<exists>st'. pgfree_data 1 0 st_rg = ok (0, st') \<and> vbyte st' 0 1 10 = 0 \<and>
     symrgtbl (mm_of st' 1) 0 = \<lparr>vmaid = 0, rg_start = 0, rg_end = 0\<rparr>"
proof -
  have "\<forall>a. 10 \<le> a \<and> a \<le> 99 \<longrightarrow> mapped st_rg 1 a" by (auto simp: st_rg_ok(3) PAGING_PGN_eq)
  from free_stack_region [OF st_rg_ok(1,2) st_rg_regions(1) this _ st_rg_area] show ?thesis by auto
qed

theorem instructions_keep_ownership_witness:
  "\<exists>st'. pgwrite 1 7 0 20 st_rg = ok (0, st') \<and> map_ok {} st' \<and> \<not> lock_vm st'"
proof -
  have "mapped st_rg 1 (addr_at 0 10 20)" by (simp add: st_rg_ok(3) addr_at_def PAGING_PGN_eq)
  then have "\<exists>st'. pgwrite 1 7 0 20 st_rg = ok (0, st')"
    using do_write_mapped [OF st_rg_ok(1,2) st_rg_regions(1), of 20 7] by (auto simp: pgwrite_def s32_id)
  with instructions_keep_ownership [OF st_rg_ok(1,2)] show ?thesis by blast
qed

end
