(* ===== verification/Alloc.thy ===== *)
theory Alloc
  imports Access
begin

text \<open>
  Allocation: eviction during \<open>alloc_pages_range\<close> and during the reuse of a free region, mapping of new
  pages, growth of the stack and the heap, and the invariant of all memory instructions.
\<close>

section \<open>Evicting a page to free its frame\<close>

text \<open>The part shared by \<open>alloc_pages_range\<close> and \<open>__alloc\<close>: victim, swap frame, copy, mark.\<close>

lemma evict_steps:
  assumes "map_ok H st" "lru_victim st = ok (Some (vp, f, v), st1)" "swp_get st1 = ok (0, Some g, st2)"
    "cp_out f g st2 = ok st3" "upd_pte v (\<lambda>w. pte_set_swap w index_of_active_mswp g) st3 = ok st4"
  shows "map_ok (insert f H) st4 \<and> f \<notin> H \<and> same_maps st st4 \<and> lock_vm st4 = lock_vm st \<and>
    (\<forall>x. present st4 x \<longleftrightarrow> present st x \<and> x \<noteq> v) \<and> present st v \<and> (\<forall>x. x \<noteq> v \<longrightarrow> pte_of st4 x = pte_of st x) \<and>
    lru_es st4 = tl (lru_es st) \<and> mram st4 = mram st \<and> length (free_fp_list (mswp st4)) + 1 = length (free_fp_list (mswp st))"
proof -
  have "lru_es st \<noteq> []" using assms(1,2) lru_victim_empty [of H st] by auto
  then obtain e es where es: "lru_es st = e # es" by (cases "lru_es st") auto
  note V = map_ok_victim [OF assms(1) es]
  obtain l where l: "st1 = st\<lparr>lru := l\<rparr>" "map_ok H (st\<lparr>lru := l\<rparr>)" "lru_entries l = es" "f = e_fpn e" "v = e_pte e"
    using V(1) assms(2) by auto
  have m1: "map_ok H st1" "devices_ok st1" using l(1,2) map_okD(1) by auto
  obtain gs where g: "free_fp_list (mswp st1) = g # gs" "st2 = st1\<lparr>mswp := (mswp st1)\<lparr>free_fp_list := gs\<rparr>\<rparr>"
    using assms(3) m1(2) by (auto simp: swp_get_eq split: list.splits)
  have m2: "map_ok H st2" "frame_in (mswp st1) g" using map_ok_swp_get [OF m1(1) g(1)] g(2) by auto
  have f: "frame_in (mram st2) f"
    using map_okD(4) [OF assms(1), of e] es l(1,4) g(2) by (simp add: entry_ok_def used_frame_def)
  have st3: "st3 = st2\<lparr>mswp := copy_frame (mram st2) f (mswp st2) g\<rparr>"
    using assms(4) cp_out_eq [OF map_okD(1) [OF m2(1)] f, of g] m2(2) g(2) by simp
  have m3: "map_ok H st3" unfolding st3 using m2(1) by (rule map_ok_cp_out)
  have same: "pte_of st3 = pte_of st" "present st3 = present st" "frame_of st3 = frame_of st" "lru_es st3 = es"
    "same_maps st st3" "lock_vm st3 = lock_vm st" "mram st3 = mram st" using l(1,3) g(2) st3 by simp_all
  have st4: "st4 = set_pte v (pte_set_swap (pte_of st3 v) 0 g) st3"
    using assms(5) by (auto simp: upd_pte_eq index_of_active_mswp_def split: if_splits)
  have v: "present st v" "frame_of st v = f" "v \<notin> e_pte ` set es" using V(2-4) l(4,5) by simp_all
  have m4: "map_ok (insert f H) st4"
    unfolding st4 using map_ok_set_swap [OF m3, of v] v same by simp
  have fH: "f \<notin> H" using map_okD(8) [OF assms(1) _ v(1)] v(2) by blast
  have "length (free_fp_list (mswp st4)) + 1 = length (free_fp_list (mswp st))"
    using g l(1) st3 st4 by simp
  with m4 fH v(1) same st4 es show ?thesis by (simp add: present_set_pte pte_of_set_pte)
qed

section \<open>Frames for new pages\<close>

lemma alloc_frame:
  assumes "map_ok H st" "alloc_pages_range pid (Suc n) fs st = ok (ret, fs', st')"
  shows "\<exists>f st1. alloc_pages_range pid n (f # fs) st1 = ok (ret, fs', st') \<and> map_ok (insert f H) st1 \<and> f \<notin> H \<and>
    same_maps st st1 \<and> lock_vm st1 = lock_vm st \<and> (\<forall>x. present st1 x \<longrightarrow> present st x)"
proof (cases "free_fp_list (mram st)")
  case (Cons f rest)
  let ?st = "st\<lparr>mram := (mram st)\<lparr>free_fp_list := rest\<rparr>\<rparr>"
  have "alloc_pages_range pid n (f # fs) ?st = ok (ret, fs', st')"
    using assms(2) Cons map_okD(1) [OF assms(1)] by (simp add: ram_get_eq)
  with map_ok_ram_get [OF assms(1) Cons] show ?thesis by (intro exI [of _ f] exI [of _ ?st]) simp
next
  case Nil
  obtain vic st1 r g' st2 where s: "lru_victim st = ok (vic, st1)" "swp_get st1 = ok (r, g', st2)" "\<not> r < 0"
    using assms(2) Nil map_okD(1) [OF assms(1)] by (auto simp: ram_get_eq split: if_splits)
  obtain vp f v where vic: "vic = Some (vp, f, v)" using assms(2) Nil map_okD(1) [OF assms(1)] s by (auto simp: ram_get_eq)
  obtain g where g: "g' = Some g" "r = 0"
    using assms(2) s by (auto simp: swp_get_def MEMPHY_get_freefp_def split: list.splits)
  obtain st3 st4 where t: "cp_out f g st2 = ok st3" "upd_pte v (\<lambda>w. pte_set_swap w index_of_active_mswp g) st3 = ok st4"
    "alloc_pages_range pid n (f # fs) st4 = ok (ret, fs', st')"
    using assms(2) Nil map_okD(1) [OF assms(1)] s g vic by (auto simp: ram_get_eq)
  from evict_steps [OF assms(1) s(1) [unfolded vic] s(2) [unfolded g] t(1,2)] t(3) show ?thesis by blast
qed

lemma alloc_pages_range_inv:
  assumes "map_ok H st" "alloc_pages_range pid n fs st = ok (ret, fs', st')"
  shows "ret = 0 \<and> (\<exists>new. fs' = new @ fs \<and> length new = n \<and> distinct new \<and> set new \<inter> H = {} \<and>
    map_ok (H \<union> set new) st') \<and> same_maps st st' \<and> lock_vm st' = lock_vm st \<and> (\<forall>x. present st' x \<longrightarrow> present st x)"
  using assms
proof (induction n arbitrary: H fs st)
  case 0
  then show ?case by simp
next
  case (Suc n)
  obtain f st1 where 1: "alloc_pages_range pid n (f # fs) st1 = ok (ret, fs', st')" "map_ok (insert f H) st1" "f \<notin> H"
    "same_maps st st1" "lock_vm st1 = lock_vm st" "\<forall>x. present st1 x \<longrightarrow> present st x"
    using alloc_frame [OF Suc.prems] by metis
  note IH = Suc.IH [OF 1(2,1)]
  then obtain new where new: "fs' = new @ f # fs" "length new = n" "distinct new" "set new \<inter> insert f H = {}"
    "map_ok (insert f H \<union> set new) st'" by blast
  have "fs' = (new @ [f]) @ fs \<and> length (new @ [f]) = Suc n \<and> distinct (new @ [f]) \<and> set (new @ [f]) \<inter> H = {} \<and>
      map_ok (H \<union> set (new @ [f])) st'"
    using new 1(3) by simp
  moreover have "same_maps st st'" using 1(4) IH by (metis same_maps_trans)
  ultimately show ?case using IH 1(5,6) by metis
qed

text \<open>Enough free frames, or victims together with free swap frames, make it succeed.\<close>

lemma evict_total:
  assumes "map_ok H st" "lru_es st = e # es" "free_fp_list (mswp st) = g # gs"
  shows "\<exists>vp f v st1 st2 st3 st4. lru_victim st = ok (Some (vp, f, v), st1) \<and> swp_get st1 = ok (0, Some g, st2) \<and>
    cp_out f g st2 = ok st3 \<and> upd_pte v (\<lambda>w. pte_set_swap w index_of_active_mswp g) st3 = ok st4"
proof -
  note V = map_ok_victim [OF assms(1,2)]
  obtain l where l: "lru_victim st = ok (Some (e_pgn e, e_fpn e, e_pte e), st\<lparr>lru := l\<rparr>)" "map_ok H (st\<lparr>lru := l\<rparr>)"
    using V(1) by metis
  let ?st2 = "st\<lparr>lru := l, mswp := (mswp st)\<lparr>free_fp_list := gs\<rparr>\<rparr>"
  have get: "swp_get (st\<lparr>lru := l\<rparr>) = ok (0, Some g, ?st2)"
    using map_okD(1) [OF l(2)] assms(3) by (simp add: swp_get_eq)
  have m2: "map_ok H ?st2" "frame_in (mswp st) g" using map_ok_swp_get [OF l(2), of g gs] assms(3) by auto
  have f: "frame_in (mram st) (e_fpn e)"
    using map_okD(4) [OF assms(1), of e] assms(2) by (simp add: entry_ok_def used_frame_def)
  let ?st3 = "?st2\<lparr>mswp := copy_frame (mram ?st2) (e_fpn e) (mswp ?st2) g\<rparr>"
  have out: "cp_out (e_fpn e) g ?st2 = ok ?st3" using map_okD(1) [OF m2(1)] f m2(2) by (simp add: cp_out_eq)
  have "in_table (e_pte e)" using V(3) by (simp add: present_def)
  then obtain st4 where "upd_pte (e_pte e) (\<lambda>w. pte_set_swap w index_of_active_mswp g) ?st3 = ok st4"
    by (simp add: upd_pte_eq)
  with l(1) get out show ?thesis by blast
qed

lemma alloc_pages_range_total:
  assumes "map_ok H st" "n \<le> length (free_fp_list (mram st)) + k" "k \<le> length (lru_es st)" "k \<le> length (free_fp_list (mswp st))"
  shows "\<exists>fs' st'. alloc_pages_range pid n fs st = ok (0, fs', st')"
  using assms
proof (induction n arbitrary: H fs st k)
  case (Suc n)
  note d = map_okD(1) [OF Suc.prems(1)]
  show ?case
  proof (cases "free_fp_list (mram st)")
    case (Cons f rest)
    let ?st = "st\<lparr>mram := (mram st)\<lparr>free_fp_list := rest\<rparr>\<rparr>"
    have m: "map_ok (insert f H) ?st" using map_ok_ram_get [OF Suc.prems(1) Cons] by simp
    have "\<exists>fs' st'. alloc_pages_range pid n (f # fs) ?st = ok (0, fs', st')"
      by (rule Suc.IH [OF m, of k]) (use Suc.prems Cons in auto)
    with Cons d show ?thesis by (simp add: ram_get_eq)
  next
    case Nil
    with Suc.prems have k: "0 < k" "n \<le> k - 1" by auto
    obtain e es where es: "lru_es st = e # es" using Suc.prems(3) k(1) by (cases "lru_es st") auto
    obtain g gs where g: "free_fp_list (mswp st) = g # gs" using Suc.prems(4) k(1) by (cases "free_fp_list (mswp st)") auto
    obtain vp f v st1 st2 st3 st4 where run: "lru_victim st = ok (Some (vp, f, v), st1)" "swp_get st1 = ok (0, Some g, st2)"
      "cp_out f g st2 = ok st3" "upd_pte v (\<lambda>w. pte_set_swap w index_of_active_mswp g) st3 = ok st4"
      using evict_total [OF Suc.prems(1) es g] by metis
    note E = evict_steps [OF Suc.prems(1) run]
    then have m: "map_ok (insert f H) st4" by simp
    have "\<exists>fs' st'. alloc_pages_range pid n (f # fs) st4 = ok (0, fs', st')"
      by (rule Suc.IH [OF m, of "k - 1"]) (use E es g k Suc.prems Nil in auto)
    with Nil d run show ?thesis by (simp add: ram_get_eq)
  qed
qed simp

section \<open>Mapping the new pages\<close>

definition page_seq :: "int \<Rightarrow> int \<Rightarrow> nat \<Rightarrow> int" where
  "page_seq vid pg k = (if vid = 0 then pg + int k else pg - int k)"

lemma page_seq_inj [simp]: "page_seq vid pg j = page_seq vid pg k \<longleftrightarrow> j = k"
  by (simp add: page_seq_def)

lemma vmap_loop_ok:
  assumes "map_ok (H \<union> set fps) st" "distinct fps" "set fps \<inter> H = {}" "length fps = n"
    and "\<forall>k < n. in_table (pid, page_seq vid pg k) \<and> \<not> present st (pid, page_seq vid pg k)"
  shows "\<exists>st'. vmap_loop pid vid pg n fps st = ok (0, st') \<and> map_ok H st' \<and> same_maps st st' \<and>
    lock_vm st' = lock_vm st \<and> mram st' = mram st \<and>
    (\<forall>x. present st' x \<longleftrightarrow> present st x \<or> (\<exists>k < n. x = (pid, page_seq vid pg k)))"
  using assms
proof (induction n arbitrary: fps st)
  case 0
  then show ?case by simp
next
  case (Suc n)
  obtain f fs where fps: "fps = f # fs" using Suc.prems(4) by (cases fps) auto
  let ?p = "(pid, page_seq vid pg n)"
  let ?st1 = "set_pte ?p (pte_set_fpn (pte_of st ?p) f) st"
  have p: "in_table ?p" "\<not> present st ?p" using Suc.prems(5) by simp_all
  have m0: "map_ok (insert f (H \<union> set fs)) st" "f \<notin> H \<union> set fs" using Suc.prems(1-3) fps by auto
  note m1 = map_ok_set_fpn [OF m0 p(2,1)]
  obtain l where l: "lru_add ?p ?st1 = ok (?st1\<lparr>lru := l\<rparr>)" "map_ok (H \<union> set fs) (?st1\<lparr>lru := l\<rparr>)"
    using lru_add_ok [OF m1(1,2)] by metis
  let ?st2 = "?st1\<lparr>lru := l\<rparr>"
  have pr: "present ?st2 x \<longleftrightarrow> x = ?p \<or> present st x" for x using p(1) by (auto simp: present_set_pte)
  have "\<exists>st'. vmap_loop pid vid pg n fs ?st2 = ok (0, st') \<and> map_ok H st' \<and> same_maps ?st2 st' \<and>
    lock_vm st' = lock_vm ?st2 \<and> mram st' = mram ?st2 \<and>
    (\<forall>x. present st' x \<longleftrightarrow> present ?st2 x \<or> (\<exists>k < n. x = (pid, page_seq vid pg k)))"
    by (rule Suc.IH [OF l(2)]) (use Suc.prems fps pr in auto)
  then obtain st' where st': "vmap_loop pid vid pg n fs ?st2 = ok (0, st')" "map_ok H st'" "same_maps ?st2 st'"
    "lock_vm st' = lock_vm ?st2" "mram st' = mram ?st2"
    "\<forall>x. present st' x \<longleftrightarrow> present ?st2 x \<or> (\<exists>k < n. x = (pid, page_seq vid pg k))" by metis
  have "vmap_loop pid vid pg (Suc n) fps st = ok (0, st')"
    using fps p(1) l(1) st'(1) by (simp add: upd_pte_eq page_seq_def)
  moreover have "same_maps st ?st2" by simp
  then have "same_maps st st'" using st'(3) by (rule same_maps_trans)
  moreover have "present st' x \<longleftrightarrow> present st x \<or> (\<exists>k < Suc n. x = (pid, page_seq vid pg k))" for x
    unfolding spec [OF st'(6)] pr less_Suc_eq by blast
  ultimately show ?case using st'(2,4,5) by (intro exI [of _ st']) simp
qed

text \<open>The first page \<open>vm_map_ram\<close> maps.\<close>

definition map_base :: "int \<Rightarrow> int \<Rightarrow> int \<Rightarrow> int" where
  "map_base vid vmem mapstart =
     PAGING_PGN (if vid = 0 \<or> u32 mapstart = u32 (vmem - 1) then mapstart else mapstart - 1)"

definition new_pages :: "int \<Rightarrow> int \<Rightarrow> int \<Rightarrow> nat \<Rightarrow> pte_ref set" where
  "new_pages pid vid base n = {(pid, page_seq vid base k) | k. k < n}"

definition can_map :: "paging \<Rightarrow> nat \<Rightarrow> bool" where
  "can_map st n \<longleftrightarrow> n \<le> length (free_fp_list (mram st)) + min (length (lru_es st)) (length (free_fp_list (mswp st)))"

lemma vmap_page_range_ok:
  assumes "vmap_loop pid vid (PAGING_PGN a) (nat n) fs st = ok (0, st')"
  shows "\<exists>rg. vmap_page_range pid a n fs vid st = ok (0, rg, st')"
  using assms by (simp add: vmap_page_range_def)

lemma vm_map_ram_ok:
  assumes "map_ok {} st" "\<not> lock_mm st" "can_map st (nat n)"
    and "\<forall>x \<in> new_pages pid vid (map_base vid (vmemsz st) a) (nat n). in_table x \<and> \<not> present st x"
  shows "\<exists>st'. vm_map_ram pid vid a n st = ok (0, st') \<and> map_ok {} st' \<and> same_maps st st' \<and> lock_vm st' = lock_vm st \<and>
    (\<forall>x \<in> new_pages pid vid (map_base vid (vmemsz st) a) (nat n). present st' x) \<and>
    (\<forall>x. present st' x \<longrightarrow> present st x \<or> x \<in> new_pages pid vid (map_base vid (vmemsz st) a) (nat n))"
proof -
  let ?b = "map_base vid (vmemsz st) a" and ?st0 = "st\<lparr>lock_mm := True\<rparr>"
  have m0: "map_ok {} ?st0" "nat n \<le> length (free_fp_list (mram ?st0)) + min (length (lru_es ?st0)) (length (free_fp_list (mswp ?st0)))"
    using assms(1,3) by (simp_all add: can_map_def)
  obtain fs st1 where al: "alloc_pages_range pid (nat n) [] ?st0 = ok (0, fs, st1)"
    using alloc_pages_range_total [OF m0, where pid = pid and fs = "[]"] by auto
  note I = alloc_pages_range_inv [OF m0(1) al]
  then have fs: "length fs = nat n" "distinct fs" "map_ok ({} \<union> set fs) st1" by auto
  have absent: "\<forall>k < nat n. in_table (pid, page_seq vid ?b k) \<and> \<not> present st1 (pid, page_seq vid ?b k)"
    using assms(4) I by (auto simp: new_pages_def)
  obtain st2 where st2: "vmap_loop pid vid ?b (nat n) fs st1 = ok (0, st2)" "map_ok {} st2" "same_maps st1 st2"
    "lock_vm st2 = lock_vm st1" "\<forall>x. present st2 x \<longleftrightarrow> present st1 x \<or> (\<exists>k < nat n. x = (pid, page_seq vid ?b k))"
    using vmap_loop_ok [OF fs(3,2) _ fs(1) absent] by auto
  have vm: "vmemsz st1 = vmemsz st" using I by (simp add: same_maps_def)
  have sm: "same_maps ?st0 st2" using I st2(3) same_maps_trans by blast
  define addr where "addr = (if vid = 0 \<or> u32 a = u32 (vmemsz st - 1) then a else a - 1)"
  obtain rg where "vmap_page_range pid addr n fs vid st1 = ok (0, rg, st2)"
    using vmap_page_range_ok [of pid vid addr n fs st1 st2] st2(1) by (auto simp: map_base_def addr_def)
  then have run: "vm_map_ram pid vid a n st = ok (0, st2\<lparr>lock_mm := False\<rparr>)"
    using al assms(2) vm by (auto simp: vm_map_ram_def addr_def split: if_splits)
  have sm': "same_maps st (st2\<lparr>lock_mm := False\<rparr>)" using sm assms(2) by (simp add: same_maps_def)
  have new: "present st2 x \<longleftrightarrow> present st1 x \<or> x \<in> new_pages pid vid ?b (nat n)" for x
    unfolding spec [OF st2(5)] new_pages_def by blast
  have old: "present st1 x \<Longrightarrow> present st x" for x using I by (cases x) simp
  have p: "\<forall>x \<in> new_pages pid vid ?b (nat n). present (st2\<lparr>lock_mm := False\<rparr>) x"
    "\<forall>x. present (st2\<lparr>lock_mm := False\<rparr>) x \<longrightarrow> present st x \<or> x \<in> new_pages pid vid ?b (nat n)"
    unfolding present_update new using old by blast+
  have lk: "lock_vm (st2\<lparr>lock_mm := False\<rparr>) = lock_vm st" using I st2(4) by simp
  show ?thesis
    by (intro exI conjI, rule run) (use st2(2) sm' p lk in simp_all)
qed

section \<open>Growing an area\<close>

lemma inc_vma_limit_ok:
  fixes n :: nat
  assumes "map_ok {} st" "\<not> lock_mm st" "can_map st n" and v: "get_vma_by_num (mm_of st pid) vid = Some v"
    and amt: "s32 (PAGING_PAGE_ALIGNSZ (u64 (sz - u64 (if vid = 0 then vm_end v - sbrk v else sbrk v - vm_end v)))) = int n * 256"
    and ov: "validate_overlap_vm_area (mm_of st pid) vid (s32 (sbrk v))
      (s32 (if vid = 0 then u64 (sbrk v + sz) else u64 (sbrk v - sz))) = 0"
    and new: "new_end = (if vid = 0 then PAGING_PAGE_ALIGNSZ (u64 (sbrk v + sz))
                   else u64 (PAGING_PAGE_ALIGNSZ (u64 (sbrk v - sz)) - PAGING_PAGESZ))"
    and base: "base = map_base vid (vmemsz st) (s32 (vm_end v))"
    and absent: "\<forall>x \<in> new_pages pid vid base n. in_table x \<and> \<not> present st x"
  shows "\<exists>st'. inc_vma_limit pid vid sz st = ok (0, st') \<and> map_ok {} st' \<and> lock_vm st' = lock_vm st \<and>
    same_maps (set_mm pid (set_vma (mm_of st pid) vid (v\<lparr>vm_end := new_end\<rparr>)) st) st' \<and>
    (\<forall>x \<in> new_pages pid vid base n. present st' x) \<and> (\<forall>x. present st' x \<longrightarrow> present st x \<or> x \<in> new_pages pid vid base n)"
proof -
  let ?mm = "set_vma (mm_of st pid) vid (v\<lparr>vm_end := new_end\<rparr>)" and ?m = "s32 (vm_end v)"
  let ?st = "set_mm pid ?mm st"
  have n: "int n * 256 sdiv PAGING_PAGESZ = int n" by (simp add: PAGING_PAGESZ_def sdiv_pos)
  have o: "map_ok {} ?st" "present ?st = present st" using assms(1) by (simp_all add: set_mm_areas)
  have "\<not> lock_mm ?st" "can_map ?st (nat (int n))" using assms(2,3) by (simp_all add: can_map_def)
  moreover have "\<forall>x \<in> new_pages pid vid (map_base vid (vmemsz ?st) ?m) (nat (int n)). in_table x \<and> \<not> present ?st x"
    using absent base by (simp add: o(2))
  ultimately obtain st' where st': "vm_map_ram pid vid ?m (int n) ?st = ok (0, st')" "map_ok {} st'" "same_maps ?st st'"
    "lock_vm st' = lock_vm ?st" "\<forall>x \<in> new_pages pid vid base n. present st' x"
    "\<forall>x. present st' x \<longrightarrow> present ?st x \<or> x \<in> new_pages pid vid base n"
    using vm_map_ram_ok [OF o(1), of "int n" pid vid ?m] base by auto
  have "inc_vma_limit pid vid sz st = ok (0, st')"
    using v amt ov st'(1) n new
    by (cases "vid = 0") (simp_all add: inc_vma_limit_def get_vm_area_node_at_brk_def Let_def)
  with st'(2-) o(2) show ?thesis by (intro exI [of _ st']) simp
qed

text \<open>The numbers of the stack: how many pages a request needs and where the area ends then.\<close>

lemma stack_growth_numbers:
  fixes V B sz vmem :: int
  assumes "256 dvd V" "0 \<le> B" "B \<le> V" "V < B + sz" "B + sz \<le> vmem" "vmem \<le> 4194304" "0 < sz"
  defines "n \<equiv> nat ((sz - (V - B) + 255) div 256)"
  shows "s32 (PAGING_PAGE_ALIGNSZ (u64 (sz - u64 (V - B)))) = int n * 256"
    and "PAGING_PAGE_ALIGNSZ (u64 (B + sz)) = V + int n * 256"
    and "PAGING_PGN V = V div 256" and "V + int n * 256 \<le> 4194304"
    and "B + sz \<le> V + int n * 256" and "V + int n * 256 < B + sz + 256"
proof -
  obtain k where k: "V = 256 * k" using assms(1) by (elim dvdE)
  let ?D = "sz - (V - B)"
  have D: "0 < ?D" "?D < 9223372036854775808" "u64 (V - B) = V - B" "u64 ?D = ?D" "u64 (B + sz) = B + sz"
    using assms(2-7) by (simp_all add: u64_id)
  have n: "int n = (?D + 255) div 256" using D(1) by (simp add: n_def)
  have le: "?D \<le> int n * 256" "int n * 256 < ?D + 256" using D(1) unfolding n by linarith+
  then show "B + sz \<le> V + int n * 256" "V + int n * 256 < B + sz + 256" by linarith+
  have al: "PAGING_PAGE_ALIGNSZ ?D = int n * 256" using D(1,2) by (simp add: PAGE_ALIGNSZ_eq n)
  have "int n * 256 < 2147483648" using le assms by linarith
  then show "s32 (PAGING_PAGE_ALIGNSZ (u64 (sz - u64 (V - B)))) = int n * 256"
    by (simp add: D(3,4) al s32_id)
  have "(B + sz + 255) div 256 = k + (?D + 255) div 256" using k by (simp add: algebra_simps)
  then show "PAGING_PAGE_ALIGNSZ (u64 (B + sz)) = V + int n * 256"
    using assms(2,5-7) k n D(5) by (simp add: PAGE_ALIGNSZ_eq algebra_simps)
  have "V < 4194304" using assms(4-6) by linarith
  then show "PAGING_PGN V = V div 256" using assms(2,3) by (simp add: PAGING_PGN_eq)
  have "k + int n \<le> 16384" using le k assms(4-6) by linarith
  then show "V + int n * 256 \<le> 4194304" using k by linarith
qed

lemma get_free_none:
  assumes "vid = 0 \<or> vid = 1" "get_vma_by_num mm vid = Some v" "free_list_ok vid sz (vm_freerg_list v)"
    and "\<forall>rg \<in> set (vm_freerg_list v). \<bar>rg_end rg - rg_start rg\<bar> + 1 < sz"
  shows "\<exists>nr. get_free_vmrg_area mm vid sz = ok (- 1, nr, mm)"
proof (cases "vm_freerg_list v = []")
  case True
  with assms(2) show ?thesis by (simp add: get_free_vmrg_area_def)
next
  case False
  have "\<not> (\<exists>rg \<in> set (vm_freerg_list v). rg_fits vid sz rg)"
    using assms(3,4) rg_fits_iff unfolding free_list_ok_def by fastforce
  then have "area_scan vid sz (u64 (- 1), u64 (- 1)) [] (vm_freerg_list v) = Some ((u64 (- 1), u64 (- 1)), vm_freerg_list v)"
    using area_scan_total [OF assms(1,3), of "(u64 (- 1), u64 (- 1))"] by auto
  with False assms(2) show ?thesis by (simp add: get_free_vmrg_area_def set_vma_same)
qed

lemma set_mm_same [simp]: "set_mm pid (mm_of st pid) st = st"
  by (simp add: set_mm_def)

text \<open>No free region of the area can hold the request.\<close>

definition no_free_region :: "vm_area_struct \<Rightarrow> int \<Rightarrow> int \<Rightarrow> bool" where
  "no_free_region v vid sz \<longleftrightarrow> free_list_ok vid sz (vm_freerg_list v) \<and>
     (\<forall>rg \<in> set (vm_freerg_list v). \<bar>rg_end rg - rg_start rg\<bar> + 1 < sz)"

lemma do_alloc_no_region:
  assumes "vid = 0 \<or> vid = 1" "get_vma_by_num (mm_of st pid) vid = Some v" "no_free_region v vid sz"
  shows "do_alloc pid vid rgid sz st = alloc_at_brk pid vid rgid sz st"
proof -
  obtain nr where "get_free_vmrg_area (mm_of st pid) vid sz = ok (- 1, nr, mm_of st pid)"
    using get_free_none [OF assms(1,2)] assms(3) unfolding no_free_region_def by metis
  then show ?thesis by (simp add: do_alloc_def)
qed

lemma page_below:
  fixes V pg :: int
  assumes "256 dvd V" "pg * 256 < V + int n * 256"
  shows "pg * 256 + 256 \<le> V + int n * 256"
proof -
  obtain k where "V = 256 * k" using assms(1) by (elim dvdE)
  moreover from this assms(2) have "pg < k + int n" by simp
  ultimately show ?thesis by simp
qed

lemma new_pages_stack:
  assumes "256 dvd V"
  shows "x \<in> new_pages pid 0 (V div 256) n \<longleftrightarrow> (\<exists>pg. x = (pid, pg) \<and> V \<le> pg * 256 \<and> pg * 256 < V + int n * 256)"
proof
  assume "x \<in> new_pages pid 0 (V div 256) n"
  then obtain k where k: "k < n" "x = (pid, V div 256 + int k)" by (auto simp: new_pages_def page_seq_def)
  then have "V \<le> (V div 256 + int k) * 256 \<and> (V div 256 + int k) * 256 < V + int n * 256" using assms by auto
  with k(2) show "\<exists>pg. x = (pid, pg) \<and> V \<le> pg * 256 \<and> pg * 256 < V + int n * 256" by blast
next
  assume "\<exists>pg. x = (pid, pg) \<and> V \<le> pg * 256 \<and> pg * 256 < V + int n * 256"
  then obtain pg where pg: "x = (pid, pg)" "V \<le> pg * 256" "pg * 256 < V + int n * 256" by blast
  let ?k = "nat (pg - V div 256)"
  have "V div 256 \<le> pg" "pg < V div 256 + int n" using pg(2,3) assms by auto
  then have "?k < n" "x = (pid, page_seq 0 (V div 256) ?k)" using pg(1) by (auto simp: page_seq_def)
  then show "x \<in> new_pages pid 0 (V div 256) n" unfolding new_pages_def by blast
qed

text \<open>
  C7. ALLOC that has to grow the stack, when no free region fits, the address space is large enough,
  the overlap check passes, the pages beyond the old end are unmapped and there are enough free
  frames, counting one more for every victim that still finds a free swap frame. It returns 0,
  records the region of exactly the requested size at the old break, moves the break past it and
  the end of the area to the next page boundary; every page of the grown part is then in RAM, in a
  frame of its own, and pages of others can only have been swapped out.
\<close>

theorem stack_alloc_growth:
  assumes "map_ok {} st" "\<not> lock_mm st" "mmap (mm_of st pid) = [stk, heap]" "no_free_region stk 0 sz"
    and "256 dvd vm_end stk" "0 \<le> sbrk stk" "sbrk stk \<le> vm_end stk" "vm_end stk < sbrk stk + sz"
    and "sbrk stk + sz \<le> vmemsz st" "vmemsz st \<le> 4194304" "2 \<le> sz" "0 \<le> rgid" "rgid < 30"
    and "validate_overlap_vm_area (mm_of st pid) 0 (sbrk stk) (sbrk stk + sz) = 0"
    and "can_map st (nat ((sz - (vm_end stk - sbrk stk) + 255) div 256))"
    and "\<forall>pg. vm_end stk \<le> pg * 256 \<and> pg * 256 < sbrk stk + sz \<longrightarrow> \<not> present st (pid, pg)"
  shows "\<exists>st' E. pgalloc pid sz rgid st = ok (0, st') \<and> map_ok {} st' \<and> lock_vm st' = lock_vm st \<and>
    symrgtbl (mm_of st' pid) rgid = \<lparr>vmaid = 0, rg_start = sbrk stk, rg_end = sbrk stk + sz - 1\<rparr> \<and>
    mmap (mm_of st' pid) = [stk\<lparr>vm_end := E, sbrk := sbrk stk + sz\<rparr>, heap] \<and>
    256 dvd E \<and> sbrk stk + sz \<le> E \<and> E < sbrk stk + sz + 256 \<and>
    (\<forall>pg. vm_end stk \<le> pg * 256 \<and> pg * 256 < E \<longrightarrow> present st' (pid, pg)) \<and>
    (\<forall>x. present st' x \<longrightarrow> present st x \<or> (\<exists>pg. x = (pid, pg) \<and> vm_end stk \<le> pg * 256 \<and> pg * 256 < E))"
proof -
  define n where "n = nat ((sz - (vm_end stk - sbrk stk) + 255) div 256)"
  have sz0: "0 < sz" using assms(11) by simp
  note N = stack_growth_numbers [OF assms(5-10) sz0, folded n_def]
  let ?B = "sbrk stk" and ?V = "vm_end stk" and ?E = "vm_end stk + int n * 256"
  have small: "s32 ?V = ?V" "s32 ?B = ?B" "s32 (u64 (?B + sz)) = ?B + sz" "s32 sz = sz" "s32 rgid = rgid"
    "s32 (?B + sz) = ?B + sz" "s32 (?B + sz - 1) = ?B + sz - 1" "u64 ?B = ?B" "u64 (?B + sz) = ?B + sz"
    "u64 (?B + sz - 1) = ?B + sz - 1" "u32 (?B + sz) = ?B + sz"
    using assms(6-13) by (simp_all add: c_conv)
  have area: "get_vma_by_num (mm_of st pid) 0 = Some stk" using assms(3) by (simp add: get_vma_by_num_eq)
  have base: "map_base 0 (vmemsz st) (s32 ?V) = ?V div 256" by (simp add: map_base_def small N(3))
  note np = new_pages_stack [OF assms(5), of _ pid n]
  have absent: "\<forall>x \<in> new_pages pid 0 (?V div 256) n. in_table x \<and> \<not> present st x"
  proof
    fix x assume "x \<in> new_pages pid 0 (?V div 256) n"
    then obtain pg where pg: "x = (pid, pg)" "?V \<le> pg * 256" "pg * 256 < ?E" unfolding np by blast
    have "pg * 256 < ?B + sz" using page_below [OF assms(5) pg(3)] N(6) by linarith
    moreover have "0 \<le> pg" "pg < 16384" using pg(2,3) N(4) assms(6,7) by linarith+
    ultimately show "in_table x \<and> \<not> present st x"
      using assms(16) pg by (auto simp: in_table_def PAGING_MAX_PGN_eq)
  qed
  obtain st1 where st1: "inc_vma_limit pid 0 sz st = ok (0, st1)" "map_ok {} st1" "lock_vm st1 = lock_vm st"
    "same_maps (set_mm pid (set_vma (mm_of st pid) 0 (stk\<lparr>vm_end := ?E\<rparr>)) st) st1"
    "\<forall>x \<in> new_pages pid 0 (?V div 256) n. present st1 x"
    "\<forall>x. present st1 x \<longrightarrow> present st x \<or> x \<in> new_pages pid 0 (?V div 256) n"
    using inc_vma_limit_ok [OF assms(1,2) assms(15) [folded n_def] area, of sz ?E "?V div 256"] N(1,2) base absent assms(14)
    by (auto simp: small)
  have mm1: "mmap (mm_of st1 pid) = [stk\<lparr>vm_end := ?E\<rparr>, heap]" "vmemsz st1 = vmemsz st"
    "symrgtbl (mm_of st1 pid) = symrgtbl (mm_of st pid)"
    using st1(4) assms(3) by (simp_all add: same_maps_def set_vma_def)
  have area1: "get_vma_by_num (mm_of st1 pid) 0 = Some (stk\<lparr>vm_end := ?E\<rparr>)" using mm1 by (simp add: get_vma_by_num_eq)
  let ?rg = "\<lparr>vmaid = 0, rg_start = ?B, rg_end = ?B + sz - 1\<rparr>"
  let ?mm = "set_vma (mm_of st1 pid) 0 (stk\<lparr>vm_end := ?E, sbrk := ?B + sz\<rparr>)"
  let ?mm2 = "?mm\<lparr>symrgtbl := (symrgtbl ?mm)(rgid := ?rg)\<rparr>"
  have run: "pgalloc pid sz rgid st = ok (0, set_mm pid ?mm2 st1)"
    using do_alloc_no_region [OF _ area assms(4), of rgid] area area1 st1(1) mm1(2) assms(8,9,12,13)
    by (simp add: pgalloc_def small alloc_at_brk_def brk_region_def set_symrg_def PAGING_MAX_SYMTBL_SZ_def Let_def)
  define st2 where "st2 = set_mm pid ?mm2 st1"
  have o: "map_ok {} st2" "present st2 = present st1" "lock_vm st2 = lock_vm st"
    "mmap (mm_of st2 pid) = [stk\<lparr>vm_end := ?E, sbrk := ?B + sz\<rparr>, heap]" "symrgtbl (mm_of st2 pid) rgid = ?rg"
    using st1(2,3) mm1 by (simp_all add: st2_def set_mm_areas set_vma_def)
  have p: "\<forall>pg. ?V \<le> pg * 256 \<and> pg * 256 < ?E \<longrightarrow> present st2 (pid, pg)"
    "\<forall>x. present st2 x \<longrightarrow> present st x \<or> (\<exists>pg. x = (pid, pg) \<and> ?V \<le> pg * 256 \<and> pg * 256 < ?E)"
    unfolding o(2) np [symmetric] using st1(5,6) np by (metis, metis)
  have E: "256 dvd ?E" using assms(5) by simp
  have run2: "pgalloc pid sz rgid st = ok (0, st2)" using run by (simp add: st2_def)
  show ?thesis
    by (intro exI [of _ st2] exI [of _ ?E] conjI) (fact run2 o E N(5,6) p)+
qed




lemma align_bounds:
  fixes e :: int
  assumes "0 < e"
  shows "256 \<le> (e + 255) div 256 * 256" "(e + 255) div 256 * 256 \<le> e + 255"
proof -
  show "(e + 255) div 256 * 256 \<le> e + 255" by simp
  have "256 div 256 \<le> (e + 255) div 256" using assms by (intro zdiv_mono1) simp_all
  then show "256 \<le> (e + 255) div 256 * 256" by simp
qed

lemma align_down:
  fixes e :: int
  shows "(e + 255) div 256 * 256 - 256 = (if 256 dvd e then e - 256 else e div 256 * 256)"
proof (cases "256 dvd e")
  case True
  then obtain q where "e = 256 * q" by (elim dvdE)
  then show ?thesis by simp
next
  case False
  then have "e \<noteq> 256 * (e div 256)" by (metis dvd_triv_left)
  then have "(e + 255) div 256 = e div 256 + 1" by linarith
  with False show ?thesis by simp
qed

lemma heap_growth_numbers:
  fixes V B sz vmem :: int
  assumes "256 dvd V" "V \<le> B" "B < vmem" "vmem \<le> 4194304" "256 dvd vmem" "0 < B - sz" "B - sz < V"
  defines "n \<equiv> nat ((V - (B - sz) + 255) div 256)"
  shows "s32 (PAGING_PAGE_ALIGNSZ (u64 (sz - u64 (B - V)))) = int n * 256"
    and "u64 (PAGING_PAGE_ALIGNSZ (u64 (B - sz)) - PAGING_PAGESZ) =
      (if 256 dvd B - sz then B - sz - 256 else (B - sz) div 256 * 256)"
    and "map_base 1 vmem (s32 V) = V div 256 - 1" and "V div 256 - int n = (B - sz) div 256"
proof -
  obtain k where k: "V = 256 * k" using assms(1) by (elim dvdE)
  obtain j where j: "vmem = 256 * j" using assms(5) by (elim dvdE)
  let ?e = "B - sz"
  have e: "u64 (B - V) = B - V" "u64 (V - ?e) = V - ?e" "u64 ?e = ?e" "sz - (B - V) = V - ?e"
    using assms(2-7) by (simp_all add: u64_id)
  have n: "int n = (V - ?e + 255) div 256" using assms(7) by (simp add: n_def)
  have "int n * 256 < 2147483648" using assms n by linarith
  then show "s32 (PAGING_PAGE_ALIGNSZ (u64 (sz - u64 (B - V)))) = int n * 256"
    using assms n by (simp add: e PAGE_ALIGNSZ_eq s32_id)
  have "k < j" using k j assms(2,3) by simp
  then have "V \<le> vmem - 256" using k j by simp
  then have "s32 V = V" "u32 V = V" "u32 (vmem - 1) = vmem - 1" "V \<noteq> vmem - 1" "V - 1 < 4194304" "0 \<le> V - 1"
    using assms by (simp_all add: c_conv)
  then show "map_base 1 vmem (s32 V) = V div 256 - 1" using k by (simp add: map_base_def PAGING_PGN_eq)
  have al: "PAGING_PAGE_ALIGNSZ ?e = (?e + 255) div 256 * 256" using assms(6,7,2-4) by (simp add: PAGE_ALIGNSZ_eq)
  have "u64 (PAGING_PAGE_ALIGNSZ (u64 ?e) - PAGING_PAGESZ) = (?e + 255) div 256 * 256 - 256"
    unfolding e al PAGING_PAGESZ_def using align_bounds [OF assms(6)] assms(2-4,7) by (intro u64_id) linarith+
  with align_down show "u64 (PAGING_PAGE_ALIGNSZ (u64 ?e) - PAGING_PAGESZ) = (if 256 dvd ?e then ?e - 256 else ?e div 256 * 256)"
    by metis
  show "V div 256 - int n = ?e div 256" unfolding n k by (simp add: algebra_simps)
qed

lemma get_vma_cong: "mmap mm = mmap mm' \<Longrightarrow> get_vma_by_num mm vid = get_vma_by_num mm' vid"
  by (simp add: get_vma_by_num_eq)

lemma new_pages_heap:
  "x \<in> new_pages pid 1 (b - 1) n \<longleftrightarrow> (\<exists>pg. x = (pid, pg) \<and> b - int n \<le> pg \<and> pg < b)"
proof
  assume "x \<in> new_pages pid 1 (b - 1) n"
  then show "\<exists>pg. x = (pid, pg) \<and> b - int n \<le> pg \<and> pg < b" by (auto simp: new_pages_def page_seq_def)
next
  assume "\<exists>pg. x = (pid, pg) \<and> b - int n \<le> pg \<and> pg < b"
  then obtain pg where pg: "x = (pid, pg)" "b - int n \<le> pg" "pg < b" by blast
  then have "nat (b - 1 - pg) < n" "x = (pid, page_seq 1 (b - 1) (nat (b - 1 - pg)))" by (auto simp: page_seq_def)
  then show "x \<in> new_pages pid 1 (b - 1) n" unfolding new_pages_def by blast
qed

text \<open>
  C37. Growth of a heap that has grown before. The area ends on a page boundary (so this is not the first
  MALLOC of a process, which starts from the end \<open>vmemsz - 1\<close>), the address space is a multiple of 256 and
  at most 4 MB, the overlap check passes, the new pages are not mapped yet, and there are enough free
  frames, counting one more for every victim that still finds a free swap frame. Then growth down to
  address \<open>e = sbrk - size\<close>, above 0 and below the old end, maps exactly the pages from \<open>e div 256\<close> up to
  the old end; the new end of the area is the start of the lowest mapped page, except when \<open>e\<close> is a page
  boundary: then it lies one page lower, and that page counts as part of the heap without having been
  mapped.
\<close>

theorem heap_growth_off_by_page:
  assumes "map_ok {} st" "\<not> lock_mm st" "get_vma_by_num (mm_of st pid) 1 = Some v"
    and "256 dvd vm_end v" "vm_end v \<le> sbrk v" "sbrk v < vmemsz st" "vmemsz st \<le> 4194304" "256 dvd vmemsz st"
    and "0 < sbrk v - sz" "sbrk v - sz < vm_end v"
    and "validate_overlap_vm_area (mm_of st pid) 1 (sbrk v) (sbrk v - sz) = 0"
    and "can_map st (nat ((vm_end v - (sbrk v - sz) + 255) div 256))"
    and "\<forall>pg. (sbrk v - sz) div 256 \<le> pg \<and> pg < vm_end v div 256 \<longrightarrow> \<not> present st (pid, pg)"
  shows "\<exists>st'. inc_vma_limit pid 1 sz st = ok (0, st') \<and> map_ok {} st' \<and>
    get_vma_by_num (mm_of st' pid) 1 =
      Some (v\<lparr>vm_end := if 256 dvd sbrk v - sz then sbrk v - sz - 256 else (sbrk v - sz) div 256 * 256\<rparr>) \<and>
    (\<forall>pg. (sbrk v - sz) div 256 \<le> pg \<and> pg < vm_end v div 256 \<longrightarrow> present st' (pid, pg)) \<and>
    (\<forall>x. present st' x \<longrightarrow> present st x \<or> (\<exists>pg. x = (pid, pg) \<and> (sbrk v - sz) div 256 \<le> pg \<and> pg < vm_end v div 256))"
proof -
  define n where "n = nat ((vm_end v - (sbrk v - sz) + 255) div 256)"
  let ?e = "sbrk v - sz" and ?b = "vm_end v div 256"
  let ?E = "if 256 dvd ?e then ?e - 256 else ?e div 256 * 256"
  note N = heap_growth_numbers [OF assms(4-10), folded n_def]
  have np: "x \<in> new_pages pid 1 (?b - 1) n \<longleftrightarrow> (\<exists>pg. x = (pid, pg) \<and> ?e div 256 \<le> pg \<and> pg < ?b)" for x
    unfolding new_pages_heap N(4) ..
  have small: "s32 (sbrk v) = sbrk v" "s32 (u64 ?e) = ?e" using assms(4-10) by (simp_all add: c_conv)
  have absent: "\<forall>x \<in> new_pages pid 1 (?b - 1) n. in_table x \<and> \<not> present st x"
  proof
    fix x assume "x \<in> new_pages pid 1 (?b - 1) n"
    then obtain pg where pg: "x = (pid, pg)" "?e div 256 \<le> pg" "pg < ?b" unfolding np by blast
    have "0 \<le> ?e div 256" "?b \<le> 16384" using assms(5-7,9) by (simp, linarith)
    with pg assms(13) show "in_table x \<and> \<not> present st x" by (auto simp: in_table_def PAGING_MAX_PGN_eq)
  qed
  obtain st' where st': "inc_vma_limit pid 1 sz st = ok (0, st')" "map_ok {} st'"
    "same_maps (set_mm pid (set_vma (mm_of st pid) 1 (v\<lparr>vm_end := ?E\<rparr>)) st) st'"
    "\<forall>x \<in> new_pages pid 1 (?b - 1) n. present st' x" "\<forall>x. present st' x \<longrightarrow> present st x \<or> x \<in> new_pages pid 1 (?b - 1) n"
    using inc_vma_limit_ok [OF assms(1,2) assms(12) [folded n_def] assms(3), of sz ?E "?b - 1"] N(1-3) absent assms(11) small
    by auto
  have "mmap (mm_of st' pid) = mmap (set_vma (mm_of st pid) 1 (v\<lparr>vm_end := ?E\<rparr>))" using st'(3) by (simp add: same_maps_def)
  then have g: "get_vma_by_num (mm_of st' pid) 1 = Some (v\<lparr>vm_end := ?E\<rparr>)"
    by (rule trans [OF get_vma_cong get_set_vma [OF assms(3)]])
  have p: "\<forall>pg. ?e div 256 \<le> pg \<and> pg < ?b \<longrightarrow> present st' (pid, pg)"
  proof (intro allI impI)
    fix pg assume "?e div 256 \<le> pg \<and> pg < ?b"
    then have "(pid, pg) \<in> new_pages pid 1 (?b - 1) n" unfolding np by simp
    with st'(4) show "present st' (pid, pg)" by (rule bspec)
  qed
  have q: "\<forall>x. present st' x \<longrightarrow> present st x \<or> (\<exists>pg. x = (pid, pg) \<and> ?e div 256 \<le> pg \<and> pg < ?b)"
    using st'(5) unfolding np .
  show ?thesis by (intro exI [of _ st'] conjI) (fact st'(1,2) g p q)+
qed

section \<open>Witnesses\<close>

lemma st_ex_maps [simp]:
  "mmap (mm_of (st_ex rf sf) p) = mmap (mm_ex [] [])" "vmemsz (st_ex rf sf) = 1024" "\<not> lock_mm (st_ex rf sf)"
  by (simp_all add: st_ex_def)

lemma st_ex_area [simp]:
  "get_vma_by_num (mm_of (st_ex rf sf) p) 1 = Some \<lparr>vm_id = 1, vm_start = 1023, vm_end = 768, sbrk = 900, vm_freerg_list = []\<rparr>"
  "get_vma_by_num (mm_of (st_ex rf sf) p) 0 = Some \<lparr>vm_id = 0, vm_start = 0, vm_end = 512, sbrk = 300, vm_freerg_list = []\<rparr>"
  by (simp_all add: get_vma_by_num_eq mm_ex_def)

theorem heap_growth_off_by_page_witness:
  "\<exists>st'. inc_vma_limit 1 1 388 (st_ex [1] [0]) = ok (0, st') \<and> present st' (1, 2) \<and> \<not> present st' (1, 1) \<and>
     get_vma_by_num (mm_of st' 1) 1 = Some \<lparr>vm_id = 1, vm_start = 1023, vm_end = 256, sbrk = 900, vm_freerg_list = []\<rparr>"
proof -
  have m: "map_ok {} (st_ex [1] [0])" by (rule st_ex_ok) simp_all
  have ov: "validate_overlap_vm_area (mm_of (st_ex [1] [0]) 1) 1 900 512 = 0"
    by (simp add: validate_overlap_vm_area_def mm_ex_def s32_def u64_def)
  have r: "can_map (st_ex [1] [0]) 1" by (simp add: can_map_def)
  from heap_growth_off_by_page [OF m _ st_ex_area(1) [of _ _ 1], of 388] ov r show ?thesis by force
qed


theorem stack_alloc_growth_witness:
  "\<exists>st'. pgalloc 1 300 0 (st_ex [1] [0]) = ok (0, st') \<and> present st' (1, 2) \<and>
     symrgtbl (mm_of st' 1) 0 = \<lparr>vmaid = 0, rg_start = 300, rg_end = 599\<rparr>"
proof -
  have m: "map_ok {} (st_ex [1] [0])" by (rule st_ex_ok) simp_all
  have maps: "mmap (mm_of (st_ex [1] [0]) 1) =
    [\<lparr>vm_id = 0, vm_start = 0, vm_end = 512, sbrk = 300, vm_freerg_list = []\<rparr>,
     \<lparr>vm_id = 1, vm_start = 1023, vm_end = 768, sbrk = 900, vm_freerg_list = []\<rparr>]" by (simp add: mm_ex_def)
  have ov: "validate_overlap_vm_area (mm_of (st_ex [1] [0]) 1) 0 300 600 = 0"
    by (simp add: validate_overlap_vm_area_def mm_ex_def s32_def u64_def)
  have r: "can_map (st_ex [1] [0]) 1" by (simp add: can_map_def)
  from stack_alloc_growth [OF m _ maps, of 300 0] ov r show ?thesis
    by (auto simp: no_free_region_def free_list_ok_def)
qed

end
