(* ===== verification/Mem.thy ===== *)
theory Mem
  imports OS_Prelude
begin

text \<open>
  The legacy segmented memory of \<open>src/mem.c\<close>, kept in the program beside the paging system and reached
  only through the legacy instructions of \<open>src/cpu.c\<close>. Addresses are 32-bit unsigned values. The
  second-level lookup and the reservation of pages are empty stubs in the source and are modelled
  as such. The lock \<open>mem_lock\<close> is taken and released inside \<open>alloc_mem\<close> only.
\<close>

section \<open>State\<close>

unbundle bit_operations_syntax

definition ADDRESS_SIZE :: nat where "ADDRESS_SIZE = 20"
definition OFFSET_LEN :: nat where "OFFSET_LEN = 10"
definition PAGE_LEN :: nat where "PAGE_LEN = 5"
definition NUM_PAGES :: nat where "NUM_PAGES = 2 ^ (ADDRESS_SIZE - OFFSET_LEN)"
definition PAGE_SIZE :: int where "PAGE_SIZE = 2 ^ OFFSET_LEN"
definition RAM_SIZE :: nat where "RAM_SIZE = 2 ^ ADDRESS_SIZE"

record mem_stat_t =
  ms_proc :: int
  ms_index :: int
  ms_next :: int

record mem =
  ram :: "int \<Rightarrow> byte"
  mem_stat :: "int \<Rightarrow> mem_stat_t"

text \<open>A second-level table is its rows (virtual index, physical index).\<close>

type_synonym trans_table_t = "(32 word \<times> 32 word) list"

record page_table_t =
  pt_table :: "(32 word \<times> trans_table_t) list"

section \<open>Operations\<close>

definition init_mem :: mem where
  "init_mem = \<lparr>ram = (\<lambda>_. 0), mem_stat = (\<lambda>_. \<lparr>ms_proc = 0, ms_index = 0, ms_next = 0\<rparr>)\<rparr>"

definition get_offset :: "32 word \<Rightarrow> 32 word" where
  "get_offset addr = addr AND NOT (push_bit OFFSET_LEN (NOT 0))"

definition get_first_lv :: "32 word \<Rightarrow> 32 word" where
  "get_first_lv addr = drop_bit (OFFSET_LEN + PAGE_LEN) addr"

definition get_second_lv :: "32 word \<Rightarrow> 32 word" where
  "get_second_lv addr = drop_bit OFFSET_LEN addr - push_bit PAGE_LEN (get_first_lv addr)"

text \<open>The body of the search loop is empty: the result is always NULL.\<close>

definition get_trans_table :: "32 word \<Rightarrow> page_table_t \<Rightarrow> trans_table_t option" where
  "get_trans_table index page_table = None"

text \<open>\<open>translate\<close> returns a flag and never writes \<open>physical_addr\<close>.\<close>

definition translate :: "32 word \<Rightarrow> page_table_t \<Rightarrow> int" where
  "translate virtual_addr page_table =
     (case get_trans_table (get_first_lv virtual_addr) page_table of
        None \<Rightarrow> 0
      | Some rows \<Rightarrow> if get_second_lv virtual_addr \<in> fst ` set rows then 1 else 0)"

definition alloc_mem :: "32 word \<Rightarrow> 32 word \<Rightarrow> 32 word \<times> 32 word" where
  "alloc_mem sz bp =
     (let num_pages = (if uint sz mod PAGE_SIZE \<noteq> 0 then uint sz div PAGE_SIZE else uint sz div PAGE_SIZE + 1);
          mem_avail = (0::int)
      in if mem_avail \<noteq> 0 then (bp, bp + word_of_int (num_pages * PAGE_SIZE)) else (0, bp))"

definition free_mem :: "32 word \<Rightarrow> int" where
  "free_mem address = 0"

text \<open>After a successful translation the access would go through an unwritten \<open>physical_addr\<close>.\<close>

definition read_mem :: "32 word \<Rightarrow> page_table_t \<Rightarrow> (int \<times> byte option) res" where
  "read_mem address page_table =
     (if translate address page_table \<noteq> 0 then Inl Uninitialised else ok (1, None))"

definition write_mem :: "32 word \<Rightarrow> page_table_t \<Rightarrow> byte \<Rightarrow> mem \<Rightarrow> (int \<times> mem) res" where
  "write_mem address page_table data m =
     (if translate address page_table \<noteq> 0 then Inl Uninitialised else ok (1, m))"

text \<open>\<open>dump\<close>: per used page its number, address range, owner, index and successor, and the non-zero
  bytes printed; the loop over the bytes leaves out the last one of the page.\<close>

definition dump_page :: "mem \<Rightarrow> int \<Rightarrow> (int \<times> byte) list" where
  "dump_page m i =
     map (\<lambda>j. (j, ram m j)) (filter (\<lambda>j. ram m j \<noteq> 0) [i * PAGE_SIZE..(i + 1) * PAGE_SIZE - 2])"

definition dump :: "mem \<Rightarrow> (int \<times> int \<times> int \<times> mem_stat_t \<times> (int \<times> byte) list) list" where
  "dump m =
     map (\<lambda>i. (i, i * PAGE_SIZE, (i + 1) * PAGE_SIZE - 1, mem_stat m i, dump_page m i))
       (filter (\<lambda>i. ms_proc (mem_stat m i) \<noteq> 0) [0..int NUM_PAGES - 1])"

section \<open>Facts\<close>

lemma get_offset_eq: "uint (get_offset addr) = uint addr mod 1024"
proof -
  have "get_offset addr = take_bit 10 addr"
    by (intro bit_word_eqI) (auto simp: get_offset_def OFFSET_LEN_def bit_simps)
  then show ?thesis by (simp add: take_bit_eq_mod uint_mod_distrib)
qed

lemma get_first_lv_eq: "uint (get_first_lv addr) = uint addr div 32768"
  by (simp add: get_first_lv_def OFFSET_LEN_def PAGE_LEN_def drop_bit_eq_div uint_div_distrib)

lemma get_second_lv_eq: "uint (get_second_lv addr) = uint addr div 1024 mod 32"
proof -
  have "get_second_lv addr = take_bit 5 (drop_bit 10 addr)"
  proof -
    have "push_bit 5 (drop_bit 5 (drop_bit 10 addr)) + take_bit 5 (drop_bit 10 addr) = drop_bit 10 addr"
      by (rule bits_ident)
    then show ?thesis
      by (simp add: get_second_lv_def get_first_lv_def OFFSET_LEN_def PAGE_LEN_def algebra_simps)
  qed
  then show ?thesis
    by (simp add: take_bit_eq_mod drop_bit_eq_div uint_div_distrib uint_mod_distrib)
qed

text \<open>
  The three parts of a legacy address determine it: segment, page and offset are the digits of
  the address to the bases 2^15, 2^10 and 1, with the page below 32 and the offset below 1024.
\<close>

theorem legacy_address_split:
  "uint addr = uint (get_first_lv addr) * 32768 + uint (get_second_lv addr) * 1024 + uint (get_offset addr) \<and>
   uint (get_second_lv addr) < 32 \<and> uint (get_offset addr) < 1024"
proof -
  have "a = a div 32768 * 32768 + a div 1024 mod 32 * 1024 + a mod 1024" for a :: int
  proof -
    have "a div 32768 = a div 1024 div 32" by (simp add: zdiv_zmult2_eq [symmetric])
    then show ?thesis using div_mult_mod_eq [of "a div 1024" 32] div_mult_mod_eq [of a 1024] by linarith
  qed
  then show ?thesis by (simp add: get_offset_eq get_first_lv_eq get_second_lv_eq)
qed

text \<open>
  The legacy memory is inert: no address translates, an allocation returns 0 and leaves the break
  pointer alone, every read and write returns 1 without touching memory, and every free returns 0.
\<close>

theorem legacy_memory_inert:
  "translate addr pt = 0 \<and> alloc_mem sz bp = (0, bp) \<and> free_mem addr = 0 \<and>
   read_mem addr pt = ok (1, None) \<and> write_mem addr pt data m = ok (1, m)"
  by (simp add: translate_def get_trans_table_def alloc_mem_def free_mem_def read_mem_def write_mem_def)

end
