(* ===== verification/Cpu.thy ===== *)
theory Cpu
  imports Alloc Mem
begin

text \<open>
  Processes and the CPU: the structures of \<open>include/common.h\<close> and the instructions of \<open>src/cpu.c\<close>. The
  memory map of a process lives in the paging state under its pid. The dumps that \<open>run\<close> prints after
  an instruction are \<open>print_pgtbl\<close> and \<open>MEMPHY_dump\<close>; they change nothing and are not part of \<open>run\<close>.
\<close>

section \<open>Structures\<close>

datatype ins_opcode_t = CALC | ALLOC | MALLOC | FREE | READ | WRITE

record inst_t =
  opcode :: ins_opcode_t
  arg_0 :: int
  arg_1 :: int
  arg_2 :: int

record code_seg_t =
  code_text :: "inst_t list"
  code_size :: int

record pcb_t =
  pid :: int
  priority :: int
  code :: code_seg_t
  regs :: "(32 word) list"
  pc :: int
  prio :: int
  page_table :: page_table_t
  bp :: "32 word"

section \<open>Instructions\<close>

definition calc :: "pcb_t \<Rightarrow> int" where
  "calc proc = 0"

text \<open>The legacy instructions on \<open>mem.c\<close>; the register file has ten entries.\<close>

definition reg_at :: "pcb_t \<Rightarrow> int \<Rightarrow> 32 word res" where
  "reg_at p i = guardR (0 \<le> i \<and> i < 10) OutOfBounds (ok (regs p ! nat i))"

definition set_reg :: "pcb_t \<Rightarrow> int \<Rightarrow> 32 word \<Rightarrow> pcb_t res" where
  "set_reg p i v = guardR (0 \<le> i \<and> i < 10) OutOfBounds (ok (p\<lparr>regs := (regs p)[nat i := v]\<rparr>))"

definition alloc :: "pcb_t \<Rightarrow> int \<Rightarrow> int \<Rightarrow> (int \<times> pcb_t) res" where
  "alloc p sz reg_index =
     (let (addr, bp') = alloc_mem (word_of_int sz) (bp p); p = p\<lparr>bp := bp'\<rparr> in
      if addr = 0 then ok (1, p)
      else bindR (set_reg p reg_index addr) (\<lambda>p. ok (0, p)))"

definition free_data :: "pcb_t \<Rightarrow> int \<Rightarrow> int res" where
  "free_data p reg_index = bindR (reg_at p reg_index) (\<lambda>a. ok (free_mem a))"

definition cpu_read :: "pcb_t \<Rightarrow> int \<Rightarrow> int \<Rightarrow> int \<Rightarrow> (int \<times> pcb_t) res" where
  "cpu_read p source offset destination =
     bindR (reg_at p source) (\<lambda>a.
     bindR (read_mem (a + word_of_int offset) (page_table p)) (\<lambda>(r, data).
     if r \<noteq> 0 then
       bindR (from_opt Uninitialised data) (\<lambda>data.
       bindR (set_reg p destination (ucast data)) (\<lambda>p. ok (0, p)))
     else ok (1, p)))"

definition cpu_write :: "pcb_t \<Rightarrow> byte \<Rightarrow> int \<Rightarrow> int \<Rightarrow> mem \<Rightarrow> (int \<times> mem) res" where
  "cpu_write p data destination offset m =
     bindR (reg_at p destination) (\<lambda>a. write_mem (a + word_of_int offset) (page_table p) data m)"

text \<open>\<open>run\<close>: one instruction, in the paging configuration.\<close>

definition fetch :: "pcb_t \<Rightarrow> inst_t res" where
  "fetch p = guardR (0 \<le> pc p \<and> nat (pc p) < length (code_text (code p))) OutOfBounds
     (ok (code_text (code p) ! nat (pc p)))"

definition exec :: "inst_t \<Rightarrow> pcb_t \<Rightarrow> paging \<Rightarrow> (int \<times> paging) res" where
  "exec ins p st =
     (case opcode ins of
        CALC \<Rightarrow> ok (calc p, st)
      | ALLOC \<Rightarrow> pgalloc (pid p) (arg_0 ins) (arg_1 ins) st
      | MALLOC \<Rightarrow> pgmalloc (pid p) (arg_0 ins) (arg_1 ins) st
      | FREE \<Rightarrow> pgfree_data (pid p) (arg_0 ins) st
      | READ \<Rightarrow> bindR (pgread (pid p) (arg_0 ins) (arg_1 ins) (arg_2 ins) st) (\<lambda>(stat, data, st). ok (stat, st))
      | WRITE \<Rightarrow> pgwrite (pid p) (word_of_int (arg_0 ins)) (arg_1 ins) (arg_2 ins) st)"

definition run :: "pcb_t \<Rightarrow> paging \<Rightarrow> (int \<times> pcb_t \<times> paging) res" where
  "run p st =
     (if pc p \<ge> code_size (code p) then ok (1, p, st)
      else
        bindR (fetch p) (\<lambda>ins.
        let p = p\<lparr>pc := u32 (pc p + 1)\<rparr> in
        bindR (exec ins p st) (\<lambda>(stat, st). ok (stat, p, st))))"

section \<open>What an instruction leaves alone\<close>

text \<open>The areas and symbol tables of all processes but \<open>P\<close>.\<close>

definition keeps :: "int \<Rightarrow> paging \<Rightarrow> paging \<Rightarrow> bool" where
  "keeps P st st' \<longleftrightarrow> vmemsz st' = vmemsz st \<and>
     (\<forall>q. q \<noteq> P \<longrightarrow> mmap (mm_of st' q) = mmap (mm_of st q) \<and> symrgtbl (mm_of st' q) = symrgtbl (mm_of st q))"

lemma keeps_refl [simp]: "keeps P st st"
  by (simp add: keeps_def)

lemma keeps_trans: "keeps P st st1 \<Longrightarrow> keeps P st1 st2 \<Longrightarrow> keeps P st st2"
  by (simp add: keeps_def)

lemma keeps_update [simp]:
  "keeps P st (st'\<lparr>mram := x\<rparr>) = keeps P st st'" "keeps P st (st'\<lparr>mswp := y\<rparr>) = keeps P st st'"
  "keeps P st (st'\<lparr>lru := z\<rparr>) = keeps P st st'" "keeps P st (st'\<lparr>lock_vm := b\<rparr>) = keeps P st st'"
  "keeps P st (st'\<lparr>lock_mm := b\<rparr>) = keeps P st st'" "keeps P st (set_pte r w st') = keeps P st st'"
  "keeps P st (set_mm P mm st') = keeps P st st'" "keeps P st (MEM_unlock st') = keeps P st st'"
  by (auto simp: keeps_def set_pte_def set_mm_def MEM_unlock_def)

text \<open>Each step of the paging layer, from the right.\<close>

lemma keeps_steps:
  "ram_get st1 = ok (a, b, st2) \<Longrightarrow> keeps P st st2 = keeps P st st1"
  "swp_get st1 = ok (a, b, st2) \<Longrightarrow> keeps P st st2 = keeps P st st1"
  "swp_put f st1 = ok st2 \<Longrightarrow> keeps P st st2 = keeps P st st1"
  "cp_out f g st1 = ok st2 \<Longrightarrow> keeps P st st2 = keeps P st st1"
  "cp_in g f st1 = ok st2 \<Longrightarrow> keeps P st st2 = keeps P st st1"
  "upd_pte r h st1 = ok st2 \<Longrightarrow> keeps P st st2 = keeps P st st1"
  "lru_add r st1 = ok st2 \<Longrightarrow> keeps P st st2 = keeps P st st1"
  "lru_use w st1 = ok st2 \<Longrightarrow> keeps P st st2 = keeps P st st1"
  "lru_victim st1 = ok (v, st2) \<Longrightarrow> keeps P st st2 = keeps P st st1"
  "MEM_lock st1 = ok st2 \<Longrightarrow> keeps P st st2 = keeps P st st1"
  by (auto simp: ram_get_def swp_get_def swp_put_def cp_out_def cp_in_def upd_pte_def lru_add_def lru_use_def
      lru_victim_def MEM_lock_def)

lemma keeps_getpage: "pg_getpage p pg st = ok (r, f, st') \<Longrightarrow> keeps P st st'"
  unfolding pg_getpage_def Let_def by (auto simp: keeps_steps split: if_splits)

lemma keeps_setval: "pg_setval p a v vid st = ok (r, st') \<Longrightarrow> keeps P st st'"
  by (auto simp: pg_setval_def Let_def split: if_splits) (erule keeps_getpage)+

lemma keeps_getval: "pg_getval p a vid st = ok (r, d, st') \<Longrightarrow> keeps P st st'"
  by (auto simp: pg_getval_def Let_def split: if_splits) (erule keeps_getpage)+

lemma keeps_alloc_pages: "alloc_pages_range p n fs st = ok (r, fs', st') \<Longrightarrow> keeps P st st'"
proof (induction n arbitrary: fs st)
  case (Suc n)
  then obtain f st1 where 1: "alloc_pages_range p n (f # fs) st1 = ok (r, fs', st')" "keeps P st st1"
    by (auto simp: keeps_steps split: if_splits)
  from Suc.IH [OF 1(1)] 1(2) show ?case by (metis keeps_trans)
qed simp

lemma keeps_vmap_loop: "vmap_loop p vid pg n fs st = ok (r, st') \<Longrightarrow> keeps P st st'"
proof (induction n arbitrary: fs st)
  case (Suc n)
  show ?case
  proof (cases fs)
    case Nil
    with Suc.prems show ?thesis by simp
  next
    case (Cons f rest)
    with Suc.prems obtain st1 where 1: "vmap_loop p vid pg n rest st1 = ok (r, st')" "keeps P st st1"
      by (auto simp: keeps_steps Let_def)
    from Suc.IH [OF 1(1)] 1(2) show ?thesis by (metis keeps_trans)
  qed
qed simp

lemma keeps_vmap_page_range: "vmap_page_range p a n fs vid st = ok (r, rg, st') \<Longrightarrow> keeps P st st'"
  by (auto simp: vmap_page_range_def split: if_splits intro: keeps_vmap_loop)

lemma keeps_vm_map_ram:
  assumes "vm_map_ram p vid a n st = ok (r, st')"
  shows "keeps P st st'"
proof -
  obtain ret fs st1 where 1: "alloc_pages_range p (nat n) [] (st\<lparr>lock_mm := True\<rparr>) = ok (ret, fs, st1)"
    using assms by (auto simp: vm_map_ram_def)
  have k: "keeps P (st\<lparr>lock_mm := True\<rparr>) st1" using 1 by (rule keeps_alloc_pages)
  then have k1: "keeps P st st1" by (simp add: keeps_def)
  show ?thesis
  proof (cases "ret < 0")
    case True
    with assms 1 k1 show ?thesis by (auto simp: vm_map_ram_def)
  next
    case False
    with assms 1 obtain a' st2 q rg where 2: "vmap_page_range p a' n fs vid st1 = ok (q, rg, st2)" "st' = st2\<lparr>lock_mm := False\<rparr>"
      by (auto simp: vm_map_ram_def split: if_splits)
    from keeps_vmap_page_range [OF 2(1), of P] k1 2(2) show ?thesis by (simp add: keeps_def)
  qed
qed

lemma keeps_vm_map_ram_mm:
  assumes "vm_map_ram P vid a n (set_mm P mm st) = ok (r, st')"
  shows "keeps P st st'"
proof -
  have "keeps P (set_mm P mm st) st'" using assms by (rule keeps_vm_map_ram)
  then show ?thesis by (auto simp: keeps_def set_mm_def)
qed

lemma keeps_inc_vma_limit: "inc_vma_limit P vid sz st = ok (r, st') \<Longrightarrow> keeps P st st'"
  by (auto simp: inc_vma_limit_def Let_def split: if_splits) (erule keeps_vm_map_ram_mm)+

lemma keeps_realloc_page: "realloc_page p i st = ok (r, st') \<Longrightarrow> keeps P st st'"
  unfolding realloc_page_def Let_def by (auto simp: keeps_steps split: if_splits)

lemma keeps_realloc_pages: "realloc_pages p is st = ok (r, st') \<Longrightarrow> keeps P st st'"
proof (induction "is" arbitrary: st)
  case (Cons i "is")
  obtain q st1 where 1: "realloc_page p i st = ok (q, st1)" "st' = st1 \<or> realloc_pages p is st1 = ok (r, st')"
    using Cons.prems by (auto split: if_splits)
  from keeps_realloc_page [OF 1(1), of P] 1(2) Cons.IH show ?case by (metis keeps_trans)
qed simp

lemma keeps_alloc_at_brk: "alloc_at_brk P vid rgid sz st = ok (r, a, st') \<Longrightarrow> keeps P st st'"
  by (auto simp: alloc_at_brk_def Let_def split: if_splits prod.splits) (erule keeps_inc_vma_limit)+

lemma keeps_do_alloc:
  assumes "do_alloc P vid rgid sz st = ok (r, a, st')"
  shows "keeps P st st'"
proof -
  obtain found rg mm where g: "get_free_vmrg_area (mm_of st P) vid sz = ok (found, rg, mm)"
    using assms by (auto simp: do_alloc_def)
  let ?st = "set_mm P mm st"
  have k0: "keeps P st ?st" by simp
  show ?thesis
  proof (cases "found = 0")
    case True
    with assms g obtain mm2 where "realloc_pages P (region_pages vid rg) (set_mm P mm2 ?st) = ok (r, st')"
      by (auto simp: do_alloc_def Let_def)
    from keeps_realloc_pages [OF this, of P] show ?thesis by (auto simp: keeps_def set_mm_def)
  next
    case False
    with assms g have "alloc_at_brk P vid rgid sz ?st = ok (r, a, st')" by (simp add: do_alloc_def)
    then have "keeps P ?st st'" by (rule keeps_alloc_at_brk)
    with k0 show ?thesis by (rule keeps_trans)
  qed
qed

lemma keeps_zero_loop: "zero_loop p vid as st = ok st' \<Longrightarrow> keeps P st st'"
proof (induction as arbitrary: st)
  case (Cons a as)
  obtain q st1 where 1: "pg_setval p (s32 a) 0 vid st = ok (q, st1)" "zero_loop p vid as st1 = ok st'"
    using Cons.prems by auto
  from keeps_setval [OF 1(1), of P] Cons.IH [OF 1(2)] show ?case by (rule keeps_trans)
qed simp

lemma keeps_do_free:
  assumes "do_free P rgid st = ok (r, st')"
  shows "keeps P st st'"
proof (cases "st' = st")
  case False
  obtain vid as st1 mm' where z: "zero_loop P vid as st = ok st1" "st' = set_mm P mm' st1"
    using assms False by (auto simp: do_free_def Let_def split: if_splits)
  from keeps_zero_loop [OF z(1), of P] z(2) show ?thesis by simp
qed simp

lemma keeps_do_read: "do_read p rgid off st = ok (r, d, st') \<Longrightarrow> keeps P st st'"
  by (auto simp: do_read_def keeps_steps split: option.splits) (erule keeps_getval)

lemma keeps_do_write: "do_write p rgid off v st = ok (r, st') \<Longrightarrow> keeps P st st'"
  by (auto simp: do_write_def keeps_steps split: option.splits) (erule keeps_setval)

lemma keeps_exec: "exec ins p st = ok (r, st') \<Longrightarrow> keeps (pid p) st st'"
  by (cases "opcode ins")
    (auto simp: exec_def pgalloc_def pgmalloc_def pgfree_data_def pgread_def pgwrite_def
      intro: keeps_do_alloc keeps_do_free keeps_do_read keeps_do_write)

section \<open>Properties\<close>

text \<open>
  C28. One call of \<open>run\<close>: at the end of the code it returns 1 and changes nothing; otherwise, if the
  instruction returns, the program counter has moved by one, everything else in the process is
  unchanged, and the areas and symbol table of every other process are untouched.
\<close>

theorem run_step:
  assumes "run p st = ok (stat, p', st')" "code_size (code p) < 4294967296" "0 \<le> pc p"
  shows "(if code_size (code p) \<le> pc p then stat = 1 \<and> p' = p \<and> st' = st else p' = p\<lparr>pc := pc p + 1\<rparr>) \<and>
    (\<forall>q. q \<noteq> pid p \<longrightarrow> mmap (mm_of st' q) = mmap (mm_of st q) \<and> symrgtbl (mm_of st' q) = symrgtbl (mm_of st q))"
proof (cases "code_size (code p) \<le> pc p")
  case True
  with assms(1) show ?thesis by (simp add: run_def)
next
  case False
  have u: "u32 (pc p + 1) = pc p + 1" using False assms(2,3) by (simp add: u32_id)
  obtain ins where r: "exec ins (p\<lparr>pc := pc p + 1\<rparr>) st = ok (stat, st')" "p' = p\<lparr>pc := pc p + 1\<rparr>"
    using assms(1) False u by (auto simp: run_def Let_def)
  have "keeps (pid p) st st'" using keeps_exec [OF r(1)] by simp
  with r(2) False show ?thesis by (simp add: keeps_def)
qed

text \<open>
  The legacy instructions never work: an allocation fails for every size and register, and a read
  treats the failure of the memory as success and goes on with a byte that was never read.
\<close>

theorem legacy_instructions:
  "alloc p sz reg = ok (1, p) \<and>
   (0 \<le> src \<and> src < 10 \<longrightarrow> cpu_read p src off dst = Inl Uninitialised \<and> cpu_write p data src off m = ok (1, m) \<and> free_data p src = ok 0)"
  by (simp add: alloc_def alloc_mem_def cpu_read_def cpu_write_def free_data_def reg_at_def read_mem_def write_mem_def
      translate_def get_trans_table_def free_mem_def)

section \<open>Witnesses\<close>

definition proc_ex :: pcb_t where
  "proc_ex = \<lparr>pid = 1, priority = 0,
     code = \<lparr>code_text = [\<lparr>opcode = CALC, arg_0 = 0, arg_1 = 0, arg_2 = 0\<rparr>], code_size = 1\<rparr>,
     regs = replicate 10 0, pc = 0, prio = 5, page_table = \<lparr>pt_table = []\<rparr>, bp = 1024\<rparr>"

lemma run_ex: "run proc_ex st = ok (0, proc_ex\<lparr>pc := 1\<rparr>, st)"
  by (simp add: run_def fetch_def exec_def calc_def proc_ex_def u32_def)

theorem run_step_witness:
  "run proc_ex st_rg = ok (0, proc_ex\<lparr>pc := 1\<rparr>, st_rg) \<and> pc (proc_ex\<lparr>pc := 1\<rparr>) = pc proc_ex + 1"
proof -
  have "code_size (code proc_ex) = 1" "pc proc_ex = 0" by (simp_all add: proc_ex_def)
  with run_step [OF run_ex [of st_rg]] run_ex [of st_rg] show ?thesis by simp
qed

theorem legacy_instructions_witness:
  "cpu_read proc_ex 2 0 3 = Inl Uninitialised \<and> free_data proc_ex 2 = ok 0"
  using legacy_instructions [of proc_ex 0 0 2] by simp

end
