(* ===== verification/Scan.thy ===== *)
theory Scan
  imports OS_Prelude
begin

text \<open>
  The conversions of \<open>fscanf\<close> that the loader and the configuration reader use, on the rest of the
  input: a conversion that does not match stores nothing and ends the call, a white-space directive
  skips white space. Then the decimal numbers as they are written, and that they are read back.
\<close>

section \<open>Scanning\<close>

definition is_space :: "char \<Rightarrow> bool" where
  "is_space c \<longleftrightarrow> (of_char c :: nat) \<in> {9, 10, 11, 12, 13, 32}"

definition is_digit :: "char \<Rightarrow> bool" where
  "is_digit c \<longleftrightarrow> 48 \<le> (of_char c :: nat) \<and> (of_char c :: nat) \<le> 57"

definition skip_ws :: "string \<Rightarrow> string" where
  "skip_ws = dropWhile is_space"

definition dec_val :: "string \<Rightarrow> int" where
  "dec_val ds = foldl (\<lambda>acc c. acc * 10 + (int (of_char c) - 48)) 0 ds"

text \<open>
  A numeric conversion: an optional sign and decimal digits. \<open>conv\<close> gives the value stored for the
  sign and the digits' value: \<open>%u\<close> and \<open>%lu\<close> convert like \<open>strtoul\<close> and \<open>%d\<close> like \<open>strtol\<close> (saturating
  at 64 bits), then the value is stored at the width of the variable. \<open>None\<close> when there is no digit.
\<close>

definition scan_num :: "(bool \<Rightarrow> int \<Rightarrow> int) \<Rightarrow> string \<Rightarrow> int option \<times> string" where
  "scan_num conv inp =
     (let inp = skip_ws inp;
          (neg, inp) = (case inp of
              c # cs \<Rightarrow> if c = CHR ''-'' then (True, cs) else if c = CHR ''+'' then (False, cs) else (False, inp)
            | [] \<Rightarrow> (False, inp));
          ds = takeWhile is_digit inp
      in if ds = [] then (None, inp) else (Some (conv neg (dec_val ds)), dropWhile is_digit inp))"

definition strtoul :: "bool \<Rightarrow> int \<Rightarrow> int" where
  "strtoul neg v = (if v > 18446744073709551615 then 18446744073709551615 else if neg then u64 (- v) else v)"

definition strtol :: "bool \<Rightarrow> int \<Rightarrow> int" where
  "strtol neg v = (if neg then max (- v) (- 9223372036854775808) else min v 9223372036854775807)"

definition scan_u :: "string \<Rightarrow> int option \<times> string" where
  "scan_u = scan_num (\<lambda>neg v. u32 (strtoul neg v))"

definition scan_lu :: "string \<Rightarrow> int option \<times> string" where
  "scan_lu = scan_num strtoul"

definition scan_d :: "string \<Rightarrow> int option \<times> string" where
  "scan_d = scan_num (\<lambda>neg v. s32 (strtol neg v))"

text \<open>\<open>k\<close> conversions in a row: the values stored, and the rest of the input.\<close>

fun scan_many :: "(string \<Rightarrow> int option \<times> string) \<Rightarrow> nat \<Rightarrow> string \<Rightarrow> int list \<times> string" where
  "scan_many sc 0 inp = ([], inp)"
| "scan_many sc (Suc k) inp =
     (case sc inp of
        (None, inp) \<Rightarrow> ([], inp)
      | (Some v, inp) \<Rightarrow> (case scan_many sc k inp of (vs, inp) \<Rightarrow> (v # vs, inp)))"

text \<open>The same followed by a white-space directive, which is reached only when all conversions matched.\<close>

definition scan_many_ws :: "(string \<Rightarrow> int option \<times> string) \<Rightarrow> nat \<Rightarrow> string \<Rightarrow> int list \<times> string" where
  "scan_many_ws sc k inp = (case scan_many sc k inp of (vs, inp) \<Rightarrow> (vs, if length vs = k then skip_ws inp else inp))"

text \<open>\<open>%s\<close>: a non-empty word, or \<open>None\<close> at the end of the input.\<close>

definition scan_s :: "string \<Rightarrow> string option \<times> string" where
  "scan_s inp =
     (let inp = skip_ws inp in
      if inp = [] then (None, inp)
      else (Some (takeWhile (\<lambda>c. \<not> is_space c) inp), dropWhile (\<lambda>c. \<not> is_space c) inp))"

section \<open>Decimal numbers\<close>

definition digit :: "nat \<Rightarrow> char" where
  "digit d = char_of (48 + d)"

fun dec :: "nat \<Rightarrow> string" where
  "dec n = (if n < 10 then [digit n] else dec (n div 10) @ [digit (n mod 10)])"

declare dec.simps [simp del]

section \<open>Scanning what was written\<close>

lemma of_char_digit: "d < 10 \<Longrightarrow> (of_char (digit d) :: nat) = 48 + d"
  by (simp add: digit_def)

lemma is_digit_digit [simp]: "d < 10 \<Longrightarrow> is_digit (digit d)"
  by (simp add: is_digit_def of_char_digit)

lemma dec_digits: "\<forall>c \<in> set (dec n). is_digit c" "dec n \<noteq> []"
  by (induction n rule: dec.induct, subst dec.simps, simp) (subst dec.simps, simp)

lemma dec_val_snoc: "dec_val (ds @ [c]) = dec_val ds * 10 + (int (of_char c) - 48)"
  by (simp add: dec_val_def)

lemma dec_val_dec: "dec_val (dec n) = int n"
proof (induction n rule: dec.induct)
  case (1 n)
  show ?case
  proof (cases "n < 10")
    case True
    then have "dec n = [] @ [digit n]" by (subst dec.simps) simp
    with True show ?thesis by (simp only: dec_val_snoc) (simp add: dec_val_def of_char_digit)
  next
    case False
    then have "dec n = dec (n div 10) @ [digit (n mod 10)]" by (subst dec.simps) simp
    moreover have "int (n div 10) * 10 + int (n mod 10) = int n"
      by (metis div_mult_mod_eq of_nat_add of_nat_mult of_nat_numeral)
    ultimately show ?thesis using 1 False by (simp add: dec_val_snoc of_char_digit del: of_nat_add of_nat_mult)
  qed
qed

text \<open>Input that a number or a word ends at.\<close>

definition stops :: "string \<Rightarrow> bool" where
  "stops inp \<longleftrightarrow> inp = [] \<or> is_space (hd inp)"

lemma space_not_digit: "is_space c \<Longrightarrow> \<not> is_digit c"
  by (auto simp: is_space_def is_digit_def)

lemma takeWhile_stops:
  assumes "stops rest" "\<forall>c \<in> set xs. P c" "\<And>c. is_space c \<Longrightarrow> \<not> P c"
  shows "takeWhile P (xs @ rest) = xs" "dropWhile P (xs @ rest) = rest"
proof -
  have "takeWhile P rest = [] \<and> dropWhile P rest = rest" using assms(1,3) by (cases rest) (auto simp: stops_def)
  with assms(2) show "takeWhile P (xs @ rest) = xs" "dropWhile P (xs @ rest) = rest" by (simp_all add: takeWhile_append2)
qed

lemma digit_not_sign: "is_digit c \<Longrightarrow> c \<noteq> CHR ''-'' \<and> c \<noteq> CHR ''+'' \<and> \<not> is_space c"
  by (auto simp: is_digit_def is_space_def)

lemma skip_ws_digit: "is_digit c \<Longrightarrow> skip_ws (c # cs) = c # cs"
  by (simp add: skip_ws_def digit_not_sign)

lemma skip_ws_space [simp]: "is_space c \<Longrightarrow> skip_ws (c # cs) = skip_ws cs"
  by (simp add: skip_ws_def)

lemma skip_ws_idem [simp]: "skip_ws (skip_ws inp) = skip_ws inp"
  by (simp add: skip_ws_def dropWhile_idem)

lemma scan_num_dec:
  assumes "stops rest"
  shows "scan_num conv (dec n @ rest) = (Some (conv False (int n)), rest)"
proof -
  obtain c cs where c: "dec n = c # cs" using dec_digits(2) by (cases "dec n") auto
  have d: "is_digit c" using dec_digits(1) [of n] c by simp
  have tw: "takeWhile is_digit (dec n @ rest) = dec n" "dropWhile is_digit (dec n @ rest) = rest"
    using takeWhile_stops [OF assms dec_digits(1)] space_not_digit by auto
  have skip: "skip_ws (dec n @ rest) = dec n @ rest" using c d by (simp add: skip_ws_digit)
  have sign: "(case dec n @ rest of
              c # cs \<Rightarrow> if c = CHR ''-'' then (True, cs) else if c = CHR ''+'' then (False, cs) else (False, dec n @ rest)
            | [] \<Rightarrow> (False, dec n @ rest)) = (False, dec n @ rest)"
    using c digit_not_sign [OF d] by simp
  show ?thesis
    unfolding scan_num_def Let_def skip sign using dec_digits(2) [of n] by (simp add: tw dec_val_dec)
qed

lemma scan_num_space: "is_space c \<Longrightarrow> scan_num conv (c # inp) = scan_num conv inp"
  by (simp add: scan_num_def)

lemma scan_num_skip: "scan_num conv (skip_ws inp) = scan_num conv inp"
  by (simp add: scan_num_def)

lemma scan_u_dec: "int n < 4294967296 \<Longrightarrow> stops rest \<Longrightarrow> scan_u (dec n @ rest) = (Some (int n), rest)"
  by (simp add: scan_u_def scan_num_dec strtoul_def u32_id)

lemma scan_lu_dec: "int n < 18446744073709551616 \<Longrightarrow> stops rest \<Longrightarrow> scan_lu (dec n @ rest) = (Some (int n), rest)"
  by (simp add: scan_lu_def scan_num_dec strtoul_def)

lemma scan_d_dec: "int n < 2147483648 \<Longrightarrow> stops rest \<Longrightarrow> scan_d (dec n @ rest) = (Some (int n), rest)"
  by (simp add: scan_d_def scan_num_dec strtol_def s32_id)

lemma scan_space:
  "is_space c \<Longrightarrow> scan_u (c # inp) = scan_u inp" "is_space c \<Longrightarrow> scan_lu (c # inp) = scan_lu inp"
  "is_space c \<Longrightarrow> scan_d (c # inp) = scan_d inp"
  by (simp_all add: scan_u_def scan_lu_def scan_d_def scan_num_space)

lemma scan_skip: "scan_u (skip_ws inp) = scan_u inp" "scan_lu (skip_ws inp) = scan_lu inp" "scan_d (skip_ws inp) = scan_d inp"
  by (simp_all add: scan_u_def scan_lu_def scan_d_def scan_num_skip)

lemma space_chars [simp]: "is_space (CHR '' '')" "is_space (CHR 0x0A)"
  by (simp_all add: is_space_def)

text \<open>Converted values are 32-bit unsigned.\<close>

lemma scan_u_range: "scan_u inp = (Some v, rest) \<Longrightarrow> 0 \<le> v \<and> v < 4294967296"
  by (auto simp: scan_u_def scan_num_def Let_def split: if_splits prod.splits list.splits)

lemma scan_many_range: "scan_many scan_u k inp = (vs, rest) \<Longrightarrow> v \<in> set vs \<Longrightarrow> 0 \<le> v \<and> v < 4294967296"
  by (induction k arbitrary: inp vs rest) (auto split: prod.splits option.splits dest: scan_u_range)

end
