(* ===== verification/Loader.thy ===== *)
theory Loader
  imports Cpu Scan
begin

text \<open>
  The process loader of \<open>src/loader.c\<close>. A file is the string of its characters, read with the
  conversions of \<open>Scan\<close>. Memory from \<open>malloc\<close> and the buffer \<open>opcode\<close> start with arbitrary content:
  \<open>proc0\<close> is the fresh process structure and \<open>junk i\<close> the fresh instruction \<open>i\<close>.
\<close>

section \<open>The loader\<close>

definition get_opcode :: "string \<Rightarrow> ins_opcode_t res" where
  "get_opcode opt =
     (if opt = ''calc'' then ok CALC
      else if opt = ''alloc'' then ok ALLOC
      else if opt = ''malloc'' then ok MALLOC
      else if opt = ''free'' then ok FREE
      else if opt = ''read'' then ok READ
      else if opt = ''write'' then ok WRITE
      else Inl (Exit 1))"

text \<open>Storing the converted values in the arguments of an instruction, in order.\<close>

definition store_args :: "int list \<Rightarrow> inst_t \<Rightarrow> inst_t" where
  "store_args vs ins =
     (case vs of
        [] \<Rightarrow> ins
      | [a] \<Rightarrow> ins\<lparr>arg_0 := a\<rparr>
      | [a, b] \<Rightarrow> ins\<lparr>arg_0 := a, arg_1 := b\<rparr>
      | a # b # c # _ \<Rightarrow> ins\<lparr>arg_0 := a, arg_1 := b, arg_2 := c\<rparr>)"

text \<open>The switch of \<open>load\<close>; the case MALLOC falls through to FREE.\<close>

definition load_args :: "ins_opcode_t \<Rightarrow> inst_t \<Rightarrow> string \<Rightarrow> inst_t \<times> string" where
  "load_args oc ins inp =
     (case oc of
        CALC \<Rightarrow> (ins, inp)
      | ALLOC \<Rightarrow> (case scan_many_ws scan_u 2 inp of (vs, inp) \<Rightarrow> (store_args vs ins, inp))
      | MALLOC \<Rightarrow>
          (case scan_many_ws scan_u 2 inp of (vs, inp) \<Rightarrow>
           case scan_many_ws scan_u 1 inp of (ws, inp) \<Rightarrow> (store_args ws (store_args vs ins), inp))
      | FREE \<Rightarrow> (case scan_many_ws scan_u 1 inp of (vs, inp) \<Rightarrow> (store_args vs ins, inp))
      | READ \<Rightarrow> (case scan_many_ws scan_u 3 inp of (vs, inp) \<Rightarrow> (store_args vs ins, inp))
      | WRITE \<Rightarrow> (case scan_many_ws scan_u 3 inp of (vs, inp) \<Rightarrow> (store_args vs ins, inp)))"

text \<open>One iteration. \<open>buf\<close> is the content of \<open>opcode[10]\<close> (\<open>None\<close> before the first word): at the end of
  the file the old word is decoded again; a word of ten characters or more overruns the buffer.\<close>

definition load_inst :: "inst_t \<Rightarrow> string option \<Rightarrow> string \<Rightarrow> (inst_t \<times> string option \<times> string) res" where
  "load_inst ins buf inp =
     (case scan_s inp of (w, inp) \<Rightarrow>
      let buf = (case w of None \<Rightarrow> buf | Some w \<Rightarrow> Some w) in
      bindR (from_opt Uninitialised buf) (\<lambda>opt.
      guardR (length opt < 10) OutOfBounds
        (bindR (get_opcode opt) (\<lambda>oc.
         case load_args oc (ins\<lparr>opcode := oc\<rparr>) inp of (ins, inp) \<Rightarrow> ok (ins, buf, inp)))))"

fun load_loop :: "(nat \<Rightarrow> inst_t) \<Rightarrow> nat \<Rightarrow> nat \<Rightarrow> string option \<Rightarrow> string \<Rightarrow> inst_t list res" where
  "load_loop junk i 0 buf inp = ok []"
| "load_loop junk i (Suc n) buf inp =
     bindR (load_inst (junk i) buf inp) (\<lambda>(ins, buf, inp).
     bindR (load_loop junk (i + 1) n buf inp) (\<lambda>rest. ok (ins # rest)))"

text \<open>\<open>load\<close>: the new process and the next process id. \<open>files\<close> is the file system.\<close>

definition load ::
  "(string \<Rightarrow> string option) \<Rightarrow> pcb_t \<Rightarrow> (nat \<Rightarrow> inst_t) \<Rightarrow> int \<Rightarrow> string \<Rightarrow> (pcb_t \<times> int) res" where
  "load files proc0 junk avail_pid path =
     (let proc = proc0\<lparr>pid := avail_pid, bp := word_of_int PAGE_SIZE, pc := 0\<rparr> in
      case files path of
        None \<Rightarrow> Inl (Exit 1)
      | Some inp \<Rightarrow>
          (case scan_many scan_u 2 inp of (vs, inp) \<Rightarrow>
           let proc = (case vs of a # _ \<Rightarrow> proc\<lparr>priority := a\<rparr> | [] \<Rightarrow> proc);
               sz = (case vs of _ # b # _ \<Rightarrow> b | _ \<Rightarrow> code_size (code proc)) in
           bindR (load_loop junk 0 (nat sz) None inp) (\<lambda>is.
           ok (proc\<lparr>code := \<lparr>code_text = is, code_size = sz\<rparr>\<rparr>, u32 (avail_pid + 1)))))"

section \<open>Writing a program down\<close>

definition args_of :: "inst_t \<Rightarrow> int list" where
  "args_of ins =
     (case opcode ins of
        CALC \<Rightarrow> []
      | ALLOC \<Rightarrow> [arg_0 ins, arg_1 ins]
      | MALLOC \<Rightarrow> [arg_0 ins, arg_1 ins]
      | FREE \<Rightarrow> [arg_0 ins]
      | READ \<Rightarrow> [arg_0 ins, arg_1 ins, arg_2 ins]
      | WRITE \<Rightarrow> [arg_0 ins, arg_1 ins, arg_2 ins])"

definition opcode_name :: "ins_opcode_t \<Rightarrow> string" where
  "opcode_name oc = (case oc of CALC \<Rightarrow> ''calc'' | ALLOC \<Rightarrow> ''alloc'' | MALLOC \<Rightarrow> ''malloc'' | FREE \<Rightarrow> ''free''
     | READ \<Rightarrow> ''read'' | WRITE \<Rightarrow> ''write'')"

definition render_args :: "int list \<Rightarrow> string" where
  "render_args vs = concat (map (\<lambda>v. CHR '' '' # dec (nat v)) vs)"

definition render_inst :: "inst_t \<Rightarrow> string" where
  "render_inst ins = CHR 0x0A # opcode_name (opcode ins) @ render_args (args_of ins)"

definition render :: "nat \<Rightarrow> inst_t list \<Rightarrow> string" where
  "render pr is = dec pr @ CHR '' '' # dec (length is) @ concat (map render_inst is)"

section \<open>Scanning what was written\<close>

definition arg_ok :: "int \<Rightarrow> bool" where
  "arg_ok v \<longleftrightarrow> 0 \<le> v \<and> v < 4294967296"

lemma stops_render_args: "stops rest \<Longrightarrow> stops (render_args vs @ rest)"
  by (cases vs) (auto simp: render_args_def stops_def)

lemma scan_us_args:
  assumes "\<forall>v \<in> set vs. arg_ok v" "stops rest"
  shows "scan_many scan_u (length vs) (render_args vs @ rest) = (vs, rest)"
  using assms(1)
proof (induction vs)
  case (Cons v vs)
  have "scan_u (render_args (v # vs) @ rest) = (Some (int (nat v)), render_args vs @ rest)"
    unfolding render_args_def using Cons.prems assms(2) stops_render_args [of rest vs]
    by (simp add: scan_space(1) scan_u_dec arg_ok_def render_args_def)
  with Cons show ?case by (simp add: arg_ok_def)
qed (simp add: render_args_def)

section \<open>Loading what was written\<close>

text \<open>The instruction as loaded: the arguments it does not have keep the content of fresh memory.\<close>

definition completed :: "inst_t \<Rightarrow> inst_t \<Rightarrow> inst_t" where
  "completed ins fresh = store_args (args_of ins) (fresh\<lparr>opcode := opcode ins\<rparr>)"

abbreviation body :: "inst_t list \<Rightarrow> string" where
  "body is \<equiv> concat (map render_inst is)"

lemma stops_body: "stops (body is)"
  by (cases "is") (auto simp: stops_def render_inst_def)

lemma opcode_name_chars: "\<forall>c \<in> set (opcode_name oc). \<not> is_space c" "opcode_name oc \<noteq> []" "length (opcode_name oc) < 10"
  by (cases oc; simp add: opcode_name_def is_space_def)+

lemma get_opcode_name: "get_opcode (opcode_name oc) = ok oc"
  by (cases oc) (simp_all add: get_opcode_def opcode_name_def)

lemma opcode_name_hd: "\<not> is_digit (hd (opcode_name oc)) \<and> hd (opcode_name oc) \<noteq> CHR ''-'' \<and> hd (opcode_name oc) \<noteq> CHR ''+''"
  by (cases oc) (simp_all add: opcode_name_def is_digit_def)

lemma skip_body:
  "skip_ws (body []) = []"
  "skip_ws (body (ins # is)) = opcode_name (opcode ins) @ render_args (args_of ins) @ body is"
proof -
  obtain c cs where c: "opcode_name (opcode ins) = c # cs" using opcode_name_chars(2) by (cases "opcode_name (opcode ins)") auto
  then have "\<not> is_space c" using opcode_name_chars(1) [of "opcode ins"] by simp
  with c show "skip_ws (body (ins # is)) = opcode_name (opcode ins) @ render_args (args_of ins) @ body is"
    by (simp add: render_inst_def skip_ws_def)
qed (simp add: skip_ws_def)

text \<open>The number that the fall-through of MALLOC asks for is not there.\<close>

lemma scan_u_body: "scan_u (skip_ws (body is)) = (None, skip_ws (body is))"
proof (cases "is")
  case Nil
  then show ?thesis by (simp add: scan_u_def scan_num_def skip_ws_def)
next
  case (Cons ins rest)
  obtain c cs where c: "opcode_name (opcode ins) = c # cs" using opcode_name_chars(2) by (cases "opcode_name (opcode ins)") auto
  then have "\<not> is_digit c" "c \<noteq> CHR ''-''" "c \<noteq> CHR ''+''" "\<not> is_space c"
    using opcode_name_hd [of "opcode ins"] opcode_name_chars(1) [of "opcode ins"] by auto
  with c show ?thesis unfolding Cons skip_body by (simp add: scan_u_def scan_num_def skip_ws_def)
qed

lemma load_args_render:
  assumes "\<forall>v \<in> set (args_of ins). arg_ok v"
  shows "\<exists>inp. load_args (opcode ins) fresh (render_args (args_of ins) @ body is) = (store_args (args_of ins) fresh, inp) \<and>
    skip_ws inp = skip_ws (body is)"
proof -
  note sc = scan_us_args [OF assms stops_body [of "is"]]
  have ws: "scan_many_ws scan_u (length (args_of ins)) (render_args (args_of ins) @ body is) = (args_of ins, skip_ws (body is))"
    by (simp add: scan_many_ws_def sc)
  have ft: "scan_many_ws scan_u 1 (skip_ws (body is)) = ([], skip_ws (body is))"
    by (simp add: scan_many_ws_def scan_u_body)
  show ?thesis
    using ws ft by (cases "opcode ins") (simp_all add: load_args_def args_of_def store_args_def eval_nat_numeral render_args_def)
qed

lemma load_inst_render:
  assumes "skip_ws inp = skip_ws (body (ins # is))" "\<forall>v \<in> set (args_of ins). arg_ok v"
  shows "\<exists>buf' inp'. load_inst fresh buf inp = ok (completed ins fresh, buf', inp') \<and> skip_ws inp' = skip_ws (body is)"
proof -
  let ?nm = "opcode_name (opcode ins)" and ?rest = "render_args (args_of ins) @ body is"
  have st: "stops ?rest" by (rule stops_render_args [OF stops_body])
  have sk: "skip_ws inp = ?nm @ ?rest" by (rule trans [OF assms(1) skip_body(2)])
  have "scan_s inp = (Some ?nm, ?rest)"
    using takeWhile_stops [OF st opcode_name_chars(1)] opcode_name_chars(2) [of "opcode ins"]
    by (simp add: scan_s_def sk)
  moreover obtain inp' where "load_args (opcode ins) (fresh\<lparr>opcode := opcode ins\<rparr>) ?rest = (completed ins fresh, inp')"
    "skip_ws inp' = skip_ws (body is)"
    using load_args_render [OF assms(2)] unfolding completed_def by metis
  ultimately show ?thesis
    using opcode_name_chars(3) [of "opcode ins"] by (simp add: load_inst_def get_opcode_name)
qed

lemma load_loop_render:
  assumes "skip_ws inp = skip_ws (body is)" "\<forall>ins \<in> set is. \<forall>v \<in> set (args_of ins). arg_ok v"
  shows "load_loop junk i (length is) buf inp = ok (map (\<lambda>k. completed (is ! k) (junk (i + k))) [0..<length is])"
  using assms
proof (induction "is" arbitrary: i buf inp)
  case (Cons ins rest)
  obtain buf' inp' where l: "load_inst (junk i) buf inp = ok (completed ins (junk i), buf', inp')" "skip_ws inp' = skip_ws (body rest)"
    using load_inst_render [OF Cons.prems(1), of "junk i" buf] Cons.prems(2) by auto
  have "load_loop junk (i + 1) (length rest) buf' inp' = ok (map (\<lambda>k. completed (rest ! k) (junk (i + 1 + k))) [0..<length rest])"
    using Cons.prems(2) by (intro Cons.IH [OF l(2)]) simp
  with l(1) show ?case by (simp add: upt_conv_Cons map_Suc_upt [symmetric] del: upt_Suc)
qed simp

lemma load_render:
  assumes "files path = Some (render pr is)" "int pr < 4294967296" "int (length is) < 4294967296"
    and "\<forall>ins \<in> set is. \<forall>v \<in> set (args_of ins). arg_ok v"
  shows "\<exists>p. load files proc0 junk avail_pid path = ok (p, u32 (avail_pid + 1)) \<and> pid p = avail_pid \<and> priority p = int pr \<and>
    pc p = 0 \<and> bp p = 1024 \<and> code_size (code p) = int (length is) \<and>
    code_text (code p) = map (\<lambda>k. completed (is ! k) (junk k)) [0..<length is]"
proof -
  have st: "stops (CHR '' '' # dec (length is) @ body is)" by (simp add: stops_def)
  have "scan_many scan_u 2 (render pr is) = ([int pr, int (length is)], body is)"
    using assms(2,3) st stops_body
    by (simp add: render_def numeral_2_eq_2 scan_u_dec scan_space(1))
  moreover have "load_loop junk 0 (length is) None (body is) = ok (map (\<lambda>k. completed (is ! k) (junk k)) [0..<length is])"
    using load_loop_render [OF refl assms(4), of junk 0 None] by simp
  ultimately show ?thesis
    using assms(1) by (simp add: load_def Let_def PAGE_SIZE_def OFFSET_LEN_def)
qed

text \<open>
  C26. The loader reads back every program: for the description written from a priority and a list of
  instructions with 32-bit arguments, \<open>load\<close> returns a process with a fresh id, that priority, the
  program counter at 0 and exactly these instructions. The fall-through of the case MALLOC does no
  harm here, because the word after a MALLOC line is never a number.
\<close>

theorem load_reads_back:
  assumes "files path = Some (render pr is)" "int pr < 4294967296" "int (length is) < 4294967296"
    and "\<forall>ins \<in> set is. \<forall>v \<in> set (args_of ins). arg_ok v"
  shows "\<exists>p. load files proc0 junk avail_pid path = ok (p, u32 (avail_pid + 1)) \<and> pid p = avail_pid \<and> priority p = int pr \<and>
    pc p = 0 \<and> bp p = 1024 \<and> code_size (code p) = int (length is) \<and>
    code_text (code p) = map (\<lambda>k. completed (is ! k) (junk k)) [0..<length is]"
  using assms by (rule load_render)

text \<open>
  The fall-through shows when a MALLOC line has a third number: it overwrites the size, argument 0.
\<close>

theorem malloc_third_number:
  assumes "arg_ok a" "arg_ok b" "arg_ok c"
  shows "load_args MALLOC fresh (render_args [a, b, c] @ body is) = (fresh\<lparr>arg_0 := c, arg_1 := b\<rparr>, skip_ws (body is))"
proof -
  let ?r = "render_args [c] @ body is"
  have "scan_many_ws scan_u 2 (render_args [a, b, c] @ body is) = ([a, b], skip_ws ?r)"
    using assms scan_us_args [of "[a, b]" ?r] stops_render_args [OF stops_body, of "[c]"]
    by (simp add: scan_many_ws_def render_args_def numeral_2_eq_2)
  moreover have "scan_u (skip_ws ?r) = (Some c, body is)"
    using assms scan_u_dec [OF _ stops_body, of "nat c"] by (simp add: render_args_def scan_skip(1) scan_u_dec arg_ok_def)
  then have "scan_many_ws scan_u 1 (skip_ws ?r) = ([c], skip_ws (body is))" by (simp add: scan_many_ws_def)
  ultimately show ?thesis by (simp add: load_args_def store_args_def)
qed

section \<open>Witnesses\<close>

definition prog_ex :: "inst_t list" where
  "prog_ex = [\<lparr>opcode = ALLOC, arg_0 = 300, arg_1 = 0, arg_2 = 7\<rparr>, \<lparr>opcode = CALC, arg_0 = 7, arg_1 = 7, arg_2 = 7\<rparr>]"

definition junk_ex :: "nat \<Rightarrow> inst_t" where
  "junk_ex i = \<lparr>opcode = CALC, arg_0 = 7, arg_1 = 7, arg_2 = 7\<rparr>"

theorem load_reads_back_witness:
  "\<exists>p. load (\<lambda>_. Some (render 3 prog_ex)) proc_ex junk_ex 1 ''p0'' = ok (p, 2) \<and> pid p = 1 \<and> priority p = 3 \<and>
    code_text (code p) = prog_ex"
proof -
  have "u32 (1 + 1) = 2" by (simp add: u32_def)
  then show ?thesis
    using load_reads_back [of "\<lambda>_. Some (render 3 prog_ex)" "''p0''" 3 prog_ex proc_ex junk_ex 1]
    by (auto simp: prog_ex_def args_of_def arg_ok_def completed_def junk_ex_def store_args_def upt_rec numeral_2_eq_2)
qed

theorem malloc_third_number_witness:
  "load_args MALLOC (junk_ex 0) (render_args [40, 1, 9] @ body prog_ex) =
    ((junk_ex 0)\<lparr>arg_0 := 9, arg_1 := 1\<rparr>, skip_ws (body prog_ex))"
  using malloc_third_number [of 40 1 9 "junk_ex 0" prog_ex] by (simp add: arg_ok_def)

end
