(* ===== verification/Config.thy ===== *)
theory Config
  imports Scan
begin

text \<open>
  The configuration of a simulation: \<open>read_config\<close> of \<open>src/os.c\<close>. The static variables it fills are the
  fields of a record and start at zero; \<open>junk\<close> is the content of the fresh array \<open>ld_processes.prio\<close>.
\<close>

section \<open>The configuration\<close>

record config =
  time_slot :: int
  num_cpus :: int
  num_processes :: int
  memramsz :: int
  memswpsz :: "int list"
  cfg_vmemsz :: int
  ld_path :: "string list"
  ld_start_time :: "int list"
  ld_prio :: "int list"

definition config0 :: config where
  "config0 = \<lparr>time_slot = 0, num_cpus = 0, num_processes = 0, memramsz = 0, memswpsz = [0, 0, 0, 0], cfg_vmemsz = 0,
     ld_path = [], ld_start_time = [], ld_prio = []\<rparr>"

text \<open>\<open>strcat\<close> to a buffer of \<open>n\<close> characters.\<close>

definition strcat :: "nat \<Rightarrow> string \<Rightarrow> string \<Rightarrow> string res" where
  "strcat n buf src = guardR (length buf + length src < n) OutOfBounds (ok (buf @ src))"

text \<open>The first line. A conversion that fails leaves the rest of the variables as they are.\<close>

definition read_head :: "string \<Rightarrow> config \<times> string" where
  "read_head inp =
     (case scan_many_ws scan_d 3 inp of (vs, inp) \<Rightarrow>
      (config0\<lparr>time_slot := (case vs of a # _ \<Rightarrow> a | _ \<Rightarrow> 0), num_cpus := (case vs of _ # b # _ \<Rightarrow> b | _ \<Rightarrow> 0),
         num_processes := (case vs of _ # _ # c # _ \<Rightarrow> c | _ \<Rightarrow> 0)\<rparr>, inp))"

text \<open>The memory sizes: RAM, the swap devices and the virtual memory, each its own \<open>fscanf\<close>; a size that
  does not match keeps the value 0.\<close>

definition scan_size :: "string \<Rightarrow> int \<times> string" where
  "scan_size inp = (case scan_d inp of (None, inp) \<Rightarrow> (0, inp) | (Some v, inp) \<Rightarrow> (v, inp))"

definition scan_size_ws :: "string \<Rightarrow> int \<times> string" where
  "scan_size_ws inp = (case scan_d inp of (None, inp) \<Rightarrow> (0, inp) | (Some v, inp) \<Rightarrow> (v, skip_ws inp))"

definition read_sizes :: "config \<Rightarrow> string \<Rightarrow> config \<times> string" where
  "read_sizes cfg inp =
     (let (ram, inp) = scan_size_ws inp;
          (s0, inp) = scan_size inp;
          (s1, inp) = scan_size inp;
          (s2, inp) = scan_size inp;
          (s3, inp) = scan_size inp;
          (vm, inp) = scan_size_ws inp
      in (cfg\<lparr>memramsz := ram, memswpsz := [s0, s1, s2, s3], cfg_vmemsz := vm\<rparr>, skip_ws inp))"

text \<open>One process: start time, program and priority. Without the name the buffer \<open>proc\<close> is unwritten; a
  name of 100 characters or more overruns it, and one of 89 or more overruns the path.\<close>

definition read_process :: "int \<Rightarrow> string \<Rightarrow> (int \<times> string \<times> int \<times> string) res" where
  "read_process junk inp =
     (case scan_lu inp of
        (None, inp) \<Rightarrow> Inl Uninitialised
      | (Some start, inp) \<Rightarrow>
          (case scan_s inp of
             (None, inp) \<Rightarrow> Inl Uninitialised
           | (Some name, inp) \<Rightarrow>
               guardR (length name < 100) OutOfBounds
                 (bindR (strcat 100 ''input/proc/'' name) (\<lambda>path.
                  case scan_lu inp of
                    (None, inp) \<Rightarrow> ok (start, path, junk, inp)
                  | (Some pr, inp) \<Rightarrow> ok (start, path, pr, skip_ws inp)))))"

fun read_processes :: "(nat \<Rightarrow> int) \<Rightarrow> nat \<Rightarrow> nat \<Rightarrow> config \<Rightarrow> string \<Rightarrow> config res" where
  "read_processes junk i 0 cfg inp = ok cfg"
| "read_processes junk i (Suc n) cfg inp =
     bindR (read_process (junk i) inp) (\<lambda>(start, path, pr, inp).
     read_processes junk (i + 1) n (cfg\<lparr>ld_path := ld_path cfg @ [path], ld_start_time := ld_start_time cfg @ [start],
       ld_prio := ld_prio cfg @ [pr]\<rparr>) inp)"

definition read_config :: "(string \<Rightarrow> string option) \<Rightarrow> (nat \<Rightarrow> int) \<Rightarrow> string \<Rightarrow> config res" where
  "read_config files junk path =
     (case files path of
        None \<Rightarrow> Inl (Exit 1)
      | Some inp \<Rightarrow>
          (case read_head inp of (cfg, inp) \<Rightarrow>
           case read_sizes cfg inp of (cfg, inp) \<Rightarrow>
           read_processes junk 0 (nat (num_processes cfg)) cfg inp))"

section \<open>Writing a configuration down\<close>

definition render_proc :: "nat \<times> string \<times> nat \<Rightarrow> string" where
  "render_proc p = (case p of (start, name, pr) \<Rightarrow> CHR 0x0A # dec start @ CHR '' '' # name @ CHR '' '' # dec pr)"

definition sep :: "nat list \<Rightarrow> string" where
  "sep ns = concat (map (\<lambda>n. CHR '' '' # dec n) ns)"

definition render_config :: "nat \<Rightarrow> nat \<Rightarrow> nat list \<Rightarrow> nat \<Rightarrow> (nat \<times> string \<times> nat) list \<Rightarrow> string" where
  "render_config slot cpus sizes vm ps =
     dec slot @ sep [cpus, length ps] @ CHR 0x0A # sep sizes @ sep [vm] @ concat (map render_proc ps)"

abbreviation plines :: "(nat \<times> string \<times> nat) list \<Rightarrow> string" where
  "plines ps \<equiv> concat (map render_proc ps)"

definition name_ok :: "string \<Rightarrow> bool" where
  "name_ok name \<longleftrightarrow> name \<noteq> [] \<and> length name < 89 \<and> (\<forall>c \<in> set name. \<not> is_space c)"

definition proc_ok :: "nat \<times> string \<times> nat \<Rightarrow> bool" where
  "proc_ok p \<longleftrightarrow> (case p of (start, name, pr) \<Rightarrow> name_ok name \<and> int start < 18446744073709551616 \<and> int pr < 18446744073709551616)"

lemma stops_sep: "stops rest \<Longrightarrow> stops (sep ns @ rest)"
  by (cases ns) (auto simp: sep_def stops_def)

lemma stops_plines: "stops (plines ps)"
  by (cases ps) (auto simp: stops_def render_proc_def split: prod.splits)

lemma stops_newline: "stops (CHR 0x0A # rest)" "stops (CHR '' '' # rest)"
  by (simp_all add: stops_def)

lemma scan_s_name:
  assumes "name_ok name" "stops rest"
  shows "scan_s (CHR '' '' # name @ rest) = (Some name, rest)"
proof -
  obtain c cs where c: "name = c # cs" "\<not> is_space c" using assms(1) by (cases name) (auto simp: name_ok_def)
  have "takeWhile (\<lambda>c. \<not> is_space c) (name @ rest) = name" "dropWhile (\<lambda>c. \<not> is_space c) (name @ rest) = rest"
    using takeWhile_stops [OF assms(2), of name "\<lambda>c. \<not> is_space c"] assms(1) by (auto simp: name_ok_def)
  then show ?thesis using c by (simp add: scan_s_def skip_ws_def)
qed

lemma read_process_render:
  assumes "proc_ok (start, name, pr)" "skip_ws inp = skip_ws (plines ((start, name, pr) # ps))"
  shows "read_process junk inp = ok (int start, ''input/proc/'' @ name, int pr, skip_ws (plines ps))"
proof -
  have n: "name_ok name" "int start < 18446744073709551616" "int pr < 18446744073709551616" using assms(1) by (simp_all add: proc_ok_def)
  let ?r2 = "CHR '' '' # dec pr @ plines ps"
  let ?r1 = "CHR '' '' # name @ ?r2"
  have "scan_lu inp = scan_lu (skip_ws (CHR 0x0A # dec start @ ?r1))"
    using assms(2) scan_skip(2) [of inp] by (simp add: render_proc_def)
  also have "\<dots> = (Some (int start), ?r1)" unfolding scan_skip by (simp add: scan_space scan_lu_dec [OF n(2) stops_newline(2)])
  finally have "scan_lu inp = (Some (int start), ?r1)" .
  moreover have "scan_s ?r1 = (Some name, ?r2)" by (rule scan_s_name [OF n(1) stops_newline(2)])
  moreover have "scan_lu ?r2 = (Some (int pr), plines ps)" by (simp add: scan_space scan_lu_dec [OF n(3) stops_plines])
  ultimately show ?thesis using n(1) by (simp add: read_process_def strcat_def name_ok_def)
qed

lemma read_processes_render:
  assumes "\<forall>p \<in> set ps. proc_ok p" "skip_ws inp = skip_ws (plines ps)"
  shows "read_processes junk i (length ps) cfg inp =
    ok (cfg\<lparr>ld_path := ld_path cfg @ map (\<lambda>(_, name, _). ''input/proc/'' @ name) ps,
      ld_start_time := ld_start_time cfg @ map (\<lambda>(start, _, _). int start) ps, ld_prio := ld_prio cfg @ map (\<lambda>(_, _, pr). int pr) ps\<rparr>)"
  using assms
proof (induction ps arbitrary: i cfg inp)
  case (Cons p ps)
  obtain start name pr where p: "p = (start, name, pr)" by (cases p)
  have "read_process (junk i) inp = ok (int start, ''input/proc/'' @ name, int pr, skip_ws (plines ps))"
    using Cons.prems unfolding p by (intro read_process_render) simp_all
  moreover have "\<forall>p \<in> set ps. proc_ok p" "skip_ws (skip_ws (plines ps)) = skip_ws (plines ps)" using Cons.prems by auto
  note Cons.IH [OF this]
  ultimately show ?case unfolding p by simp
qed simp

lemma scan_size_sep:
  assumes "int n < 2147483648" "stops rest"
  shows "scan_size (sep (n # ns) @ rest) = (int n, sep ns @ rest)" "scan_size (skip_ws (sep (n # ns) @ rest)) = (int n, sep ns @ rest)"
    "scan_size_ws (sep (n # ns) @ rest) = (int n, skip_ws (sep ns @ rest))"
  using scan_d_dec [OF assms(1) stops_sep [OF assms(2), of ns]]
  by (simp_all add: scan_size_def scan_size_ws_def sep_def scan_skip scan_space)

lemma scan_many_sep:
  assumes "\<forall>n \<in> set ns. int n < 2147483648" "stops rest"
  shows "scan_many scan_d (length ns) (sep ns @ rest) = (map int ns, rest)"
  using assms(1)
proof (induction ns)
  case (Cons n ns)
  have "scan_d (sep (n # ns) @ rest) = (Some (int n), sep ns @ rest)"
    using Cons.prems scan_d_dec [OF _ stops_sep [OF assms(2), of ns], of n] by (simp add: sep_def scan_space)
  with Cons show ?case by simp
qed (simp add: sep_def)

lemma read_head_render:
  assumes "int slot < 2147483648" "int cpus < 2147483648" "int n < 2147483648" "stops rest"
  shows "read_head (dec slot @ sep [cpus, n] @ rest) =
    (config0\<lparr>time_slot := int slot, num_cpus := int cpus, num_processes := int n\<rparr>, skip_ws rest)"
proof -
  have "scan_many scan_d 2 (sep [cpus, n] @ rest) = ([int cpus, int n], rest)"
    using scan_many_sep [of "[cpus, n]" rest] assms(2-4) by (simp add: numeral_2_eq_2)
  moreover have "scan_d (dec slot @ sep [cpus, n] @ rest) = (Some (int slot), sep [cpus, n] @ rest)"
    by (rule scan_d_dec [OF assms(1) stops_sep [OF assms(4)]])
  ultimately have "scan_many_ws scan_d 3 (dec slot @ sep [cpus, n] @ rest) = ([int slot, int cpus, int n], skip_ws rest)"
    by (simp add: scan_many_ws_def numeral_3_eq_3 numeral_2_eq_2)
  then show ?thesis by (simp add: read_head_def)
qed

lemma read_sizes_render:
  assumes "\<forall>n \<in> {ram, s0, s1, s2, s3, vm}. int n < 2147483648" "stops rest"
    "skip_ws inp = skip_ws (sep [ram, s0, s1, s2, s3, vm] @ rest)"
  shows "read_sizes cfg inp =
    (cfg\<lparr>memramsz := int ram, memswpsz := [int s0, int s1, int s2, int s3], cfg_vmemsz := int vm\<rparr>, skip_ws rest)"
proof -
  have nil: "sep [] @ rest = rest" by (simp add: sep_def)
  have "scan_size_ws inp = scan_size_ws (sep [ram, s0, s1, s2, s3, vm] @ rest)"
    using assms(3) scan_skip(3) [of inp] scan_skip(3) [of "sep [ram, s0, s1, s2, s3, vm] @ rest"] by (simp add: scan_size_ws_def)
  with assms(1,2) scan_size_sep [OF _ assms(2)] nil show ?thesis by (simp add: read_sizes_def)
qed

section \<open>Property\<close>

text \<open>
  C27. The configuration reader reads back what was written: for a file with non-negative sizes in the
  range of an \<open>int\<close>, start times and priorities of 64 bits and program names of at most 88 characters
  without white space, \<open>read_config\<close> returns exactly these values and the paths below \<open>input/proc/\<close>.
\<close>

theorem config_reads_back:
  assumes "files path = Some (render_config slot cpus [ram, s0, s1, s2, s3] vm ps)"
    and "\<forall>n \<in> {slot, cpus, length ps, ram, s0, s1, s2, s3, vm}. int n < 2147483648" "\<forall>p \<in> set ps. proc_ok p"
  shows "read_config files junk path =
    ok \<lparr>time_slot = int slot, num_cpus = int cpus, num_processes = int (length ps), memramsz = int ram,
      memswpsz = [int s0, int s1, int s2, int s3], cfg_vmemsz = int vm,
      ld_path = map (\<lambda>(_, name, _). ''input/proc/'' @ name) ps, ld_start_time = map (\<lambda>(start, _, _). int start) ps,
      ld_prio = map (\<lambda>(_, _, pr). int pr) ps\<rparr>"
proof -
  let ?sizes = "sep [ram, s0, s1, s2, s3, vm] @ plines ps"
  have lay: "render_config slot cpus [ram, s0, s1, s2, s3] vm ps = dec slot @ sep [cpus, length ps] @ (CHR 0x0A # ?sizes)"
    by (simp add: render_config_def sep_def)
  have "read_head (dec slot @ sep [cpus, length ps] @ (CHR 0x0A # ?sizes)) =
      (config0\<lparr>time_slot := int slot, num_cpus := int cpus, num_processes := int (length ps)\<rparr>, skip_ws (CHR 0x0A # ?sizes))"
    by (rule read_head_render) (use assms(2) in \<open>simp_all add: stops_newline\<close>)
  moreover have "skip_ws (skip_ws (CHR 0x0A # ?sizes)) = skip_ws ?sizes" by simp
  note read_sizes_render [OF _ stops_plines this]
  ultimately show ?thesis
    using assms read_processes_render [OF assms(3), of "skip_ws (plines ps)"]
    by (simp add: read_config_def lay config0_def)
qed

theorem config_reads_back_witness:
  "\<exists>cfg. read_config (\<lambda>_. Some (render_config 2 1 [1024, 4096, 0, 0, 0] 2048 [(1, ''p0'', 139)])) (\<lambda>_. 0) ''os'' = ok cfg \<and>
    ld_path cfg = [''input/proc/p0''] \<and> num_cpus cfg = 1 \<and> ld_prio cfg = [139]"
  using config_reads_back [of "\<lambda>_. Some (render_config 2 1 [1024, 4096, 0, 0, 0] 2048 [(1, ''p0'', 139)])" "''os''" 2 1 1024 4096 0 0 0
      2048 "[(1, ''p0'', 139)]" "\<lambda>_. 0"]
  by (simp add: proc_ok_def name_ok_def is_space_def)

end
