(* ===== verification/Queue.thy ===== *)
theory Queue
  imports OS_Prelude
begin

text \<open>
  The process queue of \<open>src/queue.c\<close>: a fixed array of \<open>MAX_QUEUE_SIZE\<close> process pointers and a
  size. A queue holds references to processes (type \<open>'p\<close>); a null result is \<open>None\<close>. The code
  passes addresses of static queues, so \<open>q == NULL\<close> never holds. A full queue ends the program
  with \<open>exit(1)\<close>.
\<close>

section \<open>Operations\<close>

definition MAX_QUEUE_SIZE :: nat where
  "MAX_QUEUE_SIZE = 10"

record 'p queue_t =
  proc :: "nat \<Rightarrow> 'p"
  qsize :: nat

definition empty :: "'p queue_t \<Rightarrow> bool" where
  "empty q \<longleftrightarrow> qsize q = 0"

definition enqueue :: "'p queue_t \<Rightarrow> 'p \<Rightarrow> 'p queue_t res" where
  "enqueue q p =
     (if qsize q < MAX_QUEUE_SIZE
      then ok (q\<lparr>proc := (proc q)(qsize q := p), qsize := qsize q + 1\<rparr>)
      else Inl (Exit 1))"

text \<open>The shifting loop of \<open>dequeue\<close>, from index \<open>i\<close> up to \<open>size - 1\<close>.\<close>

function shift_left :: "nat \<Rightarrow> nat \<Rightarrow> (nat \<Rightarrow> 'p) \<Rightarrow> (nat \<Rightarrow> 'p)" where
  "shift_left i n a = (if i < n then shift_left (i + 1) n (a(i := a (i + 1))) else a)"
  by pat_completeness auto
termination
  by (relation "measure (\<lambda>(i, n, a). n - i)") auto

declare shift_left.simps [simp del]

definition dequeue :: "'p queue_t \<Rightarrow> 'p option \<times> 'p queue_t" where
  "dequeue q =
     (if empty q then (None, q)
      else (Some (proc q 0), q\<lparr>proc := shift_left 0 (qsize q - 1) (proc q), qsize := qsize q - 1\<rparr>))"

text \<open>Dequeue \<open>n\<close> times, collecting what comes out.\<close>

fun drain :: "('q \<Rightarrow> 'p option \<times> 'q) \<Rightarrow> nat \<Rightarrow> 'q \<Rightarrow> 'p list" where
  "drain deq 0 q = []"
| "drain deq (Suc n) q =
     (case deq q of (None, q') \<Rightarrow> [] | (Some p, q') \<Rightarrow> p # drain deq n q')"

section \<open>The contract of a bounded first-in first-out queue\<close>

locale bounded_queue =
  fixes is_empty :: "'q \<Rightarrow> bool"
    and enq :: "'q \<Rightarrow> 'p \<Rightarrow> 'q res"
    and deq :: "'q \<Rightarrow> 'p option \<times> 'q"
    and elems :: "'q \<Rightarrow> 'p list"
    and inv :: "'q \<Rightarrow> bool"
    and cap :: nat
  assumes is_empty_iff: "inv q \<Longrightarrow> is_empty q \<longleftrightarrow> elems q = []"
    and inv_cap: "inv q \<Longrightarrow> length (elems q) \<le> cap"
    and enq_ok: "inv q \<Longrightarrow> length (elems q) < cap \<Longrightarrow>
      \<exists>q'. enq q p = ok q' \<and> inv q' \<and> elems q' = elems q @ [p]"
    and enq_full: "inv q \<Longrightarrow> length (elems q) = cap \<Longrightarrow> enq q p = Inl (Exit 1)"
    and deq_empty: "inv q \<Longrightarrow> elems q = [] \<Longrightarrow> deq q = (None, q)"
    and deq_some: "inv q \<Longrightarrow> elems q = p # ps \<Longrightarrow>
      \<exists>q'. deq q = (Some p, q') \<and> inv q' \<and> elems q' = ps"
begin

lemma enq_Inr:
  assumes "inv q" "enq q p = ok q'"
  shows "inv q' \<and> elems q' = elems q @ [p] \<and> length (elems q) < cap"
proof -
  have "length (elems q) \<noteq> cap" using assms enq_full by auto
  with inv_cap [OF assms(1)] have l: "length (elems q) < cap" by simp
  with enq_ok [OF assms(1) l, of p] assms(2) show ?thesis by auto
qed

lemma deq_Some:
  assumes "inv q" "deq q = (Some p, q')"
  shows "inv q' \<and> elems q = p # elems q'"
proof (cases "elems q")
  case Nil
  with assms deq_empty show ?thesis by auto
next
  case (Cons x xs)
  from deq_some [OF assms(1) Cons] assms(2) Cons show ?thesis by auto
qed

lemma deq_ne:
  assumes "inv q" "\<not> is_empty q"
  shows "\<exists>q'. deq q = (Some (hd (elems q)), q') \<and> inv q' \<and> elems q = hd (elems q) # elems q'"
proof -
  from assms obtain p ps where "elems q = p # ps" by (cases "elems q") (auto simp: is_empty_iff)
  with deq_some [OF assms(1) this] show ?thesis by auto
qed

lemma drain_elems:
  assumes "inv q"
  shows "drain deq (length (elems q)) q = elems q"
  using assms
proof (induction "elems q" arbitrary: q)
  case Nil
  then show ?case by (metis drain.simps(1) list.size(3))
next
  case (Cons p ps)
  from deq_some [OF Cons.prems Cons.hyps(2) [symmetric]]
  obtain q' where q': "deq q = (Some p, q')" "inv q'" "elems q' = ps" by blast
  with Cons.hyps(1) [of q'] have "drain deq (length ps) q' = ps" by simp
  with q'(1) Cons.hyps(2) [symmetric] show ?case by simp
qed

end

section \<open>The array queue meets the contract\<close>

definition queue_ok :: "'p queue_t \<Rightarrow> bool" where
  "queue_ok q \<longleftrightarrow> qsize q \<le> MAX_QUEUE_SIZE"

definition queue_list :: "'p queue_t \<Rightarrow> 'p list" where
  "queue_list q = map (proc q) [0..<qsize q]"

lemma shift_left_eq: "shift_left i n a = (\<lambda>j. if i \<le> j \<and> j < n then a (j + 1) else a j)"
proof (induction i n a rule: shift_left.induct)
  case (1 i n a)
  show ?case
  proof (cases "i < n")
    case True
    from True have "shift_left i n a = shift_left (i + 1) n (a(i := a (i + 1)))"
      by (subst shift_left.simps) simp
    also have "\<dots> = (\<lambda>j. if i + 1 \<le> j \<and> j < n then (a(i := a (i + 1))) (j + 1) else (a(i := a (i + 1))) j)"
      by (rule 1 [OF True])
    finally show ?thesis using True by (auto simp: fun_eq_iff)
  next
    case False
    then show ?thesis by (subst shift_left.simps) (auto simp: fun_eq_iff)
  qed
qed

lemma length_queue_list [simp]: "length (queue_list q) = qsize q"
  by (simp add: queue_list_def)

lemma queue_list_dequeue:
  assumes "queue_list q = p # ps"
  shows "dequeue q = (Some p, q\<lparr>proc := shift_left 0 (qsize q - 1) (proc q), qsize := qsize q - 1\<rparr>)"
    and "map (shift_left 0 (qsize q - 1) (proc q)) [0..<qsize q - 1] = ps"
proof -
  from assms have n: "qsize q = Suc (length ps)" by (metis length_queue_list length_Cons)
  have "[0..<Suc (length ps)] = 0 # map Suc [0..<length ps]"
    by (simp add: upt_conv_Cons map_Suc_upt del: upt_Suc)
  with assms n have "p # ps = proc q 0 # map (proc q \<circ> Suc) [0..<length ps]"
    by (simp only: queue_list_def list.map list.map_comp)
  then have p: "proc q 0 = p" and ps: "map (proc q \<circ> Suc) [0..<length ps] = ps"
    by auto
  from p n show "dequeue q = (Some p, q\<lparr>proc := shift_left 0 (qsize q - 1) (proc q), qsize := qsize q - 1\<rparr>)"
    by (simp add: dequeue_def empty_def)
  from n have "map (shift_left 0 (qsize q - 1) (proc q)) [0..<qsize q - 1] = map (proc q \<circ> Suc) [0..<length ps]"
    by (simp add: shift_left_eq)
  with ps show "map (shift_left 0 (qsize q - 1) (proc q)) [0..<qsize q - 1] = ps" by simp
qed

interpretation pq: bounded_queue empty enqueue dequeue queue_list queue_ok MAX_QUEUE_SIZE
proof
  fix q :: "'p queue_t" and p ps
  show "empty q \<longleftrightarrow> queue_list q = []" by (simp add: empty_def queue_list_def)
  show "queue_ok q \<Longrightarrow> length (queue_list q) \<le> MAX_QUEUE_SIZE" by (simp add: queue_ok_def)
  show "queue_ok q \<Longrightarrow> length (queue_list q) < MAX_QUEUE_SIZE \<Longrightarrow>
      \<exists>q'. enqueue q p = ok q' \<and> queue_ok q' \<and> queue_list q' = queue_list q @ [p]"
    by (auto simp: enqueue_def queue_ok_def queue_list_def)
  show "queue_ok q \<Longrightarrow> length (queue_list q) = MAX_QUEUE_SIZE \<Longrightarrow> enqueue q p = Inl (Exit 1)"
    by (simp add: enqueue_def)
  show "queue_ok q \<Longrightarrow> queue_list q = [] \<Longrightarrow> dequeue q = (None, q)"
    by (simp add: dequeue_def empty_def queue_list_def)
  assume q: "queue_ok q" "queue_list q = p # ps"
  show "\<exists>q'. dequeue q = (Some p, q') \<and> queue_ok q' \<and> queue_list q' = ps"
    using q(1) queue_list_dequeue [OF q(2)] by (simp add: queue_ok_def queue_list_def)
qed

section \<open>Properties\<close>

fun enqueue_all :: "'p queue_t \<Rightarrow> 'p list \<Rightarrow> 'p queue_t res" where
  "enqueue_all q [] = ok q"
| "enqueue_all q (p # ps) = bindR (enqueue q p) (\<lambda>q. enqueue_all q ps)"

lemma enqueue_all_list:
  "queue_ok q \<Longrightarrow> qsize q + length ps \<le> MAX_QUEUE_SIZE \<Longrightarrow>
   \<exists>q'. enqueue_all q ps = ok q' \<and> queue_ok q' \<and> queue_list q' = queue_list q @ ps"
proof (induction ps arbitrary: q)
  case Nil
  then show ?case by simp
next
  case (Cons p ps)
  then have "length (queue_list q) < MAX_QUEUE_SIZE" by simp
  from pq.enq_ok [OF Cons.prems(1) this, of p]
  obtain q' where q': "enqueue q p = ok q'" "queue_ok q'" "queue_list q' = queue_list q @ [p]" by blast
  then have "length (queue_list q') = length (queue_list q) + 1" by simp
  then have "qsize q' + length ps \<le> MAX_QUEUE_SIZE" using Cons.prems(2) by simp
  from Cons.IH [OF q'(2) this] q' show ?case by auto
qed

text \<open>Processes leave a queue in the order in which they entered: enqueueing the processes \<open>ps\<close> into
  an empty queue (at most \<open>MAX_QUEUE_SIZE\<close> of them) succeeds, and dequeueing that many times
  yields exactly \<open>ps\<close>.\<close>

theorem queue_fifo:
  assumes "qsize q = 0" "length ps \<le> MAX_QUEUE_SIZE"
  shows "\<exists>q'. enqueue_all q ps = ok q' \<and> drain dequeue (length ps) q' = ps"
proof -
  have e: "queue_list q = []" "queue_ok q"
    using assms(1) by (simp_all add: queue_list_def queue_ok_def)
  from enqueue_all_list [of q ps] assms e
  obtain q' where q': "enqueue_all q ps = ok q'" "queue_ok q'" "queue_list q' = ps" by auto
  from pq.drain_elems [OF q'(2)] q' show ?thesis by auto
qed

theorem queue_fifo_witness:
  "\<exists>q'. enqueue_all \<lparr>proc = (\<lambda>_. 0), qsize = 0\<rparr> [4, 5, 6 :: int] = ok q' \<and> drain dequeue 3 q' = [4, 5, 6]"
proof -
  have "length [4, 5, 6 :: int] = 3" by simp
  moreover have "length [4, 5, 6 :: int] \<le> MAX_QUEUE_SIZE" by (simp add: MAX_QUEUE_SIZE_def)
  moreover have "qsize \<lparr>proc = (\<lambda>_. 0 :: int), qsize = 0\<rparr> = 0" by simp
  ultimately show ?thesis using queue_fifo by metis
qed

end
