(* ===== verification/Sched.thy ===== *)
theory Sched
  imports Queue "HOL-Library.Multiset"
begin

text \<open>
  The multi-level queue scheduler of \<open>src/sched.c\<close> in the configured variant (\<open>MLQ_SCHED\<close>): 140
  ready queues, one per priority, and a slot counter per queue. Each operation runs under
  \<open>queue_lock\<close> from beginning to end, so it is one atomic step here. Processes are references
  (\<open>'p\<close>); \<open>prio_of\<close> reads the \<open>prio\<close> field behind a reference.
\<close>

section \<open>State\<close>

definition MAX_PRIO :: nat where
  "MAX_PRIO = 140"

record 'p sched =
  mlq_ready_queue :: "nat \<Rightarrow> 'p queue_t"
  mlq_ready_queue_slot :: "nat \<Rightarrow> int"
  ready_queue :: "'p queue_t"
  run_queue :: "'p queue_t"

section \<open>Operations\<close>

definition init_slot :: "'p sched \<Rightarrow> 'p sched" where
  "init_slot s = s\<lparr>mlq_ready_queue_slot :=
     (\<lambda>i. if i < MAX_PRIO then int MAX_PRIO - int i else mlq_ready_queue_slot s i)\<rparr>"

definition queue_empty :: "'p sched \<Rightarrow> int" where
  "queue_empty s =
     (if list_ex (\<lambda>prio. \<not> empty (mlq_ready_queue s prio)) [0..<MAX_PRIO] then - 1
      else if empty (ready_queue s) \<and> empty (run_queue s) then 1 else 0)"

definition init_scheduler :: "'p sched \<Rightarrow> 'p sched" where
  "init_scheduler s =
     (let s = s\<lparr>mlq_ready_queue := (\<lambda>i. if i < MAX_PRIO then (mlq_ready_queue s i)\<lparr>qsize := 0\<rparr>
                                        else mlq_ready_queue s i)\<rparr>;
          s = init_slot s
      in s\<lparr>ready_queue := (ready_queue s)\<lparr>qsize := 0\<rparr>, run_queue := (run_queue s)\<lparr>qsize := 0\<rparr>\<rparr>)"

text \<open>The \<open>for\<close> loop of \<open>get_mlq_proc\<close>: the first non-empty queue with a slot left is served.\<close>

definition mlq_select :: "'p sched \<Rightarrow> nat option" where
  "mlq_select s =
     find (\<lambda>i. \<not> empty (mlq_ready_queue s i) \<and> mlq_ready_queue_slot s i \<noteq> 0) [0..<MAX_PRIO]"

definition mlq_take :: "'p sched \<Rightarrow> 'p option \<times> 'p sched" where
  "mlq_take s =
     (case mlq_select s of
        None \<Rightarrow> (None, s)
      | Some i \<Rightarrow>
          let (p, q) = dequeue (mlq_ready_queue s i)
          in (p, s\<lparr>mlq_ready_queue := (mlq_ready_queue s)(i := q),
                   mlq_ready_queue_slot := (mlq_ready_queue_slot s)(i := mlq_ready_queue_slot s i - 1)\<rparr>))"

text \<open>The \<open>while\<close> loop of \<open>get_mlq_proc\<close>; \<open>None\<close> is a loop that does not end.\<close>

partial_function (option) get_mlq_loop :: "'p sched \<Rightarrow> ('p option \<times> 'p sched) option" where
  "get_mlq_loop s =
     (if queue_empty s = - 1 then
        (case mlq_take s of
           (p, s1) \<Rightarrow>
             let s2 = (if queue_empty s1 = - 1 \<and> p = None then init_slot s1 else s1)
             in if p \<noteq> None then Some (p, s2) else get_mlq_loop s2)
      else Some (None, s))"

declare get_mlq_loop.simps [code]

definition get_mlq_proc :: "'p sched \<Rightarrow> ('p option \<times> 'p sched) res" where
  "get_mlq_proc s = from_opt Diverges (get_mlq_loop s)"

definition put_mlq_proc :: "('p \<Rightarrow> nat) \<Rightarrow> 'p sched \<Rightarrow> 'p \<Rightarrow> 'p sched res" where
  "put_mlq_proc prio_of s p =
     guardR (prio_of p < MAX_PRIO) OutOfBounds
       (bindR (enqueue (mlq_ready_queue s (prio_of p)) p) (\<lambda>q.
          ok (s\<lparr>mlq_ready_queue := (mlq_ready_queue s)(prio_of p := q)\<rparr>)))"

definition add_mlq_proc :: "('p \<Rightarrow> nat) \<Rightarrow> 'p sched \<Rightarrow> 'p \<Rightarrow> 'p sched res" where
  "add_mlq_proc prio_of s p =
     guardR (prio_of p < MAX_PRIO) OutOfBounds
       (bindR (enqueue (mlq_ready_queue s (prio_of p)) p) (\<lambda>q.
          ok (s\<lparr>mlq_ready_queue := (mlq_ready_queue s)(prio_of p := q)\<rparr>)))"

definition get_proc :: "'p sched \<Rightarrow> ('p option \<times> 'p sched) res" where
  "get_proc s = get_mlq_proc s"

definition put_proc :: "('p \<Rightarrow> nat) \<Rightarrow> 'p sched \<Rightarrow> 'p \<Rightarrow> 'p sched res" where
  "put_proc prio_of s p = put_mlq_proc prio_of s p"

definition add_proc :: "('p \<Rightarrow> nat) \<Rightarrow> 'p sched \<Rightarrow> 'p \<Rightarrow> 'p sched res" where
  "add_proc prio_of s p = add_mlq_proc prio_of s p"

section \<open>Invariant and abstraction\<close>

definition sched_ok :: "'p sched \<Rightarrow> bool" where
  "sched_ok s \<longleftrightarrow>
     (\<forall>i < MAX_PRIO. queue_ok (mlq_ready_queue s i) \<and>
        0 \<le> mlq_ready_queue_slot s i \<and> mlq_ready_queue_slot s i \<le> int MAX_PRIO - int i) \<and>
     qsize (ready_queue s) = 0 \<and> qsize (run_queue s) = 0"

text \<open>The ready processes of priority \<open>i\<close>, in queue order; and all of them, as a multiset.\<close>

definition ready_at :: "'p sched \<Rightarrow> nat \<Rightarrow> 'p list" where
  "ready_at s i = queue_list (mlq_ready_queue s i)"

definition all_ready :: "'p sched \<Rightarrow> 'p multiset" where
  "all_ready s = (\<Sum>i < MAX_PRIO. mset (ready_at s i))"

text \<open>The abstract choice: the queue served next, from the ready lists and the slots alone. When no
  non-empty queue has a slot left, every counter is refilled first.\<close>

definition eligible :: "'p sched \<Rightarrow> nat \<Rightarrow> bool" where
  "eligible s i \<longleftrightarrow> i < MAX_PRIO \<and> ready_at s i \<noteq> [] \<and> mlq_ready_queue_slot s i \<noteq> 0"

definition serves :: "'p sched \<Rightarrow> nat \<Rightarrow> bool" where
  "serves s i \<longleftrightarrow>
     (if \<exists>j. eligible s j then eligible s i \<and> (\<forall>j < i. \<not> eligible s j)
      else i < MAX_PRIO \<and> ready_at s i \<noteq> [] \<and> (\<forall>j < i. ready_at s j = []))"

text \<open>The slot counters a call starts from: refilled when nothing is eligible.\<close>

definition slots_from :: "'p sched \<Rightarrow> nat \<Rightarrow> int" where
  "slots_from s = (if \<exists>j. eligible s j then mlq_ready_queue_slot s else mlq_ready_queue_slot (init_slot s))"

text \<open>How many calls can be served to other queues before queue \<open>k\<close> must be served.\<close>

definition waiting_bound :: "'p sched \<Rightarrow> nat \<Rightarrow> int" where
  "waiting_bound s k =
     (if 0 < mlq_ready_queue_slot s k then (\<Sum>j < k. mlq_ready_queue_slot s j)
      else (\<Sum>j < MAX_PRIO. mlq_ready_queue_slot s j) + (\<Sum>j < k. int MAX_PRIO - int j))"

section \<open>Facts\<close>

lemma empty_iff: "empty q \<longleftrightarrow> queue_list q = []"
  by (simp add: empty_def queue_list_def)

lemma MAX_PRIO_pos [simp]: "0 < MAX_PRIO"
  by (simp add: MAX_PRIO_def)

lemma queue_empty_minus1: "queue_empty s = - 1 \<longleftrightarrow> (\<exists>i < MAX_PRIO. ready_at s i \<noteq> [])"
  by (auto simp: queue_empty_def list_ex_iff ready_at_def empty_iff)

lemma find_upt_Some:
  "find P [0..<n] = Some i \<longleftrightarrow> i < n \<and> P i \<and> (\<forall>j < i. \<not> P j)"
  by (auto simp: find_Some_iff)

lemma find_upt_None: "find P [0..<n] = None \<longleftrightarrow> (\<forall>i < n. \<not> P i)"
  by (auto simp: find_None_iff)

lemma mlq_select_Some: "mlq_select s = Some i \<longleftrightarrow> eligible s i \<and> (\<forall>j < i. \<not> eligible s j)"
  unfolding mlq_select_def find_upt_Some
  by (auto simp: eligible_def empty_iff ready_at_def)

lemma mlq_select_None: "mlq_select s = None \<longleftrightarrow> (\<forall>i. \<not> eligible s i)"
  unfolding mlq_select_def find_upt_None
  by (auto simp: eligible_def empty_iff ready_at_def)

lemma ready_at_init_slot [simp]: "ready_at (init_slot s) = ready_at s"
  by (simp add: ready_at_def init_slot_def fun_eq_iff)

lemma mlq_ready_queue_init_slot [simp]: "mlq_ready_queue (init_slot s) = mlq_ready_queue s"
  by (simp add: init_slot_def)

lemma slot_init_slot [simp]: "i < MAX_PRIO \<Longrightarrow> mlq_ready_queue_slot (init_slot s) i = int MAX_PRIO - int i"
  by (simp add: init_slot_def)

lemma eligible_init_slot [simp]: "eligible (init_slot s) i \<longleftrightarrow> i < MAX_PRIO \<and> ready_at s i \<noteq> []"
  unfolding eligible_def by auto

lemma sched_ok_init_slot: "sched_ok s \<Longrightarrow> sched_ok (init_slot s)"
  by (simp add: sched_ok_def init_slot_def)

lemma least_index:
  assumes "P (j :: nat)"
  obtains i where "P i" "\<forall>k < i. \<not> P k"
  using assms by (metis LeastI_ex not_less_Least)

lemma serves_ex:
  assumes "i < MAX_PRIO" "ready_at s i \<noteq> []"
  obtains k where "serves s k"
proof (cases "\<exists>j. eligible s j")
  case True
  then obtain k where "eligible s k" "\<forall>j < k. \<not> eligible s j" by (auto elim: least_index)
  with True that show ?thesis by (auto simp: serves_def)
next
  case False
  from assms have "i < MAX_PRIO \<and> ready_at s i \<noteq> []" by simp
  then obtain k where "k < MAX_PRIO \<and> ready_at s k \<noteq> []" "\<forall>j < k. \<not> (j < MAX_PRIO \<and> ready_at s j \<noteq> [])"
    by (rule least_index)
  with False that show ?thesis by (auto simp: serves_def)
qed

lemma serves_ready: "serves s i \<Longrightarrow> i < MAX_PRIO \<and> ready_at s i \<noteq> []"
  unfolding serves_def by (cases "\<exists>j. eligible s j") (simp_all add: eligible_def)

text \<open>The state after queue \<open>i\<close> was served, its new queue being \<open>q\<close>.\<close>

definition served :: "'p sched \<Rightarrow> nat \<Rightarrow> 'p queue_t \<Rightarrow> 'p sched" where
  "served s i q = s\<lparr>mlq_ready_queue := (mlq_ready_queue s)(i := q),
     mlq_ready_queue_slot := (slots_from s)(i := slots_from s i - 1)\<rparr>"

lemma mlq_take_eligible:
  assumes "eligible s i" "\<forall>j < i. \<not> eligible s j" "sched_ok s"
  obtains p q where "ready_at s i = p # queue_list q" "queue_ok q"
    and "mlq_take s = (Some p, s\<lparr>mlq_ready_queue := (mlq_ready_queue s)(i := q),
           mlq_ready_queue_slot := (mlq_ready_queue_slot s)(i := mlq_ready_queue_slot s i - 1)\<rparr>)"
proof -
  have q: "queue_ok (mlq_ready_queue s i)" "\<not> empty (mlq_ready_queue s i)"
    using assms by (auto simp: sched_ok_def eligible_def empty_iff ready_at_def)
  from pq.deq_ne [OF q] obtain q' where
    "dequeue (mlq_ready_queue s i) = (Some (hd (queue_list (mlq_ready_queue s i))), q')" "queue_ok q'"
    "queue_list (mlq_ready_queue s i) = hd (queue_list (mlq_ready_queue s i)) # queue_list q'" by blast
  moreover have "mlq_select s = Some i" using assms by (simp add: mlq_select_Some)
  ultimately show ?thesis by (intro that) (simp_all add: ready_at_def mlq_take_def)
qed

lemma get_mlq_eligible:
  assumes "eligible s i" "\<forall>j < i. \<not> eligible s j" "sched_ok s"
  obtains p q where "ready_at s i = p # queue_list q" "queue_ok q"
    and "get_mlq_loop s = Some (Some p, s\<lparr>mlq_ready_queue := (mlq_ready_queue s)(i := q),
           mlq_ready_queue_slot := (mlq_ready_queue_slot s)(i := mlq_ready_queue_slot s i - 1)\<rparr>)"
proof -
  from assms(1) have "queue_empty s = - 1" by (auto simp: queue_empty_minus1 eligible_def)
  moreover obtain p q where "ready_at s i = p # queue_list q" "queue_ok q"
    "mlq_take s = (Some p, s\<lparr>mlq_ready_queue := (mlq_ready_queue s)(i := q),
           mlq_ready_queue_slot := (mlq_ready_queue_slot s)(i := mlq_ready_queue_slot s i - 1)\<rparr>)"
    using assms by (rule mlq_take_eligible)
  ultimately show ?thesis
    by (intro that) (simp_all add: get_mlq_loop.simps)
qed

lemma get_mlq_refill:
  assumes "\<forall>i. \<not> eligible s i" "queue_empty s = - 1"
  shows "get_mlq_loop s = get_mlq_loop (init_slot s)"
proof -
  have "mlq_take s = (None, s)" using assms(1) by (simp add: mlq_take_def mlq_select_None [THEN iffD2])
  with assms(2) show ?thesis by (subst get_mlq_loop.simps) simp
qed

lemma get_mlq_serves:
  assumes "sched_ok s" "serves s i"
  obtains p q where "ready_at s i = p # queue_list q" "queue_ok q"
    and "get_mlq_proc s = ok (Some p, served s i q)"
proof (cases "\<exists>j. eligible s j")
  case True
  with assms(2) have "eligible s i" "\<forall>j < i. \<not> eligible s j" by (auto simp: serves_def)
  from get_mlq_eligible [OF this assms(1)] True that show ?thesis
    by (auto simp: get_mlq_proc_def served_def slots_from_def)
next
  case False
  with assms(2) have e: "eligible (init_slot s) i" "\<forall>j < i. \<not> eligible (init_slot s) j"
    by (auto simp: serves_def)
  have "queue_empty s = - 1" using serves_ready [OF assms(2)] by (auto simp: queue_empty_minus1)
  with False have r: "get_mlq_loop s = get_mlq_loop (init_slot s)" by (intro get_mlq_refill) auto
  from get_mlq_eligible [OF e sched_ok_init_slot [OF assms(1)]] obtain p q where
    *: "ready_at (init_slot s) i = p # queue_list q" "queue_ok q"
    "get_mlq_loop (init_slot s) = Some (Some p, (init_slot s)\<lparr>mlq_ready_queue := (mlq_ready_queue (init_slot s))(i := q),
       mlq_ready_queue_slot := (mlq_ready_queue_slot (init_slot s))(i := mlq_ready_queue_slot (init_slot s) i - 1)\<rparr>)" .
  have "(init_slot s)\<lparr>mlq_ready_queue := Q, mlq_ready_queue_slot := S\<rparr> =
    s\<lparr>mlq_ready_queue := Q, mlq_ready_queue_slot := S\<rparr>" for Q S
    by (simp add: init_slot_def)
  with * r False show ?thesis
    by (intro that [of p q]) (simp_all add: get_mlq_proc_def served_def slots_from_def)
qed

lemma get_mlq_none:
  "\<forall>i < MAX_PRIO. ready_at s i = [] \<Longrightarrow> get_mlq_proc s = ok (None, s)"
  unfolding get_mlq_proc_def
  by (subst get_mlq_loop.simps) (auto simp: queue_empty_minus1)

lemma slots_from_bounds:
  assumes "sched_ok s" "i < MAX_PRIO"
  shows "0 \<le> slots_from s i \<and> slots_from s i \<le> int MAX_PRIO - int i"
  using assms by (auto simp: slots_from_def sched_ok_def init_slot_def)

lemma serves_slot_pos:
  assumes "sched_ok s" "serves s i"
  shows "0 < slots_from s i"
proof (cases "\<exists>j. eligible s j")
  case True
  with assms have "eligible s i" by (auto simp: serves_def)
  then have "mlq_ready_queue_slot s i \<noteq> 0" "i < MAX_PRIO" by (simp_all add: eligible_def)
  with assms(1) True show ?thesis by (fastforce simp: slots_from_def sched_ok_def order.order_iff_strict)
next
  case False
  with serves_ready [OF assms(2)] show ?thesis by (auto simp: slots_from_def init_slot_def)
qed

lemma ready_at_served [simp]:
  "ready_at (served s i q) j = (if j = i then queue_list q else ready_at s j)"
  by (simp add: ready_at_def served_def)

lemma sched_ok_served:
  assumes "sched_ok s" "serves s i" "queue_ok q"
  shows "sched_ok (served s i q)"
  unfolding sched_ok_def
proof (intro conjI allI impI)
  fix j assume "j < MAX_PRIO"
  with assms slots_from_bounds [OF assms(1) \<open>j < MAX_PRIO\<close>] serves_slot_pos [OF assms(1,2)]
  show "queue_ok (mlq_ready_queue (served s i q) j)"
    and "0 \<le> mlq_ready_queue_slot (served s i q) j"
    and "mlq_ready_queue_slot (served s i q) j \<le> int MAX_PRIO - int j"
    by (auto simp: served_def sched_ok_def)
qed (use assms in \<open>simp_all add: served_def sched_ok_def\<close>)

lemma all_ready_fun_upd:
  assumes "i < MAX_PRIO" "mset (ready_at s i) = add_mset p (mset xs)"
    "\<And>j. ready_at s' j = (if j = i then xs else ready_at s j)"
  shows "all_ready s = add_mset p (all_ready s')"
proof -
  have "all_ready s = mset (ready_at s i) + (\<Sum>j \<in> {..<MAX_PRIO} - {i}. mset (ready_at s j))"
    using assms(1) by (simp add: all_ready_def sum.remove)
  moreover have "all_ready s' = mset xs + (\<Sum>j \<in> {..<MAX_PRIO} - {i}. mset (ready_at s j))"
    using assms(1,3) by (simp add: all_ready_def sum.remove [of _ i])
  ultimately show ?thesis using assms(2) by simp
qed

lemma put_mlq_ok:
  assumes "sched_ok s" "put_mlq_proc prio_of s p = ok s'"
  shows "sched_ok s' \<and> prio_of p < MAX_PRIO \<and>
    (\<forall>j. ready_at s' j = (if j = prio_of p then ready_at s j @ [p] else ready_at s j)) \<and>
    mlq_ready_queue_slot s' = mlq_ready_queue_slot s"
proof -
  let ?i = "prio_of p"
  from assms(2) obtain q where i: "?i < MAX_PRIO" and q: "enqueue (mlq_ready_queue s ?i) p = ok q"
    and s': "s' = s\<lparr>mlq_ready_queue := (mlq_ready_queue s)(?i := q)\<rparr>"
    by (auto simp: put_mlq_proc_def)
  from assms(1) i have "queue_ok (mlq_ready_queue s ?i)" by (simp add: sched_ok_def)
  from pq.enq_Inr [OF this q] i s' assms(1) show ?thesis
    by (auto simp: sched_ok_def ready_at_def)
qed

lemma add_mlq_eq_put: "add_mlq_proc = put_mlq_proc"
  by (simp add: add_mlq_proc_def put_mlq_proc_def fun_eq_iff)

lemmas sched_ops = get_proc_def put_proc_def add_proc_def add_mlq_eq_put

lemma sum_upd_dec:
  assumes "i < n"
  shows "(\<Sum>j < n. if j = i then f i - 1 else (f :: nat \<Rightarrow> int) j) = (\<Sum>j < n. f j) - 1"
  using assms by (simp add: sum.remove [of "{..<n}" i])

lemma slots_served: "mlq_ready_queue_slot (served s i q) = (slots_from s)(i := slots_from s i - 1)"
  by (simp add: served_def)

lemma waiting_bound_decreases:
  assumes "sched_ok s" "serves s i" "i \<noteq> k" "k < MAX_PRIO" "ready_at s k \<noteq> []"
  shows "waiting_bound (served s i q) k < waiting_bound s k"
proof (cases "\<exists>j. eligible s j")
  case True
  then have sf: "slots_from s = mlq_ready_queue_slot s" by (simp add: slots_from_def)
  have i: "i < MAX_PRIO" using serves_ready [OF assms(2)] by simp
  show ?thesis
  proof (cases "0 < mlq_ready_queue_slot s k")
    case True
    then have "eligible s k" using assms(4,5) by (simp add: eligible_def)
    with assms(2,3) \<open>\<exists>j. eligible s j\<close> have "i < k" by (metis linorder_neqE_nat serves_def)
    with True sf assms(3) show ?thesis by (simp add: waiting_bound_def slots_served sum_upd_dec)
  next
    case False
    with sf assms(3) i show ?thesis by (simp add: waiting_bound_def slots_served sum_upd_dec)
  qed
next
  case False
  then have sf: "slots_from s = mlq_ready_queue_slot (init_slot s)" by (simp add: slots_from_def)
  have s0: "mlq_ready_queue_slot s k = 0" using False assms(4,5) by (auto simp: eligible_def)
  from False assms(2-5) have "i < k" by (metis linorder_neqE_nat serves_def)
  have *: "(\<Sum>j < k. mlq_ready_queue_slot (init_slot s) j) = (\<Sum>j < k. int MAX_PRIO - int j)"
    using assms(4) by (intro sum.cong) auto
  have "0 \<le> (\<Sum>j < MAX_PRIO. mlq_ready_queue_slot s j)"
    using assms(1) by (intro sum_nonneg) (simp add: sched_ok_def)
  with \<open>i < k\<close> assms(3,4) s0 show ?thesis
    by (simp add: waiting_bound_def slots_served sf sum_upd_dec * del: slot_init_slot) simp
qed

lemma waiting_bound_nonneg:
  assumes "sched_ok s" "k < MAX_PRIO"
  shows "0 \<le> waiting_bound s k"
proof -
  have "0 \<le> (\<Sum>j < n. mlq_ready_queue_slot s j)" if "n \<le> MAX_PRIO" for n
    using assms(1) that by (intro sum_nonneg) (simp add: sched_ok_def)
  moreover have "0 \<le> (\<Sum>j < k. int MAX_PRIO - int j)" using assms(2) by (intro sum_nonneg) simp
  ultimately show ?thesis using assms(2) by (simp add: waiting_bound_def)
qed

section \<open>Runs of the scheduler\<close>

text \<open>A run interleaves dispatches and insertions in any order; it collects what was dispatched.\<close>

datatype 'p sched_op = Get | Put 'p

fun run_ops :: "('p \<Rightarrow> nat) \<Rightarrow> 'p sched \<Rightarrow> 'p sched_op list \<Rightarrow> ('p list \<times> 'p sched) res" where
  "run_ops prio_of s [] = ok ([], s)"
| "run_ops prio_of s (Get # ops) =
     bindR (get_proc s) (\<lambda>(r, s).
     bindR (run_ops prio_of s ops) (\<lambda>(ps, s). ok (case r of None \<Rightarrow> ps | Some p \<Rightarrow> p # ps, s)))"
| "run_ops prio_of s (Put p # ops) = bindR (put_proc prio_of s p) (\<lambda>s. run_ops prio_of s ops)"

definition gets :: "'p sched_op list \<Rightarrow> nat" where
  "gets ops = length (filter (\<lambda>x. x = Get) ops)"

lemma get_proc_cases:
  assumes "sched_ok s"
  obtains (None) "\<forall>i < MAX_PRIO. ready_at s i = []" "get_proc s = ok (None, s)"
  | (Some) i p q where "serves s i" "ready_at s i = p # queue_list q" "queue_ok q"
      "get_proc s = ok (Some p, served s i q)"
proof (cases "\<forall>i < MAX_PRIO. ready_at s i = []")
  case True
  with None show ?thesis by (simp add: get_proc_def get_mlq_none)
next
  case False
  then obtain i where "serves s i" by (auto elim: serves_ex)
  from get_mlq_serves [OF assms this] obtain p q where
    "ready_at s i = p # queue_list q" "queue_ok q" "get_mlq_proc s = ok (Some p, served s i q)" .
  with \<open>serves s i\<close> Some show ?thesis by (simp add: get_proc_def)
qed

lemma waiting_bound_put:
  "put_mlq_proc prio_of s p = ok s' \<Longrightarrow> sched_ok s \<Longrightarrow> waiting_bound s' k = waiting_bound s k"
  using put_mlq_ok [of s prio_of p s'] by (simp add: waiting_bound_def)

lemma run_ops_wait:
  assumes "sched_ok s" "k < MAX_PRIO" "ready_at s k = p # rest" "run_ops prio_of s ops = ok (ps, s')"
    "waiting_bound s k < int (gets ops)"
  shows "p \<in> set ps"
  using assms
proof (induction prio_of s ops arbitrary: rest ps rule: run_ops.induct)
  case (1 prio_of s)
  then show ?case using waiting_bound_nonneg [of s k] by (simp add: gets_def)
next
  case (2 prio_of s ops)
  show ?case
  proof (cases rule: get_proc_cases [OF "2.prems"(1)])
    case 1
    with "2.prems" show ?thesis by simp
  next
    case (2 i p' q)
    from 2(4) "2.prems"(4) obtain ps' where r: "run_ops prio_of (served s i q) ops = ok (ps', s')"
      and ps: "ps = p' # ps'" by auto
    show ?thesis
    proof (cases "i = k")
      case True
      with 2(2) "2.prems"(3) ps show ?thesis by simp
    next
      case False
      then have "waiting_bound (served s i q) k < int (gets ops)"
        using waiting_bound_decreases [OF "2.prems"(1) 2(1) False "2.prems"(2), of q] "2.prems"(3,5)
        by (simp add: gets_def)
      with "2.IH" [OF sched_ok_served [OF "2.prems"(1) 2(1,3)] "2.prems"(2) _ r]
        False "2.prems"(3) ps show ?thesis by simp
    qed
  qed
next
  case (3 prio_of s p' ops)
  from "3.prems"(4) obtain s1 where s1: "put_proc prio_of s p' = ok s1" "run_ops prio_of s1 ops = ok (ps, s')"
    by auto
  from put_mlq_ok [OF "3.prems"(1)] s1(1) have "sched_ok s1" "\<exists>rest'. ready_at s1 k = p # rest'"
    using "3.prems"(3) by (auto simp: put_proc_def)
  moreover have "waiting_bound s1 k < int (gets ops)"
    using "3.prems"(1,5) s1(1) by (simp add: waiting_bound_put put_proc_def gets_def)
  ultimately show ?case using "3.IH" [OF _ "3.prems"(2)] s1(2) by blast
qed

section \<open>The contract of the ready processes\<close>

text \<open>What the CPUs and the loader rely on: \<open>get\<close> always returns and takes a process out unless there is
  none, \<open>put\<close> adds one.\<close>

locale process_pool =
  fixes get :: "'s \<Rightarrow> ('p option \<times> 's) res"
    and put :: "'s \<Rightarrow> 'p \<Rightarrow> 's res"
    and wf :: "'s \<Rightarrow> bool"
    and content :: "'s \<Rightarrow> 'p multiset"
  assumes get_result: "wf s \<Longrightarrow> (get s = ok (None, s) \<and> content s = {#}) \<or>
      (\<exists>p s'. get s = ok (Some p, s') \<and> wf s' \<and> content s = add_mset p (content s'))"
    and put_result: "wf s \<Longrightarrow> put s p = ok s' \<Longrightarrow> wf s' \<and> content s' = add_mset p (content s)"
begin

lemma get_None: "wf s \<Longrightarrow> get s = ok (None, s') \<Longrightarrow> s' = s \<and> content s = {#}"
  using get_result [of s] by auto

lemma get_Some: "wf s \<Longrightarrow> get s = ok (Some p, s') \<Longrightarrow> wf s' \<and> content s = add_mset p (content s')"
  using get_result [of s] by auto

lemma get_total: "wf s \<Longrightarrow> \<exists>r s'. get s = ok (r, s') \<and> wf s'"
  using get_result [of s] by auto

lemma get_after_put: "wf s \<Longrightarrow> put s p = ok s' \<Longrightarrow> \<exists>q s''. get s' = ok (Some q, s'')"
  using put_result [of s p s'] get_result [of s'] by auto

end

lemma get_proc_pool:
  assumes "sched_ok s"
  shows "(get_proc s = ok (None, s) \<and> all_ready s = {#}) \<or>
    (\<exists>p s'. get_proc s = ok (Some p, s') \<and> sched_ok s' \<and> all_ready s = add_mset p (all_ready s'))"
proof (cases rule: get_proc_cases [OF assms])
  case 1
  then show ?thesis by (simp add: all_ready_def)
next
  case (2 i p q)
  then have "all_ready s = add_mset p (all_ready (served s i q))"
    using serves_ready [OF 2(1)] by (intro all_ready_fun_upd [of i _ _ "queue_list q"]) auto
  with 2 sched_ok_served [OF assms] show ?thesis by blast
qed

lemma put_proc_pool:
  assumes "sched_ok s" "put_proc prio_of s p = ok s'"
  shows "sched_ok s' \<and> all_ready s' = add_mset p (all_ready s)"
proof -
  have "sched_ok s' \<and> prio_of p < MAX_PRIO \<and>
    (\<forall>j. ready_at s' j = (if j = prio_of p then ready_at s j @ [p] else ready_at s j))"
    using put_mlq_ok [OF assms(1)] assms(2) by (auto simp: put_proc_def)
  then show ?thesis by (auto intro: all_ready_fun_upd [of "prio_of p" _ _ "ready_at s (prio_of p)"])
qed

interpretation rq: process_pool get_proc "put_proc prio_of" sched_ok all_ready for prio_of
  by unfold_locales (rule get_proc_pool, assumption, rule put_proc_pool)

lemma add_proc_eq_put: "add_proc = put_proc"
  by (simp add: add_proc_def put_proc_def add_mlq_eq_put fun_eq_iff)

lemma init_scheduler_ok: "sched_ok (init_scheduler s)" "all_ready (init_scheduler s) = {#}"
proof -
  show "sched_ok (init_scheduler s)"
    by (simp add: sched_ok_def init_scheduler_def init_slot_def queue_ok_def Let_def)
  show "all_ready (init_scheduler s) = {#}"
    by (simp add: all_ready_def ready_at_def queue_list_def init_scheduler_def init_slot_def Let_def)
qed

section \<open>Properties\<close>

text \<open>C17. \<open>get_proc\<close> always returns. It returns null, changing nothing, exactly when every priority
  queue is empty; otherwise it serves the non-empty queue of the smallest index among those with
  a slot left (after refilling all slot counters when none has one): it returns the head of that
  queue, removes it, leaves all other queues alone and uses up one slot.\<close>

theorem get_proc_spec:
  assumes "sched_ok s"
  shows "(if \<forall>i < MAX_PRIO. ready_at s i = [] then get_proc s = ok (None, s)
          else \<exists>i p s'. serves s i \<and> get_proc s = ok (Some p, s') \<and>
                 ready_at s i = p # ready_at s' i \<and> (\<forall>j. j \<noteq> i \<longrightarrow> ready_at s' j = ready_at s j) \<and>
                 mlq_ready_queue_slot s' = (slots_from s)(i := slots_from s i - 1))"
proof (cases rule: get_proc_cases [OF assms])
  case 1
  then show ?thesis by simp
next
  case (2 i p q)
  then have "serves s i \<and> get_proc s = ok (Some p, served s i q) \<and>
      ready_at s i = p # ready_at (served s i q) i \<and>
      (\<forall>j. j \<noteq> i \<longrightarrow> ready_at (served s i q) j = ready_at s j) \<and>
      mlq_ready_queue_slot (served s i q) = (slots_from s)(i := slots_from s i - 1)"
    by (simp add: slots_served)
  with serves_ready [OF 2(1)] show ?thesis by auto
qed

text \<open>The scheduler invariant (queue sizes within the array, slot counters between 0 and
  \<open>MAX_PRIO - prio\<close>) is established by \<open>init_scheduler\<close> and kept by \<open>get_proc\<close>, \<open>put_proc\<close> and \<open>add_proc\<close>.\<close>

theorem sched_invariant:
  "sched_ok (init_scheduler s0) \<and>
   (sched_ok s \<longrightarrow>
      (\<forall>r s'. get_proc s = ok (r, s') \<longrightarrow> sched_ok s') \<and>
      (\<forall>p s'. put_proc prio_of s p = ok s' \<longrightarrow> sched_ok s') \<and>
      (\<forall>p s'. add_proc prio_of s p = ok s' \<longrightarrow> sched_ok s'))"
proof (intro conjI impI allI)
  show "sched_ok (init_scheduler s0)" by (rule init_scheduler_ok)
next
  fix r s' assume s: "sched_ok s" and g: "get_proc s = ok (r, s')"
  show "sched_ok s'"
    by (cases rule: get_proc_cases [OF s]) (use s g in \<open>auto intro: sched_ok_served\<close>)
qed (auto simp: sched_ops dest: put_mlq_ok)

text \<open>C19. No process is lost or duplicated by the scheduler: a dispatch removes exactly the returned
  process from the ready processes, and an insertion adds exactly the inserted one.\<close>

theorem sched_conservation:
  assumes "sched_ok s"
  shows "(\<forall>p s'. get_proc s = ok (Some p, s') \<longrightarrow> all_ready s = add_mset p (all_ready s')) \<and>
         (\<forall>p s'. put_proc prio_of s p = ok s' \<longrightarrow> all_ready s' = add_mset p (all_ready s))"
  using rq.get_Some [OF assms] rq.put_result [OF assms] by blast

text \<open>C18. No starvation: in every run of dispatches and insertions, the process at the head of a
  non-empty priority queue \<open>k\<close> is dispatched within \<open>waiting_bound s k + 1\<close> dispatches, a bound
  computed from the slot counters alone, whatever is inserted meanwhile.\<close>

theorem sched_no_starvation:
  assumes "sched_ok s" "k < MAX_PRIO" "ready_at s k \<noteq> []" "run_ops prio_of s ops = ok (ps, s')"
    "waiting_bound s k < int (gets ops)"
  shows "hd (ready_at s k) \<in> set ps"
  using run_ops_wait [OF assms(1,2) _ assms(4,5)] assms(3) by (metis list.collapse)

text \<open>C33. Inserting a process: a priority outside the table is an access outside the array of queues, a
  full queue (10 processes of that priority) ends the program with status 1, and otherwise the
  process becomes the last of its priority.\<close>

theorem put_proc_spec:
  assumes "sched_ok s"
  shows "if MAX_PRIO \<le> prio_of p then put_proc prio_of s p = Inl OutOfBounds
         else if length (ready_at s (prio_of p)) = MAX_QUEUE_SIZE then put_proc prio_of s p = Inl (Exit 1)
         else \<exists>s'. put_proc prio_of s p = ok s' \<and> ready_at s' (prio_of p) = ready_at s (prio_of p) @ [p]"
proof -
  let ?i = "prio_of p" and ?q = "mlq_ready_queue s (prio_of p)"
  have q: "queue_ok ?q" if "?i < MAX_PRIO" using assms that by (simp add: sched_ok_def)
  show ?thesis
    using pq.enq_full [OF q, of p] pq.enq_ok [OF q, of p] pq.inv_cap [OF q]
    by (force simp: put_proc_def put_mlq_proc_def ready_at_def guardR_def)
qed

section \<open>Witnesses\<close>

text \<open>One process (reference 7) ready at priority 5, with one slot left there and none elsewhere.\<close>

definition sched1 :: "int sched" where
  "sched1 = \<lparr>mlq_ready_queue = (\<lambda>i. \<lparr>proc = (\<lambda>_. 7), qsize = (if i = 5 then 1 else 0)\<rparr>),
     mlq_ready_queue_slot = (\<lambda>i. if i = 5 then 1 else 0),
     ready_queue = \<lparr>proc = (\<lambda>_. 0), qsize = 0\<rparr>, run_queue = \<lparr>proc = (\<lambda>_. 0), qsize = 0\<rparr>\<rparr>"

lemma sched1_ok: "sched_ok sched1" "ready_at sched1 i = (if i = 5 then [7] else [])"
  "waiting_bound sched1 5 = 0"
  by (auto simp: sched1_def sched_ok_def queue_ok_def ready_at_def queue_list_def MAX_PRIO_def
      MAX_QUEUE_SIZE_def waiting_bound_def)

lemma five_prio: "5 < MAX_PRIO" by (simp add: MAX_PRIO_def)

theorem get_proc_spec_witness: "\<exists>s'. get_proc sched1 = ok (Some 7, s') \<and> ready_at s' 5 = []"
proof -
  have "\<not> (\<forall>i < MAX_PRIO. ready_at sched1 i = [])"
    using five_prio by (auto simp: sched1_ok(2))
  with get_proc_spec [OF sched1_ok(1)] obtain i p s' where
    *: "get_proc sched1 = ok (Some p, s')" "ready_at sched1 i = p # ready_at s' i" by auto
  from *(2) have "i = 5 \<and> p = 7 \<and> ready_at s' 5 = []" by (simp add: sched1_ok(2) split: if_splits)
  with *(1) show ?thesis by auto
qed

theorem sched_invariant_witness: "\<exists>s'. get_proc sched1 = ok (Some 7, s') \<and> sched_ok s'"
proof -
  obtain i p q where *: "ready_at sched1 i = p # queue_list q" "get_proc sched1 = ok (Some p, served sched1 i q)"
    by (cases rule: get_proc_cases [OF sched1_ok(1)]) (use five_prio in \<open>auto simp: sched1_ok(2)\<close>)
  then have "p = 7" by (simp add: sched1_ok(2) split: if_splits)
  with * sched_invariant [of _ sched1] sched1_ok(1) show ?thesis by blast
qed

theorem sched_conservation_witness: "\<exists>s'. put_proc (\<lambda>_. 3) sched1 9 = ok s' \<and> all_ready s' = add_mset 9 (all_ready sched1)"
proof -
  have "\<exists>s'. put_proc (\<lambda>_. 3) sched1 9 = ok s'"
    by (simp add: put_proc_def put_mlq_proc_def enqueue_def sched1_def MAX_PRIO_def MAX_QUEUE_SIZE_def)
  with sched_conservation [OF sched1_ok(1), of "\<lambda>_. 3"] show ?thesis by blast
qed

theorem sched_no_starvation_witness: "\<exists>ps s'. run_ops (\<lambda>_. 5) sched1 [Get] = ok (ps, s') \<and> 7 \<in> set ps"
proof -
  have "\<exists>ps s'. run_ops (\<lambda>_. 5) sched1 [Get] = ok (ps, s')"
    by (cases rule: get_proc_cases [OF sched1_ok(1)]) auto
  then obtain ps s' where r: "run_ops (\<lambda>_. 5) sched1 [Get] = ok (ps, s')" by blast
  have g: "waiting_bound sched1 5 < int (gets [Get :: int sched_op])" by (simp add: sched1_ok(3) gets_def)
  have "ready_at sched1 5 \<noteq> []" by (simp add: sched1_ok(2))
  from sched_no_starvation [OF sched1_ok(1) five_prio this r g] r show ?thesis
    by (auto simp: sched1_ok(2))
qed

theorem put_proc_spec_witness:
  "put_proc (\<lambda>_. 140) sched1 9 = Inl OutOfBounds \<and>
   (\<exists>s'. put_proc (\<lambda>_. 5) sched1 9 = ok s' \<and> ready_at s' 5 = [7, 9])"
  using put_proc_spec [OF sched1_ok(1), of "\<lambda>_. 140" 9] put_proc_spec [OF sched1_ok(1), of "\<lambda>_. 5" 9]
  by (simp add: MAX_PRIO_def MAX_QUEUE_SIZE_def sched1_ok(2))

end
