(* ===== verification/Traces.thy ===== *)
theory Traces
  imports OS_Prelude "HOL-Library.Sublist"
begin

text \<open>
  Runs of concurrent components. A component is a labelled step relation; a run is the sequence of
  labels of its steps. A property of runs is proved by an invariant on the run so far and the
  state reached, which every step keeps.
\<close>

section \<open>Runs\<close>

inductive steps :: "('s \<Rightarrow> 'e \<Rightarrow> 's \<Rightarrow> bool) \<Rightarrow> 's \<Rightarrow> 'e list \<Rightarrow> 's \<Rightarrow> bool" for step where
  start: "steps step s [] s"
| later: "steps step s tr t \<Longrightarrow> step t e u \<Longrightarrow> steps step s (tr @ [e]) u"

inductive_simps steps_Nil [simp]: "steps step s [] t"

lemma steps_Cons: "step s e t \<Longrightarrow> steps step t tr u \<Longrightarrow> steps step s (e # tr) u"
proof (rotate_tac, induction rule: steps.induct)
  case (start t)
  then show ?case using steps.later [OF steps.start, of step s e t] by simp
next
  case (later t tr u e' v)
  then show ?case using steps.later [of step s "e # tr" u e' v] by simp
qed

abbreviation occurs :: "'e \<Rightarrow> 'e list \<Rightarrow> nat" where
  "occurs e tr \<equiv> count_list tr e"

section \<open>Invariants of runs\<close>

locale traced_system =
  fixes step :: "'s \<Rightarrow> 'e \<Rightarrow> 's \<Rightarrow> bool"
    and init :: "'s \<Rightarrow> bool"
    and inv :: "'e list \<Rightarrow> 's \<Rightarrow> bool"
  assumes inv_init: "init s \<Longrightarrow> inv [] s"
    and inv_step: "inv tr s \<Longrightarrow> step s e t \<Longrightarrow> inv (tr @ [e]) t"
begin

lemma inv_run: "steps step s tr t \<Longrightarrow> init s \<Longrightarrow> inv tr t"
  by (induction rule: steps.induct) (blast intro: inv_init inv_step)+

end

text \<open>A system whose quiet steps make progress: a measure falls with each of them, and one is
  possible in every state that is not at rest.\<close>

locale quiet_system = traced_system +
  fixes quiet :: "'b \<Rightarrow> bool"
    and rest :: "'a \<Rightarrow> bool"
    and rank :: "'a \<Rightarrow> nat"
  assumes quiet_falls: "inv tr s \<Longrightarrow> step s e t \<Longrightarrow> quiet e \<Longrightarrow> rank t < rank s"
    and quiet_enabled: "inv tr s \<Longrightarrow> \<not> rest s \<Longrightarrow> \<exists>e t. quiet e \<and> step s e t"
begin

lemma quiet_run_bounded:
  assumes "steps step s tr t" "inv tr0 s" "\<forall>e \<in> set tr. quiet e"
  shows "rank t + length tr \<le> rank s \<and> inv (tr0 @ tr) t"
  using assms
proof (induction rule: steps.induct)
  case (later s tr t e u)
  then have "inv (tr0 @ tr) t" "rank t + length tr \<le> rank s" "quiet e" by auto
  then show ?case using quiet_falls [of "tr0 @ tr" t e u] inv_step [of "tr0 @ tr" t e u] later.hyps(2) by force
qed simp

lemma quiet_run_rests:
  assumes "inv tr0 s"
  shows "\<exists>tr t. steps step s tr t \<and> (\<forall>e \<in> set tr. quiet e) \<and> length tr \<le> rank s \<and> rest t"
  using assms
proof (induction "rank s" arbitrary: tr0 s rule: less_induct)
  case less
  show ?case
  proof (cases "rest s")
    case True
    then show ?thesis by (intro exI [of _ "[]"] exI [of _ s]) simp
  next
    case False
    from quiet_enabled [OF less.prems this] obtain e t where e: "quiet e" "step s e t" by blast
    note fall = quiet_falls [OF less.prems e(2,1)]
    from less.hyps [OF fall inv_step [OF less.prems e(2)]] obtain tr u
      where u: "steps step t tr u" "\<forall>e \<in> set tr. quiet e" "length tr \<le> rank t" "rest u" by blast
    from steps_Cons [of step, OF e(2) u(1)] u fall e(1) show ?thesis
      by (intro exI [of _ "e # tr"] exI [of _ u]) auto
  qed
qed

end

end
