(* ===== verification/Timer.thy ===== *)
theory Timer
  imports Traces
begin

text \<open>
  The timer of \<open>src/timer.c\<close>: a barrier that lets all devices (the CPUs and the loader) go through a
  time slot together. A critical section, from taking a mutex to giving it back or to sleeping in
  \<open>pthread_cond_wait\<close>, is one step; a thread that waits is asleep until it is signalled, or wakes by
  itself. A pointer to a \<open>timer_id_t\<close> is a number. The flags \<open>done\<close> and \<open>fsh\<close> are booleans.
\<close>

section \<open>State\<close>

record timer_id_t =
  id_done :: bool
  id_fsh :: bool

record timer =
  dev_list :: "nat list"
  dev :: "nat \<Rightarrow> timer_id_t"
  dev_brk :: nat
  timer_time :: "64 word"
  timer_started :: bool
  timer_stop :: bool

text \<open>
  Where the threads are. The timer thread is at the top of its loop, in the first \<open>for\<close> loop with
  \<open>temp\<close> still to come (or asleep there), in the second one, or has ended. A device works, is between
  the two critical sections of \<open>next_slot\<close>, sleeps in the second one, or has called \<open>detach_event\<close>.
\<close>

datatype timer_pc = TTop | TCollect "nat list" | TSleep "nat list" | TRelease "nat list" | TExit

datatype dev_pc = Working | Told | Asleep | Detached

record timer_sys = timer +
  tpc :: timer_pc
  fsh_cnt :: nat
  event_cnt :: nat
  dpc :: "nat \<Rightarrow> dev_pc"

datatype tevent = Enter nat | Leave nat | Detach nat | Tick | Stop | Release_all | Spurious | Tau

section \<open>Operations\<close>

definition current_time :: "'a timer_scheme \<Rightarrow> 64 word" where
  "current_time s = timer_time s"

definition attach_event :: "timer_sys \<Rightarrow> nat option \<times> timer_sys" where
  "attach_event s =
     (if timer_started s then (None, s)
      else
        let container = dev_brk s in
        (Some container,
         s\<lparr>dev := (dev s)(container := \<lparr>id_done = False, id_fsh = False\<rparr>), dev_brk := container + 1,
           dev_list := container # dev_list s, dpc := (dpc s)(container := Working)\<rparr>))"

definition start_timer :: "timer_sys \<Rightarrow> timer_sys" where
  "start_timer s = s\<lparr>timer_started := True, tpc := TTop\<rparr>"

text \<open>Signalling \<open>event_cond\<close> of a device wakes the timer if it sleeps there; signalling \<open>timer_cond\<close>
  wakes the device.\<close>

definition signal_event :: "nat \<Rightarrow> timer_sys \<Rightarrow> timer_sys" where
  "signal_event d s =
     (case tpc s of TSleep temp \<Rightarrow> if temp \<noteq> [] \<and> hd temp = d then s\<lparr>tpc := TCollect temp\<rparr> else s | _ \<Rightarrow> s)"

definition signal_timer :: "nat \<Rightarrow> timer_sys \<Rightarrow> timer_sys" where
  "signal_timer d s = (if dpc s d = Asleep then s\<lparr>dpc := (dpc s)(d := Told)\<rparr> else s)"

definition detach_event :: "nat \<Rightarrow> timer_sys \<Rightarrow> timer_sys" where
  "detach_event d s =
     signal_event d (s\<lparr>dev := (dev s)(d := (dev s d)\<lparr>id_fsh := True\<rparr>), dpc := (dpc s)(d := Detached)\<rparr>)"

text \<open>The two critical sections of \<open>next_slot\<close>.\<close>

definition next_slot_tell :: "nat \<Rightarrow> timer_sys \<Rightarrow> timer_sys" where
  "next_slot_tell d s =
     signal_event d (s\<lparr>dev := (dev s)(d := (dev s d)\<lparr>id_done := True\<rparr>), dpc := (dpc s)(d := Told)\<rparr>)"

definition next_slot_wait :: "nat \<Rightarrow> timer_sys \<Rightarrow> tevent \<times> timer_sys" where
  "next_slot_wait d s =
     (if id_done (dev s d) then (Tau, s\<lparr>dpc := (dpc s)(d := Asleep)\<rparr>)
      else (Leave d, s\<lparr>dpc := (dpc s)(d := Working)\<rparr>))"

text \<open>The next step of the thread \<open>timer_routine\<close>; \<open>None\<close> when it sleeps or has ended.\<close>

definition timer_routine :: "timer_sys \<Rightarrow> (tevent \<times> timer_sys) option" where
  "timer_routine s =
     (case tpc s of
        TTop \<Rightarrow>
          Some (Tau, if timer_stop s then s\<lparr>tpc := TExit\<rparr>
                     else s\<lparr>fsh_cnt := 0, event_cnt := 0, tpc := TCollect (dev_list s)\<rparr>)
      | TCollect [] \<Rightarrow> Some (Tick, s\<lparr>timer_time := timer_time s + 1, tpc := TRelease (dev_list s)\<rparr>)
      | TCollect (d # temp) \<Rightarrow>
          Some (Tau, if \<not> id_done (dev s d) \<and> \<not> id_fsh (dev s d) then s\<lparr>tpc := TSleep (d # temp)\<rparr>
                     else s\<lparr>fsh_cnt := (if id_fsh (dev s d) then fsh_cnt s + 1 else fsh_cnt s),
                            event_cnt := event_cnt s + 1, tpc := TCollect temp\<rparr>)
      | TSleep temp \<Rightarrow> None
      | TRelease (d # temp) \<Rightarrow>
          Some (Tau, signal_timer d (s\<lparr>dev := (dev s)(d := (dev s d)\<lparr>id_done := False\<rparr>), tpc := TRelease temp\<rparr>))
      | TRelease [] \<Rightarrow> Some (Tau, s\<lparr>tpc := if fsh_cnt s = event_cnt s then TExit else TTop\<rparr>)
      | TExit \<Rightarrow> None)"

text \<open>\<open>stop_timer\<close> asks the timer to stop, waits for its end and releases the devices.\<close>

definition stop_timer_ask :: "timer_sys \<Rightarrow> timer_sys" where
  "stop_timer_ask s = s\<lparr>timer_stop := True\<rparr>"

definition stop_timer_free :: "timer_sys \<Rightarrow> timer_sys" where
  "stop_timer_free s = s\<lparr>dev_list := []\<rparr>"

inductive timer_step :: "timer_sys \<Rightarrow> tevent \<Rightarrow> timer_sys \<Rightarrow> bool" where
  timer: "timer_routine s = Some (e, t) \<Longrightarrow> timer_step s e t"
| timer_wakes: "tpc s = TSleep temp \<Longrightarrow> timer_step s Spurious (s\<lparr>tpc := TCollect temp\<rparr>)"
| enter: "d \<in> set (dev_list s) \<Longrightarrow> dpc s d = Working \<Longrightarrow> timer_step s (Enter d) (next_slot_tell d s)"
| wait: "d \<in> set (dev_list s) \<Longrightarrow> dpc s d = Told \<Longrightarrow> next_slot_wait d s = (e, t) \<Longrightarrow> timer_step s e t"
| dev_wakes: "d \<in> set (dev_list s) \<Longrightarrow> dpc s d = Asleep \<Longrightarrow>
     timer_step s Spurious (s\<lparr>dpc := (dpc s)(d := Told)\<rparr>)"
| detach: "d \<in> set (dev_list s) \<Longrightarrow> dpc s d = Working \<Longrightarrow> timer_step s (Detach d) (detach_event d s)"
| stop: "timer_step s Stop (stop_timer_ask s)"
| free_all: "timer_stop s \<Longrightarrow> tpc s = TExit \<Longrightarrow> timer_step s Release_all (stop_timer_free s)"

text \<open>The state after \<open>n\<close> calls of \<open>attach_event\<close> and \<open>start_timer\<close>.\<close>

definition timer0 :: timer_sys where
  "timer0 = \<lparr>dev_list = [], dev = (\<lambda>_. \<lparr>id_done = False, id_fsh = False\<rparr>), dev_brk = 0, timer_time = 0,
     timer_started = False, timer_stop = False, tpc = TTop, fsh_cnt = 0, event_cnt = 0, dpc = (\<lambda>_. Working)\<rparr>"

fun attach_all :: "nat \<Rightarrow> timer_sys \<Rightarrow> timer_sys" where
  "attach_all 0 s = s"
| "attach_all (Suc n) s = attach_all n (snd (attach_event s))"

definition timer_init :: "timer_sys \<Rightarrow> bool" where
  "timer_init s \<longleftrightarrow> distinct (dev_list s) \<and> timer_time s = 0 \<and> timer_started s \<and> \<not> timer_stop s \<and> tpc s = TTop \<and>
     (\<forall>d \<in> set (dev_list s). dpc s d = Working \<and> \<not> id_done (dev s d) \<and> \<not> id_fsh (dev s d))"

section \<open>Invariant\<close>

definition blocked :: "timer_sys \<Rightarrow> nat \<Rightarrow> bool" where
  "blocked s d \<longleftrightarrow> dpc s d = Told \<or> dpc s d = Asleep"

text \<open>Ready to be passed by the timer.\<close>

definition passed :: "timer_sys \<Rightarrow> nat \<Rightarrow> bool" where
  "passed s d \<longleftrightarrow> id_done (dev s d) \<or> id_fsh (dev s d)"

definition releasing :: "timer_sys \<Rightarrow> nat set" where
  "releasing s = (case tpc s of TRelease temp \<Rightarrow> set temp | _ \<Rightarrow> {})"

text \<open>A device that has not yet left the slot that the timer has already closed.\<close>

definition behind :: "timer_sys \<Rightarrow> nat \<Rightarrow> bool" where
  "behind s d \<longleftrightarrow> blocked s d \<and> \<not> id_done (dev s d) \<or> d \<in> releasing s"

definition dev_inv :: "tevent list \<Rightarrow> timer_sys \<Rightarrow> nat \<Rightarrow> bool" where
  "dev_inv tr s d \<longleftrightarrow>
     (id_fsh (dev s d) \<longleftrightarrow> dpc s d = Detached) \<and> (dpc s d = Working \<longrightarrow> \<not> id_done (dev s d)) \<and>
     (dpc s d = Asleep \<longrightarrow> id_done (dev s d)) \<and>
     occurs (Enter d) tr = occurs (Leave d) tr + (if blocked s d then 1 else 0) \<and>
     occurs (Leave d) tr \<le> occurs Tick tr \<and>
     (dpc s d \<noteq> Detached \<longrightarrow> occurs (Leave d) tr + (if behind s d then 1 else 0) = occurs Tick tr)"

definition collected :: "timer_sys \<Rightarrow> nat list \<Rightarrow> bool" where
  "collected s temp \<longleftrightarrow> (\<exists>pre. dev_list s = pre @ temp \<and> (\<forall>d \<in> set pre. passed s d) \<and>
     event_cnt s = length pre \<and> fsh_cnt s = length (filter (\<lambda>d. id_fsh (dev s d)) pre))"

definition pc_inv :: "timer_sys \<Rightarrow> bool" where
  "pc_inv s \<longleftrightarrow>
     (case tpc s of
        TTop \<Rightarrow> True
      | TCollect temp \<Rightarrow> collected s temp
      | TSleep temp \<Rightarrow> collected s temp \<and> temp \<noteq> [] \<and> \<not> passed s (hd temp)
      | TRelease temp \<Rightarrow> suffix temp (dev_list s) \<and> (\<forall>d \<in> set temp. passed s d) \<and>
          (fsh_cnt s = event_cnt s \<longrightarrow> (\<forall>d \<in> set (dev_list s). id_fsh (dev s d)))
      | TExit \<Rightarrow> timer_stop s \<or> (\<forall>d \<in> set (dev_list s). id_fsh (dev s d)))"

definition timer_inv :: "tevent list \<Rightarrow> timer_sys \<Rightarrow> bool" where
  "timer_inv tr s \<longleftrightarrow> distinct (dev_list s) \<and> timer_time s = of_nat (occurs Tick tr) \<and> pc_inv s \<and>
     (\<forall>d \<in> set (dev_list s). dev_inv tr s d)"

lemmas inv_defs = dev_inv_def blocked_def behind_def passed_def

lemma releasing_update [simp]:
  "releasing (s\<lparr>dev := f\<rparr>) = releasing s" "releasing (s\<lparr>dpc := g\<rparr>) = releasing s"
  "releasing (s\<lparr>dev_list := ds\<rparr>) = releasing s" "releasing (s\<lparr>timer_stop := b\<rparr>) = releasing s"
  by (simp_all add: releasing_def split: timer_pc.split)

lemma signal_event_frame [simp]:
  "dev_list (signal_event d s) = dev_list s" "dev (signal_event d s) = dev s" "dpc (signal_event d s) = dpc s"
  "timer_time (signal_event d s) = timer_time s" "releasing (signal_event d s) = releasing s"
  "event_cnt (signal_event d s) = event_cnt s" "fsh_cnt (signal_event d s) = fsh_cnt s"
  "timer_stop (signal_event d s) = timer_stop s"
  by (simp_all add: signal_event_def releasing_def split: timer_pc.split)

lemma signal_timer_frame [simp]:
  "dev_list (signal_timer d s) = dev_list s" "dev (signal_timer d s) = dev s" "tpc (signal_timer d s) = tpc s"
  "timer_time (signal_timer d s) = timer_time s" "event_cnt (signal_timer d s) = event_cnt s"
  "fsh_cnt (signal_timer d s) = fsh_cnt s" "timer_stop (signal_timer d s) = timer_stop s"
  by (simp_all add: signal_timer_def)

lemma pc_inv_dpc [simp]: "pc_inv (s\<lparr>dpc := g\<rparr>) = pc_inv s"
  by (cases "tpc s") (simp_all add: pc_inv_def collected_def passed_def)

lemma dev_inv_signal [simp]: "dev_inv tr (signal_event d s) x \<longleftrightarrow> dev_inv tr s x"
  by (simp add: dev_inv_def blocked_def behind_def)

lemma collected_signal [simp]: "collected (signal_event d s) temp \<longleftrightarrow> collected s temp"
  by (simp add: collected_def passed_def)

lemma dev_inv_frame:
  assumes "dev_inv tr s x" "dev t x = dev s x" "dpc t x = dpc s x" "x \<in> releasing t \<longleftrightarrow> x \<in> releasing s"
    and "e \<noteq> Enter x" "e \<noteq> Leave x" "e \<noteq> Tick"
  shows "dev_inv (tr @ [e]) t x"
  using assms by (simp add: inv_defs)

lemma dev_inv_enter:
  assumes "dev_inv tr s x" "dpc s d = Working" "d \<in> releasing s \<longrightarrow> passed s d" "dev_inv tr s d"
  shows "dev_inv (tr @ [Enter d]) (next_slot_tell d s) x"
proof (cases "x = d")
  case True
  with assms show ?thesis by (auto simp: next_slot_tell_def inv_defs)
qed (rule dev_inv_frame [OF assms(1)]; simp add: next_slot_tell_def)

lemma dev_inv_detach:
  assumes "dev_inv tr s x" "dpc s d = Working"
  shows "dev_inv (tr @ [Detach d]) (detach_event d s) x"
proof (cases "x = d")
  case True
  with assms show ?thesis by (simp add: detach_event_def inv_defs)
qed (rule dev_inv_frame [OF assms(1)]; simp add: detach_event_def)

lemma dev_inv_wait:
  assumes "dev_inv tr s x" "dpc s d = Told" "next_slot_wait d s = (e, t)"
    "d \<in> releasing s \<longrightarrow> passed s d" "dev_inv tr s d"
  shows "dev_inv (tr @ [e]) t x"
proof (cases "x = d")
  case True
  with assms show ?thesis by (auto simp: next_slot_wait_def inv_defs split: if_splits)
next
  case False
  with assms(3) show ?thesis by (intro dev_inv_frame [OF assms(1)]) (auto simp: next_slot_wait_def split: if_splits)
qed

lemma dev_inv_release:
  assumes "dev_inv tr s x" "tpc s = TRelease (d # temp)" "distinct (d # temp)" "passed s d" "timer_routine s = Some (e, t)"
  shows "dev_inv (tr @ [e]) t x"
proof (cases "x = d")
  case True
  with assms show ?thesis by (cases "dpc s d") (auto simp: timer_routine_def signal_timer_def inv_defs releasing_def)
next
  case False
  with assms(2,5) show ?thesis
    by (intro dev_inv_frame [OF assms(1)]; cases "dpc s d = Asleep") (auto simp: timer_routine_def signal_timer_def releasing_def)
qed

lemma dev_inv_tick:
  assumes "dev_inv tr s x" "tpc s = TCollect []" "x \<in> set (dev_list s)" "passed s x" "timer_routine s = Some (e, t)"
  shows "dev_inv (tr @ [e]) t x"
  using assms by (cases "dpc s x") (auto simp: timer_routine_def inv_defs releasing_def)

lemma dev_inv_local:
  assumes "dev_inv tr s x" "timer_routine s = Some (e, t)" "\<forall>d temp. tpc s \<noteq> TRelease (d # temp)" "tpc s \<noteq> TCollect []"
  shows "dev_inv (tr @ [e]) t x"
  using assms(2-)
  by (intro dev_inv_frame [OF assms(1)])
    (auto simp: timer_routine_def releasing_def split: timer_pc.splits list.splits if_splits)

text \<open>The flags of the devices the timer has passed do not change until it releases them.\<close>

lemma collected_cong:
  assumes "collected s temp" "dev_list t = dev_list s" "event_cnt t = event_cnt s" "fsh_cnt t = fsh_cnt s"
    and "\<And>x. x \<in> set (dev_list s) \<Longrightarrow> passed s x \<Longrightarrow> dev t x = dev s x"
  shows "collected t temp"
proof -
  obtain pre where pre: "dev_list s = pre @ temp" "\<forall>d \<in> set pre. passed s d" "event_cnt s = length pre"
    "fsh_cnt s = length (filter (\<lambda>d. id_fsh (dev s d)) pre)" using assms(1) by (auto simp: collected_def)
  have same: "dev t x = dev s x" if "x \<in> set pre" for x using that assms(5) pre(1,2) by simp
  have "filter (\<lambda>d. id_fsh (dev t d)) pre = filter (\<lambda>d. id_fsh (dev s d)) pre"
    by (rule filter_cong) (simp_all add: same)
  with pre same assms(2-4) show ?thesis unfolding collected_def passed_def by (intro exI [of _ pre]) auto
qed

lemma pc_inv_mono:
  assumes "pc_inv s" "tpc t = tpc s \<or> (\<exists>temp. tpc s = TSleep temp \<and> tpc t = TCollect temp)"
    "dev_list t = dev_list s" "event_cnt t = event_cnt s" "fsh_cnt t = fsh_cnt s" "timer_stop t = timer_stop s"
    and same: "\<And>x. x \<in> set (dev_list s) \<Longrightarrow> passed s x \<Longrightarrow> dev t x = dev s x"
    and sleep: "\<And>temp. tpc t = TSleep temp \<Longrightarrow> passed s (hd temp) = passed t (hd temp)"
  shows "pc_inv t"
proof (cases "tpc s")
  case (TRelease temp)
  with assms(1) have suf: "suffix temp (dev_list s)" "\<forall>d \<in> set temp. passed s d" by (auto simp: pc_inv_def)
  have "dev t x = dev s x" if "x \<in> set temp" for x
    using that suf set_mono_suffix [OF suf(1)] same by auto
  with TRelease suf assms show ?thesis by (auto simp: pc_inv_def passed_def)
next
  case (TSleep temp)
  with assms collected_cong [of s temp t] show ?thesis by (auto simp: pc_inv_def)
qed (use assms collected_cong [of s _ t] in \<open>auto simp: pc_inv_def passed_def\<close>)

lemma pc_inv_device:
  assumes "pc_inv s" "d \<in> set (dev_list s)" "dev_inv tr s d" "dpc s d = Working"
  shows "pc_inv (next_slot_tell d s)" "pc_inv (detach_event d s)"
proof -
  have np: "\<not> passed s d" using assms(3,4) by (auto simp: inv_defs)
  then have "x \<noteq> d" if "passed s x" for x using that by auto
  then show "pc_inv (next_slot_tell d s)" "pc_inv (detach_event d s)"
    using assms(1) unfolding next_slot_tell_def detach_event_def
    by (intro pc_inv_mono [OF assms(1)]; auto simp: signal_event_def passed_def pc_inv_def split: timer_pc.splits if_splits)+
qed

lemma pc_inv_wait:
  assumes "pc_inv s" "next_slot_wait d s = (e, t)"
  shows "pc_inv t"
  using assms(2) by (intro pc_inv_mono [OF assms(1)]) (auto simp: next_slot_wait_def passed_def split: if_splits)

lemma length_filter_all: "length (filter P xs) = length xs \<longleftrightarrow> (\<forall>x \<in> set xs. P x)"
proof
  show "length (filter P xs) = length xs \<Longrightarrow> \<forall>x \<in> set xs. P x"
    using length_filter_less [of _ xs P] by fastforce
qed simp

lemma collected_all:
  assumes "collected s []"
  shows "\<forall>d \<in> set (dev_list s). passed s d" "fsh_cnt s = event_cnt s \<longleftrightarrow> (\<forall>d \<in> set (dev_list s). id_fsh (dev s d))"
  using assms by (auto simp: collected_def length_filter_all)

lemma collected_Cons:
  assumes "collected s (d # temp)" "passed s d"
  shows "collected (s\<lparr>fsh_cnt := (if id_fsh (dev s d) then fsh_cnt s + 1 else fsh_cnt s),
    event_cnt := event_cnt s + 1, tpc := TCollect temp\<rparr>) temp"
proof -
  obtain pre where "dev_list s = pre @ d # temp" "\<forall>d \<in> set pre. passed s d" "event_cnt s = length pre"
    "fsh_cnt s = length (filter (\<lambda>d. id_fsh (dev s d)) pre)" using assms(1) by (auto simp: collected_def)
  with assms(2) show ?thesis unfolding collected_def passed_def by (intro exI [of _ "pre @ [d]"]) auto
qed

lemma pc_inv_timer:
  assumes "pc_inv s" "distinct (dev_list s)" "timer_routine s = Some (e, t)"
  shows "pc_inv t"
proof (cases "tpc s")
  case TTop
  with assms(3) show ?thesis by (auto simp: timer_routine_def pc_inv_def collected_def split: if_splits)
next
  case (TCollect temp)
  with assms(1) have c: "collected s temp" by (simp add: pc_inv_def)
  show ?thesis
  proof (cases temp)
    case Nil
    with c collected_all [of s] assms(3) TCollect show ?thesis
      by (auto simp: timer_routine_def pc_inv_def passed_def)
  next
    case (Cons d ds)
    with TCollect assms(3) have t: "t = (if \<not> passed s d then s\<lparr>tpc := TSleep (d # ds)\<rparr>
        else s\<lparr>fsh_cnt := (if id_fsh (dev s d) then fsh_cnt s + 1 else fsh_cnt s), event_cnt := event_cnt s + 1, tpc := TCollect ds\<rparr>)"
      by (simp add: timer_routine_def passed_def)
    show ?thesis
    proof (cases "passed s d")
      case True
      with t c collected_Cons [of s d ds] show ?thesis unfolding Cons by (simp add: pc_inv_def)
    next
      case False
      with t c show ?thesis unfolding Cons by (simp add: pc_inv_def collected_def passed_def)
    qed
  qed
next
  case (TRelease temp)
  with assms(1) obtain pre where pre: "dev_list s = pre @ temp" by (auto simp: pc_inv_def suffix_def)
  show ?thesis
  proof (cases temp)
    case (Cons d ds)
    have "suffix ds (dev_list s)" "d \<notin> set ds" using pre assms(2) unfolding Cons suffix_def by auto
    with TRelease assms(1,3) show ?thesis unfolding Cons
      by (cases "dpc s d = Asleep") (auto simp: timer_routine_def pc_inv_def signal_timer_def passed_def)
  qed (use TRelease assms in \<open>auto simp: timer_routine_def pc_inv_def\<close>)
qed (use assms in \<open>simp_all add: timer_routine_def\<close>)

lemma releasing_passed:
  assumes "pc_inv s" "d \<in> releasing s"
  shows "passed s d"
  using assms by (auto simp: pc_inv_def releasing_def split: timer_pc.splits)

lemma dev_inv_timer:
  assumes "timer_inv tr s" "timer_routine s = Some (e, t)" "d \<in> set (dev_list s)"
  shows "dev_inv (tr @ [e]) t d"
proof -
  have i: "pc_inv s" "dev_inv tr s d" "distinct (dev_list s)" using assms(1,3) by (auto simp: timer_inv_def)
  consider (rel) d' temp where "tpc s = TRelease (d' # temp)" | (tick) "tpc s = TCollect []"
    | (local) "\<forall>d temp. tpc s \<noteq> TRelease (d # temp)" "tpc s \<noteq> TCollect []" by blast
  then show ?thesis
  proof cases
    case rel
    then have "passed s d'" "suffix (d' # temp) (dev_list s)" using i(1) by (auto simp: pc_inv_def)
    moreover from this(2) have "distinct (d' # temp)" using i(3) by (auto simp: suffix_def)
    ultimately show ?thesis using dev_inv_release [OF i(2) rel] assms(2) by blast
  next
    case tick
    then show ?thesis using dev_inv_tick [OF i(2) tick assms(3) _ assms(2)] collected_all(1) [of s] i(1) assms(3)
      by (simp add: pc_inv_def)
  next
    case local
    show ?thesis by (rule dev_inv_local [OF i(2) assms(2) local])
  qed
qed

lemma timer_routine_frame:
  assumes "timer_routine s = Some (e, t)"
  shows "dev_list t = dev_list s" "timer_time t = timer_time s + (if e = Tick then 1 else 0)" "timer_stop t = timer_stop s"
    "\<forall>d. e \<noteq> Enter d \<and> e \<noteq> Leave d \<and> e \<noteq> Detach d"
  using assms by (auto simp: timer_routine_def split: timer_pc.splits list.splits if_splits)

lemma timer_inv_step:
  assumes "timer_inv tr s" "timer_step s e t"
  shows "timer_inv (tr @ [e]) t"
  using assms(2,1)
proof (cases rule: timer_step.cases)
  case timer
  with assms(1) pc_inv_timer [of s e t] dev_inv_timer [OF assms(1) timer] timer_routine_frame [OF timer]
  show ?thesis by (auto simp: timer_inv_def)
next
  case (timer_wakes temp)
  with assms(1) show ?thesis
    by (auto simp: timer_inv_def pc_inv_def collected_def passed_def releasing_def intro!: dev_inv_frame [of tr s])
next
  case (enter d)
  then have "pc_inv s" "dev_inv tr s d" using assms(1) by (auto simp: timer_inv_def)
  with enter assms(1) pc_inv_device(1) [of s d tr] dev_inv_enter [of tr s _ d] releasing_passed [of s d]
  show ?thesis by (auto simp: timer_inv_def next_slot_tell_def)
next
  case (wait d)
  then have "pc_inv s" "dev_inv tr s d" using assms(1) by (auto simp: timer_inv_def)
  moreover have "dev_list t = dev_list s" "timer_time t = timer_time s" "e \<noteq> Tick"
    using wait(3) by (auto simp: next_slot_wait_def split: if_splits)
  ultimately show ?thesis
    using wait assms(1) pc_inv_wait [of s d e t] dev_inv_wait [of tr s _ d e t] releasing_passed [of s d]
    by (auto simp: timer_inv_def)
next
  case (dev_wakes d)
  then have "dev_inv tr s d" using assms(1) by (auto simp: timer_inv_def)
  have "dev_inv (tr @ [e]) t x" if "dev_inv tr s x" for x
    using that dev_wakes by (cases "x = d") (auto simp: inv_defs)
  with dev_wakes assms(1) show ?thesis
    by (auto simp: timer_inv_def)
next
  case (detach d)
  then have "pc_inv s" "dev_inv tr s d" using assms(1) by (auto simp: timer_inv_def)
  with detach assms(1) pc_inv_device(2) [of s d tr] dev_inv_detach [of tr s _ d]
  show ?thesis by (auto simp: timer_inv_def detach_event_def)
next
  case stop
  with assms(1) show ?thesis
    by (auto simp: timer_inv_def pc_inv_def collected_def passed_def stop_timer_ask_def releasing_def split: timer_pc.splits
        intro!: dev_inv_frame [of tr s])
next
  case free_all
  with assms(1) show ?thesis by (auto simp: timer_inv_def pc_inv_def stop_timer_free_def)
qed

lemma timer_inv_init: "timer_init s \<Longrightarrow> timer_inv [] s"
  by (auto simp: timer_inv_def timer_init_def pc_inv_def inv_defs releasing_def)

interpretation tmr: traced_system timer_step timer_init timer_inv
  by unfold_locales (auto intro: timer_inv_init timer_inv_step)

section \<open>Progress\<close>

text \<open>Steps that need no decision of a device: those of the timer and of devices inside \<open>next_slot\<close>.\<close>

definition quiet :: "tevent \<Rightarrow> bool" where
  "quiet e \<longleftrightarrow> (case e of Tau \<Rightarrow> True | Tick \<Rightarrow> True | Leave _ \<Rightarrow> True | _ \<Rightarrow> False)"

text \<open>Nothing happens by itself: the timer has ended or sleeps until a working device is done, and
  every other device works or sleeps.\<close>

definition at_rest :: "timer_sys \<Rightarrow> bool" where
  "at_rest s \<longleftrightarrow> (\<forall>d \<in> set (dev_list s). dpc s d \<noteq> Told) \<and>
     (tpc s = TExit \<or> (\<exists>d \<in> set (dev_list s). dpc s d = Working \<and> (\<exists>temp. tpc s = TSleep (d # temp))))"

definition told :: "timer_sys \<Rightarrow> nat" where
  "told s = length (filter (\<lambda>d. dpc s d = Told) (dev_list s))"

text \<open>Rounds the timer can still complete.\<close>

definition pending :: "timer_sys \<Rightarrow> bool" where
  "pending s \<longleftrightarrow> (\<exists>d \<in> set (dev_list s) - releasing s. id_done (dev s d) \<and> \<not> id_fsh (dev s d))"

definition rounds :: "timer_sys \<Rightarrow> nat" where
  "rounds s = (case tpc s of
     TExit \<Rightarrow> 0
   | TRelease temp \<Rightarrow> (if fsh_cnt s = event_cnt s then 0 else 1 + (if pending s then 2 else 0))
   | _ \<Rightarrow> (if pending s then 2 else 0))"

definition in_round :: "timer_sys \<Rightarrow> nat" where
  "in_round s = (let n = length (dev_list s) in case tpc s of
     TTop \<Rightarrow> 3 * n + 4
   | TCollect temp \<Rightarrow> n + 3 + 2 * length temp
   | TSleep temp \<Rightarrow> n + 2 + 2 * length temp
   | TRelease temp \<Rightarrow> 1 + length temp
   | TExit \<Rightarrow> 0)"

definition timer_rank :: "timer_sys \<Rightarrow> nat" where
  "timer_rank s = (rounds s * (3 * length (dev_list s) + 5) + in_round s) * (length (dev_list s) + 1) + told s"

lemma lex_less:
  assumes "(a' :: nat) < a \<or> a' = a \<and> b' < b" "b' < B"
  shows "a' * B + b' < a * B + b"
proof (cases "a' < a")
  case True
  then have "Suc a' * B \<le> a * B" by (intro mult_le_mono1) simp
  with assms(2) show ?thesis by simp
qed (use assms in simp)

lemma in_round_bound:
  assumes "pc_inv s"
  shows "in_round s < 3 * length (dev_list s) + 5"
proof -
  have "length temp \<le> length (dev_list s)" if "collected s temp \<or> suffix temp (dev_list s)" for temp
    using that by (auto simp: collected_def suffix_def)
  with assms show ?thesis by (fastforce simp: in_round_def pc_inv_def Let_def split: timer_pc.splits)
qed

lemma rank_falls:
  assumes "dev_list t = dev_list s" "pc_inv t"
    and "rounds t < rounds s \<or> rounds t = rounds s \<and> (in_round t < in_round s \<or> in_round t = in_round s \<and> told t < told s)"
  shows "timer_rank t < timer_rank s"
proof -
  have "told t < length (dev_list s) + 1" using length_filter_le [of _ "dev_list t"] assms(1) by (simp add: told_def less_Suc_eq_le)
  moreover have "in_round t < 3 * length (dev_list s) + 5" using in_round_bound [OF assms(2)] assms(1) by simp
  ultimately show ?thesis using assms(1,3) unfolding timer_rank_def
    by (simp only:) (rule lex_less; use lex_less [of "rounds t" "rounds s" "in_round t" "in_round s" "3 * length (dev_list s) + 5"] in auto)
qed

lemma pending_cong:
  assumes "dev_list t = dev_list s" "releasing t = releasing s" "dev t = dev s"
  shows "pending t = pending s"
  using assms by (simp add: pending_def)

lemma rank_wait:
  assumes "pc_inv s" "d \<in> set (dev_list s)" "distinct (dev_list s)" "dpc s d = Told" "next_slot_wait d s = (e, t)"
  shows "timer_rank t < timer_rank s"
proof -
  have t: "dev_list t = dev_list s" "tpc t = tpc s" "dev t = dev s" "fsh_cnt t = fsh_cnt s" "event_cnt t = event_cnt s"
    "dpc t d \<noteq> Told" "\<forall>x. x \<noteq> d \<longrightarrow> dpc t x = dpc s x"
    using assms(5) by (auto simp: next_slot_wait_def split: if_splits)
  then have "rounds t = rounds s" "in_round t = in_round s"
    by (auto simp: rounds_def in_round_def pending_def releasing_def split: timer_pc.split)
  have "filter (\<lambda>x. dpc t x = Told) (dev_list s) = remove1 d (filter (\<lambda>x. dpc s x = Told) (dev_list s))"
    using assms(2,3,4) t(6,7) by (auto simp: remove1_filter_not distinct_remove1_removeAll filter_filter removeAll_filter_not_eq intro!: filter_cong)
  moreover have "0 < length (filter (\<lambda>x. dpc s x = Told) (dev_list s))" using assms(2,4) length_pos_if_in_set [of d] by force
  ultimately have "told t < told s" using assms(2,4) t(1) by (simp add: told_def length_remove1)
  with \<open>rounds t = rounds s\<close> \<open>in_round t = in_round s\<close> show ?thesis using rank_falls [OF t(1) pc_inv_wait [OF assms(1,5)]] by simp
qed

lemma rounds_release:
  assumes "tpc s = TRelease (d # temp)" "suffix (d # temp) (dev_list s)" "distinct (dev_list s)" "timer_routine s = Some (e, t)"
  shows "rounds t = rounds s"
proof -
  have t: "dev_list t = dev_list s" "tpc t = TRelease temp" "dev t = (dev s)(d := (dev s d)\<lparr>id_done := False\<rparr>)"
    "fsh_cnt t = fsh_cnt s" "event_cnt t = event_cnt s" using assms(1,4) by (auto simp: timer_routine_def)
  have "d \<notin> set temp" using assms(2,3) by (auto simp: suffix_def)
  then have "pending t = pending s" using t(1-3) assms(1) by (auto simp: pending_def releasing_def split: if_splits)
  with t assms(1) show ?thesis by (simp add: rounds_def)
qed

lemma rank_tick:
  assumes "tpc s = TCollect []" "collected s []" "timer_routine s = Some (e, t)"
  shows "rounds t < rounds s \<or> rounds t = rounds s \<and> in_round t < in_round s"
proof -
  have t: "t = s\<lparr>timer_time := timer_time s + 1, tpc := TRelease (dev_list s)\<rparr>" using assms by (simp add: timer_routine_def)
  have np: "\<not> pending t" by (simp add: t pending_def releasing_def)
  show ?thesis
  proof (cases "fsh_cnt s = event_cnt s")
    case True
    with t assms(1) show ?thesis by (simp add: rounds_def in_round_def Let_def)
  next
    case False
    with collected_all [OF assms(2)] have "pending s" using assms(1) by (auto simp: pending_def passed_def releasing_def)
    with False t np assms(1) show ?thesis by (simp add: rounds_def)
  qed
qed

lemma rank_timer:
  assumes "pc_inv s" "distinct (dev_list s)" "timer_routine s = Some (e, t)"
  shows "timer_rank t < timer_rank s"
proof -
  have "rounds t < rounds s \<or> rounds t = rounds s \<and> in_round t < in_round s"
  proof (cases "tpc s")
    case TTop
    with assms(3) show ?thesis
      by (auto simp: timer_routine_def rounds_def in_round_def pending_def releasing_def Let_def split: if_splits)
  next
    case (TCollect temp)
    then show ?thesis
    proof (cases temp)
      case Nil
      with TCollect assms rank_tick [of s e t] show ?thesis by (simp add: pc_inv_def)
    next
      case (Cons d ds)
      with TCollect assms(3) show ?thesis
        by (auto simp: timer_routine_def rounds_def in_round_def pending_def releasing_def Let_def split: if_splits)
    qed
  next
    case (TRelease temp)
    then show ?thesis
    proof (cases temp)
      case (Cons d ds)
      then have "rounds t = rounds s" using rounds_release [of s d ds e t] TRelease assms by (simp add: pc_inv_def)
      moreover have "in_round t < in_round s" using TRelease Cons assms(3) by (auto simp: timer_routine_def in_round_def Let_def)
      ultimately show ?thesis by simp
    next
      case Nil
      with TRelease assms(3) show ?thesis
        by (auto simp: timer_routine_def rounds_def in_round_def pending_def releasing_def split: if_splits)
    qed
  qed (use assms(3) in \<open>simp_all add: timer_routine_def\<close>)
  with rank_falls [OF timer_routine_frame(1) [OF assms(3)] pc_inv_timer [OF assms]] show ?thesis by blast
qed

lemma quiet_step_falls:
  assumes "timer_inv tr s" "timer_step s e t" "quiet e"
  shows "timer_rank t < timer_rank s"
  using assms(2)
proof (cases rule: timer_step.cases)
  case timer
  with assms(1) rank_timer [of s e t] show ?thesis by (simp add: timer_inv_def)
next
  case (wait d)
  with assms(1) rank_wait [of s d e t] show ?thesis by (simp add: timer_inv_def)
qed (use assms(3) in \<open>auto simp: quiet_def\<close>)

lemma quiet_step_enabled:
  assumes "timer_inv tr s" "\<not> at_rest s"
  shows "\<exists>e t. quiet e \<and> timer_step s e t"
proof (cases "\<exists>d \<in> set (dev_list s). dpc s d = Told")
  case True
  then obtain d where "d \<in> set (dev_list s)" "dpc s d = Told" by blast
  then have "timer_step s (fst (next_slot_wait d s)) (snd (next_slot_wait d s))" by (intro timer_step.wait) simp_all
  moreover have "quiet (fst (next_slot_wait d s))" by (simp add: next_slot_wait_def quiet_def)
  ultimately show ?thesis by blast
next
  case False
  show ?thesis
  proof (cases "timer_routine s")
    case (Some r)
    then have "timer_step s (fst r) (snd r)" by (intro timer_step.timer) simp
    moreover have "quiet (fst r)" using Some by (auto simp: timer_routine_def quiet_def split: timer_pc.splits list.splits)
    ultimately show ?thesis by blast
  next
    case None
    then obtain temp where "tpc s = TSleep temp" using False assms(2)
      by (auto simp: timer_routine_def at_rest_def split: timer_pc.splits list.splits)
    then obtain d ds where d: "tpc s = TSleep (d # ds)" "d \<in> set (dev_list s)" "\<not> passed s d"
      using assms(1) by (cases temp) (auto simp: timer_inv_def pc_inv_def collected_def)
    then have "dpc s d = Working" using False assms(1) by (cases "dpc s d") (auto simp: timer_inv_def inv_defs)
    with d False assms(2) show ?thesis by (auto simp: at_rest_def)
  qed
qed

interpretation tmr: quiet_system timer_step timer_init timer_inv quiet at_rest timer_rank
  by (unfold_locales; (rule quiet_step_falls | rule quiet_step_enabled); assumption)

section \<open>Attaching devices\<close>

definition attach_ok :: "timer_sys \<Rightarrow> bool" where
  "attach_ok s \<longleftrightarrow> dev_list s = rev [0..<dev_brk s] \<and> timer_time s = 0 \<and> \<not> timer_started s \<and> \<not> timer_stop s \<and> tpc s = TTop \<and>
     (\<forall>d < dev_brk s. dpc s d = Working \<and> \<not> id_done (dev s d) \<and> \<not> id_fsh (dev s d))"

lemma attach_event_ok:
  assumes "attach_ok s"
  shows "attach_ok (snd (attach_event s))" "fst (attach_event s) = Some (dev_brk s)" "dev_brk (snd (attach_event s)) = Suc (dev_brk s)"
  using assms by (auto simp: attach_ok_def attach_event_def Let_def less_Suc_eq)

lemma attach_all_ok: "attach_ok s \<Longrightarrow> attach_ok (attach_all n s) \<and> dev_brk (attach_all n s) = dev_brk s + n"
  by (induction n arbitrary: s) (simp_all add: attach_event_ok)

lemma attach_timer0: "attach_ok (attach_all n timer0)" "dev_brk (attach_all n timer0) = n"
  using attach_all_ok [of timer0 n] by (simp_all add: attach_ok_def timer0_def)

lemma timer_init_start: "attach_ok s \<Longrightarrow> timer_init (start_timer s)"
  by (auto simp: timer_init_def start_timer_def attach_ok_def)

section \<open>Properties\<close>

text \<open>
  C6. The timer is a barrier. In every run, a device has left its \<open>n\<close>-th \<open>next_slot\<close> only when every
  device that is still attached has entered its own \<open>n\<close>-th; a device that works has left exactly
  \<open>current_time()\<close> slots, so all working devices are in the same slot.
\<close>

theorem timer_barrier:
  assumes "timer_init s0" "steps timer_step s0 tr s" "i \<in> set (dev_list s)" "j \<in> set (dev_list s)" "dpc s j \<noteq> Detached"
  shows "occurs (Leave i) tr \<le> occurs (Enter j) tr \<and> occurs (Enter j) tr \<le> occurs (Leave j) tr + 1 \<and>
    current_time s = of_nat (occurs Tick tr) \<and> (dpc s j = Working \<longrightarrow> occurs (Leave j) tr = occurs Tick tr)"
proof -
  have inv: "timer_inv tr s" by (rule tmr.inv_run [OF assms(2,1)])
  then have "dev_inv tr s i" "dev_inv tr s j" "timer_time s = of_nat (occurs Tick tr)" "pc_inv s"
    using assms(3,4) by (auto simp: timer_inv_def)
  moreover have "j \<in> releasing s \<Longrightarrow> blocked s j"
    using releasing_passed [of s j] calculation assms(5) by (cases "dpc s j") (auto simp: inv_defs)
  ultimately show ?thesis using assms(5) by (auto simp: dev_inv_def behind_def current_time_def split: if_splits) (auto simp: blocked_def)
qed

text \<open>
  The timer thread ends by itself only after every device has detached, a sleeping device still has
  its flag \<open>done\<close> set (no wake-up is lost), and while the timer clears the flag of a device, that device
  is not about to set it: the two writes of \<open>done\<close>, which are under different mutexes, never race.
\<close>

theorem timer_safety:
  assumes "timer_init s0" "steps timer_step s0 tr s" "d \<in> set (dev_list s)"
  shows "(tpc s = TExit \<and> \<not> timer_stop s \<longrightarrow> dpc s d = Detached) \<and> (dpc s d = Asleep \<longrightarrow> id_done (dev s d)) \<and>
    (tpc s = TRelease (d # temp) \<longrightarrow> dpc s d \<noteq> Working)"
proof -
  have "timer_inv tr s" by (rule tmr.inv_run [OF assms(2,1)])
  then have "dev_inv tr s d" "pc_inv s" using assms(3) by (auto simp: timer_inv_def)
  then show ?thesis using assms(3) by (auto simp: pc_inv_def inv_defs)
qed

text \<open>
  C16. The timer cannot get stuck. In every reachable state in which \<open>stop_timer\<close> has not been called, look at the
  steps that the timer and the devices inside \<open>next_slot\<close> can take by themselves (\<open>quiet\<close>: no device enters
  \<open>next_slot\<close> or detaches, and nothing wakes up spuriously). At most \<open>timer_rank\<close> of them can follow one another, in
  whatever order they are taken, and they come to an end only when no device is in \<open>next_slot\<close> without
  sleeping and the timer either has finished after the last device, or sleeps until a device that is
  working finishes its slot.
\<close>

theorem timer_progress:
  assumes "timer_init s0" "steps timer_step s0 tr s" "\<not> timer_stop s"
  shows "(\<forall>qs t. steps timer_step s qs t \<and> (\<forall>e \<in> set qs. quiet e) \<longrightarrow> length qs \<le> timer_rank s) \<and>
    (\<forall>qs t. steps timer_step s qs t \<and> (\<forall>e \<in> set qs. quiet e) \<longrightarrow> (\<exists>e u. quiet e \<and> timer_step t e u) \<or>
      (tpc t = TExit \<and> (\<forall>d \<in> set (dev_list t). dpc t d = Detached)) \<or>
      (\<exists>d temp. tpc t = TSleep (d # temp) \<and> dpc t d = Working \<and> (\<forall>d \<in> set (dev_list t). dpc t d \<noteq> Told)))"
proof -
  have inv: "timer_inv tr s" by (rule tmr.inv_run [OF assms(2,1)])
  have stop: "\<not> timer_stop t" if "steps timer_step s qs t" "\<forall>e \<in> set qs. quiet e" for qs t
    using that assms(3)
  proof (induction rule: steps.induct)
    case (later s tr t e u)
    then have "\<not> timer_stop t" "quiet e" by auto
    with later.hyps(2) show ?case
      by cases (auto simp: quiet_def next_slot_wait_def next_slot_tell_def detach_event_def dest: timer_routine_frame(3) split: if_splits)
  qed simp
  have "(\<exists>e u. quiet e \<and> timer_step t e u) \<or> (tpc t = TExit \<and> (\<forall>d \<in> set (dev_list t). dpc t d = Detached)) \<or>
      (\<exists>d temp. tpc t = TSleep (d # temp) \<and> dpc t d = Working \<and> (\<forall>d \<in> set (dev_list t). dpc t d \<noteq> Told))"
    if q: "steps timer_step s qs t" "\<forall>e \<in> set qs. quiet e" for qs t
  proof (cases "at_rest t")
    case True
    have "timer_inv (tr @ qs) t" using tmr.quiet_run_bounded [OF q(1) inv q(2)] by simp
    with True stop [OF q] show ?thesis by (auto simp: at_rest_def timer_inv_def pc_inv_def dev_inv_def)
  next
    case False
    then show ?thesis using quiet_step_enabled [of "tr @ qs" t] tmr.quiet_run_bounded [OF q(1) inv q(2)] by blast
  qed
  moreover have "length qs \<le> timer_rank s" if "steps timer_step s qs t" "\<forall>e \<in> set qs. quiet e" for qs t
    using tmr.quiet_run_bounded [OF that(1) inv that(2)] by simp
  ultimately show ?thesis by blast
qed

section \<open>Witnesses\<close>

text \<open>Playing a schedule.\<close>

datatype tmove = MTimer | MEnter nat | MWait nat

definition tmove_at :: "tmove \<Rightarrow> timer_sys \<Rightarrow> (tevent \<times> timer_sys) option" where
  "tmove_at m s = (case m of
     MTimer \<Rightarrow> timer_routine s
   | MEnter d \<Rightarrow> if d \<in> set (dev_list s) \<and> dpc s d = Working then Some (Enter d, next_slot_tell d s) else None
   | MWait d \<Rightarrow> if d \<in> set (dev_list s) \<and> dpc s d = Told then Some (next_slot_wait d s) else None)"

fun play :: "tmove list \<Rightarrow> timer_sys \<Rightarrow> (tevent list \<times> timer_sys) option" where
  "play [] s = Some ([], s)"
| "play (m # ms) s =
     (case tmove_at m s of None \<Rightarrow> None
      | Some (e, t) \<Rightarrow> (case play ms t of None \<Rightarrow> None | Some (tr, u) \<Rightarrow> Some (e # tr, u)))"

lemma tmove_step: "tmove_at m s = Some (e, t) \<Longrightarrow> timer_step s e t"
  by (auto simp: tmove_at_def intro: timer_step.intros split: tmove.splits if_splits)

lemma play_steps: "play ms s = Some (tr, t) \<Longrightarrow> steps timer_step s tr t"
proof (induction ms arbitrary: s tr)
  case (Cons m ms)
  then obtain e u tr' where "tmove_at m s = Some (e, u)" "play ms u = Some (tr', t)" "tr = e # tr'"
    by (auto split: option.splits)
  with Cons.IH [of u tr'] show ?case by (simp add: steps_Cons [of timer_step, OF tmove_step])
qed simp

definition two_devices :: timer_sys where
  "two_devices = start_timer (attach_all 2 timer0)"

definition one_slot :: "tmove list" where
  "one_slot = [MTimer, MEnter 0, MEnter 1, MWait 1, MTimer, MTimer, MTimer, MTimer, MTimer, MWait 0]"

lemma two_devices_init: "timer_init two_devices"
  unfolding two_devices_def by (intro timer_init_start attach_timer0)

lemma one_slot_run:
  "\<exists>s. steps timer_step two_devices [Tau, Enter 0, Enter 1, Tau, Tau, Tau, Tick, Tau, Tau, Leave 0] s \<and> dev_list s = [1, 0] \<and>
     dpc s 0 = Working \<and> dpc s 1 = Told \<and> tpc s = TRelease [] \<and> \<not> timer_stop s"
proof -
  define r where "r = play one_slot two_devices"
  have "case r of None \<Rightarrow> False | Some (tr, s) \<Rightarrow>
      tr = [Tau, Enter 0, Enter 1, Tau, Tau, Tau, Tick, Tau, Tau, Leave 0] \<and> dev_list s = [1, 0] \<and>
      dpc s 0 = Working \<and> dpc s 1 = Told \<and> tpc s = TRelease [] \<and> \<not> timer_stop s"
    unfolding r_def by code_simp
  then show ?thesis using play_steps [of one_slot two_devices] unfolding r_def by (auto split: option.splits prod.splits)
qed

theorem timer_barrier_witness:
  "\<exists>tr s. steps timer_step two_devices tr s \<and> dpc s 0 = Working \<and> occurs (Leave 0) tr = 1 \<and> current_time s = 1 \<and>
     occurs (Leave 0) tr \<le> occurs (Enter 1) tr"
proof -
  let ?tr = "[Tau, Enter 0, Enter 1, Tau, Tau, Tau, Tick, Tau, Tau, Leave 0]"
  obtain s where s: "steps timer_step two_devices ?tr s" "dev_list s = [1, 0]" "dpc s 0 = Working" "dpc s 1 = Told"
    using one_slot_run by blast
  have "current_time s = 1 \<and> occurs (Leave 0) ?tr \<le> occurs (Enter 1) ?tr"
    using timer_barrier [OF two_devices_init s(1), of 0 1] s(2-) by simp
  with s show ?thesis by (intro exI [of _ ?tr] exI [of _ s]) simp
qed

theorem timer_safety_witness:
  "\<exists>tr s. steps timer_step two_devices tr s \<and> 0 \<in> set (dev_list s) \<and> (tpc s = TExit \<and> \<not> timer_stop s \<longrightarrow> dpc s 0 = Detached)"
proof -
  obtain tr s where s: "steps timer_step two_devices tr s" "0 \<in> set (dev_list s)" using one_slot_run by fastforce
  with timer_safety [OF two_devices_init s(1,2)] show ?thesis by blast
qed

theorem timer_progress_witness:
  "\<exists>tr s. steps timer_step two_devices tr s \<and> \<not> timer_stop s \<and>
     (\<forall>qs t. steps timer_step s qs t \<and> (\<forall>e \<in> set qs. quiet e) \<longrightarrow> length qs \<le> timer_rank s)"
proof -
  obtain tr s where s: "steps timer_step two_devices tr s" "\<not> timer_stop s" using one_slot_run by fastforce
  with timer_progress [OF two_devices_init s] show ?thesis by blast
qed

end
