(* ===== verification/Os.thy ===== *)
theory Os
  imports Loader Config Sched Timer
begin

text \<open>
  The simulator: \<open>main\<close> and the threads of \<open>src/os.c\<close>. The CPUs and the loader are threads that share the
  scheduler, the memory, the timer and two counters. A step of a thread is one access to shared
  state: a call of the scheduler, one instruction (\<open>run\<close>), a critical section of \<open>next_slot\<close> or
  \<open>detach_event\<close>, or one access to \<open>done\<close> or \<open>cnt_proc_done\<close>; the increment \<open>cnt_proc_done++\<close>, which no
  lock protects, is a read and a write. A process is owned by the queue, the CPU or the loader that
  holds the pointer to it, so the model moves its control block around.
\<close>

section \<open>State\<close>

datatype cpu_pc =
    CTop
  | CIdle
  | CFinGet
  | CIncr
  | CStore int
  | CPutGet
  | CRecheck
  | CRun
  | CSlot
  | CBar
  | CDetach
  | CEnd

record cpu_st =
  cpu_proc :: "pcb_t option"
  time_left :: int
  cpu_pc :: cpu_pc

datatype ld_pc = LTop | LWait | LWaitSlot | LWaitBar | LAdd | LSlot | LBar | LDone | LDetach | LEnd

record ld_st =
  ld_i :: nat
  ld_proc :: "pcb_t option"
  ld_pc :: ld_pc

datatype main_pc = MJoin | MStop | MEnd

record os =
  tms :: timer_sys
  sch :: "pcb_t sched"
  pgs :: paging
  cpus :: "nat \<Rightarrow> cpu_st"
  ldr :: ld_st
  os_done :: bool
  cnt_proc_done :: int
  avail_pid :: int
  mainpc :: main_pc

text \<open>What happens, for the properties of runs: a process is added to the ready queue, executes an
  instruction, or is found finished and released; a timer event; anything else.\<close>

datatype os_event = OLoad pcb_t | OExec int | OFin pcb_t | OTimer tevent | OStep

text \<open>The content of fresh memory: what \<open>malloc\<close> returns to the loader and to \<open>main\<close>, by process.\<close>

record fresh =
  fr_prio :: "nat \<Rightarrow> int"
  fr_pcb :: "nat \<Rightarrow> pcb_t"
  fr_inst :: "nat \<Rightarrow> nat \<Rightarrow> inst_t"
  fr_mm :: "nat \<Rightarrow> mm_struct"
  fr_pgd :: "nat \<Rightarrow> int \<Rightarrow> 32 word"
  fr_rg :: "nat \<Rightarrow> nat \<Rightarrow> vm_rg_struct list"
  fr_mp :: "nat \<Rightarrow> memphy_struct"
  fr_fp :: "nat \<Rightarrow> int list"
  fr_blk :: "nat \<Rightarrow> int \<Rightarrow> byte"
  fr_mm0 :: "int \<Rightarrow> mm_struct"
  fr_sched :: "pcb_t sched"
  fr_lru :: "nat \<Rightarrow> LRU_list"

section \<open>The CPU thread\<close>

abbreviation prio_of :: "pcb_t \<Rightarrow> nat" where
  "prio_of p \<equiv> nat (prio p)"

definition set_cpu :: "nat \<Rightarrow> cpu_st \<Rightarrow> os \<Rightarrow> os" where
  "set_cpu i c s = s\<lparr>cpus := (cpus s)(i := c)\<rparr>"

text \<open>Taking the next process; the CPU goes on at \<open>l\<close> or, without a process, at \<open>l0\<close>.\<close>

definition cpu_get :: "nat \<Rightarrow> cpu_st \<Rightarrow> cpu_pc \<Rightarrow> cpu_pc \<Rightarrow> os \<Rightarrow> (os_event \<times> os) res" where
  "cpu_get i c l l0 s =
     bindR (get_proc (sch s)) (\<lambda>(r, q).
     ok (OStep, set_cpu i (c\<lparr>cpu_proc := r, cpu_pc := (if r = None then l0 else l)\<rparr>) (s\<lparr>sch := q\<rparr>)))"

text \<open>The next step of \<open>cpu_routine\<close> on CPU \<open>i\<close>, whose timer device is number \<open>i\<close>.\<close>

definition cpu_routine :: "config \<Rightarrow> nat \<Rightarrow> os \<Rightarrow> (os_event \<times> os) res" where
  "cpu_routine cfg i s =
     (let c = cpus s i in
      case cpu_pc c of
        CTop \<Rightarrow>
          (case cpu_proc c of
             None \<Rightarrow> cpu_get i c CRecheck CIdle s
           | Some p \<Rightarrow>
               if pc p = code_size (code p) then ok (OFin p, set_cpu i (c\<lparr>cpu_proc := None, cpu_pc := CFinGet\<rparr>) s)
               else if time_left c = 0 then
                 bindR (put_proc prio_of (sch s) p) (\<lambda>q.
                 ok (OStep, set_cpu i (c\<lparr>cpu_proc := None, cpu_pc := CPutGet\<rparr>) (s\<lparr>sch := q\<rparr>)))
               else ok (OStep, set_cpu i (c\<lparr>cpu_pc := CRecheck\<rparr>) s))
      | CIdle \<Rightarrow>
          if cnt_proc_done s = num_processes cfg then ok (OStep, set_cpu i (c\<lparr>cpu_pc := CDetach\<rparr>) s)
          else ok (OStep, set_cpu i (c\<lparr>cpu_pc := CSlot\<rparr>) s)
      | CFinGet \<Rightarrow> cpu_get i (c\<lparr>time_left := 0\<rparr>) CIncr CIncr s
      | CIncr \<Rightarrow> ok (OStep, set_cpu i (c\<lparr>cpu_pc := CStore (cnt_proc_done s)\<rparr>) s)
      | CStore v \<Rightarrow> ok (OStep, set_cpu i (c\<lparr>cpu_pc := CRecheck\<rparr>) (s\<lparr>cnt_proc_done := s32 (v + 1)\<rparr>))
      | CPutGet \<Rightarrow> cpu_get i c CRecheck CRecheck s
      | CRecheck \<Rightarrow>
          (case cpu_proc c of
             None \<Rightarrow> ok (OStep, set_cpu i (c\<lparr>cpu_pc := (if os_done s then CDetach else CSlot)\<rparr>) s)
           | Some p \<Rightarrow>
               ok (OStep, set_cpu i (c\<lparr>time_left := (if time_left c = 0 then time_slot cfg else time_left c), cpu_pc := CRun\<rparr>) s))
      | CRun \<Rightarrow>
          bindR (from_opt NullDeref (cpu_proc c)) (\<lambda>p.
          bindR (run p (pgs s)) (\<lambda>(stat, p', st).
          ok (if pc p < code_size (code p) then OExec (pid p) else OStep,
              set_cpu i (c\<lparr>cpu_proc := Some p', time_left := s32 (time_left c - 1), cpu_pc := CSlot\<rparr>) (s\<lparr>pgs := st\<rparr>))))
      | CSlot \<Rightarrow> ok (OTimer (Enter i), set_cpu i (c\<lparr>cpu_pc := CBar\<rparr>) (s\<lparr>tms := next_slot_tell i (tms s)\<rparr>))
      | CBar \<Rightarrow> ok (OStep, set_cpu i (c\<lparr>cpu_pc := CTop\<rparr>) s)
      | CDetach \<Rightarrow> ok (OTimer (Detach i), set_cpu i (c\<lparr>cpu_pc := CEnd\<rparr>) (s\<lparr>tms := detach_event i (tms s)\<rparr>))
      | CEnd \<Rightarrow> ok (OStep, s))"

text \<open>A thread that has ended, or that is inside \<open>next_slot\<close>, takes no step of its own.\<close>

definition cpu_enabled :: "nat \<Rightarrow> os \<Rightarrow> bool" where
  "cpu_enabled i s \<longleftrightarrow> cpu_pc (cpus s i) \<noteq> CEnd \<and> (cpu_pc (cpus s i) = CBar \<longrightarrow> dpc (tms s) i = Working)"

section \<open>The loader thread\<close>

definition set_ld :: "ld_st \<Rightarrow> os \<Rightarrow> os" where
  "set_ld l s = s\<lparr>ldr := l\<rparr>"

text \<open>The number of the loader's timer device: it is attached after those of the CPUs.\<close>

definition ld_dev :: "config \<Rightarrow> nat" where
  "ld_dev cfg = nat (num_cpus cfg)"

definition ld_routine :: "(string \<Rightarrow> string option) \<Rightarrow> fresh \<Rightarrow> config \<Rightarrow> os \<Rightarrow> (os_event \<times> os) res" where
  "ld_routine files fr cfg s =
     (let l = ldr s; i = ld_i l; d = ld_dev cfg in
      case ld_pc l of
        LTop \<Rightarrow>
          if int i < num_processes cfg then
            bindR (guardR (i < length (ld_path cfg)) OutOfBounds
              (load files (fr_pcb fr i) (fr_inst fr i) (avail_pid s) (ld_path cfg ! i))) (\<lambda>(p, avail).
            ok (OStep, set_ld (l\<lparr>ld_proc := Some (p\<lparr>prio := u32 (ld_prio cfg ! i)\<rparr>), ld_pc := LWait\<rparr>) (s\<lparr>avail_pid := avail\<rparr>)))
          else ok (OStep, set_ld (l\<lparr>ld_pc := LDone\<rparr>) s)
      | LWait \<Rightarrow>
          ok (OStep, set_ld (l\<lparr>ld_pc := (if uint (current_time (tms s)) < ld_start_time cfg ! i then LWaitSlot else LAdd)\<rparr>) s)
      | LWaitSlot \<Rightarrow> ok (OTimer (Enter d), set_ld (l\<lparr>ld_pc := LWaitBar\<rparr>) (s\<lparr>tms := next_slot_tell d (tms s)\<rparr>))
      | LWaitBar \<Rightarrow> ok (OStep, set_ld (l\<lparr>ld_pc := LWait\<rparr>) s)
      | LAdd \<Rightarrow>
          bindR (from_opt NullDeref (ld_proc l)) (\<lambda>p.
          let st = set_mm (pid p) (init_mm (fr_pgd fr i) (fr_rg fr i 0) (fr_rg fr i 1) (fr_mm fr i) (u32 (cfg_vmemsz cfg))) (pgs s) in
          bindR (add_proc prio_of (sch s) p) (\<lambda>q.
          ok (OLoad p, set_ld (l\<lparr>ld_i := i + 1, ld_proc := None, ld_pc := LSlot\<rparr>) (s\<lparr>pgs := st, sch := q\<rparr>))))
      | LSlot \<Rightarrow> ok (OTimer (Enter d), set_ld (l\<lparr>ld_pc := LBar\<rparr>) (s\<lparr>tms := next_slot_tell d (tms s)\<rparr>))
      | LBar \<Rightarrow> ok (OStep, set_ld (l\<lparr>ld_pc := LTop\<rparr>) s)
      | LDone \<Rightarrow> ok (OStep, set_ld (l\<lparr>ld_pc := LDetach\<rparr>) (s\<lparr>os_done := True\<rparr>))
      | LDetach \<Rightarrow> ok (OTimer (Detach d), set_ld (l\<lparr>ld_pc := LEnd\<rparr>) (s\<lparr>tms := detach_event d (tms s)\<rparr>))
      | LEnd \<Rightarrow> ok (OStep, s))"

definition ld_enabled :: "config \<Rightarrow> os \<Rightarrow> bool" where
  "ld_enabled cfg s \<longleftrightarrow> ld_pc (ldr s) \<noteq> LEnd \<and>
     (ld_pc (ldr s) = LWaitBar \<or> ld_pc (ldr s) = LBar \<longrightarrow> dpc (tms s) (ld_dev cfg) = Working)"

section \<open>The whole program\<close>

text \<open>\<open>main\<close> up to the creation of the threads.\<close>

fun init_devices :: "fresh \<Rightarrow> nat \<Rightarrow> int list \<Rightarrow> memphy_struct list res" where
  "init_devices fr k [] = ok []"
| "init_devices fr k (sz # szs) =
     bindR (init_memphy (fr_fp fr k) (fr_blk fr k) (fr_mp fr k) sz 1) (\<lambda>(_, mp).
     bindR (init_devices fr (k + 1) szs) (\<lambda>mps. ok (mp # mps)))"

definition boot :: "fresh \<Rightarrow> config \<Rightarrow> os res" where
  "boot fr cfg =
     (let tm = start_timer (attach_all (nat (num_cpus cfg) + 1) timer0) in
      bindR (init_devices fr 0 (memramsz cfg # memswpsz cfg)) (\<lambda>devs.
      guardR (2 \<le> length devs) OutOfBounds
        (ok \<lparr>tms = tm, sch = init_scheduler (fr_sched fr),
          pgs = \<lparr>mm_of = fr_mm0 fr, mram = devs ! 0, mswp = devs ! 1,
                 lru = \<lparr>lru_heap = fr_lru fr, lru_head = None, lru_tail = None, lru_brk = 0\<rparr>,
                 vmemsz = u32 (cfg_vmemsz cfg), lock_vm = False, lock_mm = False\<rparr>,
          cpus = (\<lambda>_. \<lparr>cpu_proc = None, time_left = 0, cpu_pc = CTop\<rparr>),
          ldr = \<lparr>ld_i = 0, ld_proc = None, ld_pc = LTop\<rparr>,
          os_done = False, cnt_proc_done = 0, avail_pid = 1, mainpc = MJoin\<rparr>)))"

text \<open>\<open>main\<close>: the exit code when there are not exactly two arguments, otherwise the started system.\<close>

definition os_main :: "(string \<Rightarrow> string option) \<Rightarrow> fresh \<Rightarrow> string list \<Rightarrow> (int + config \<times> os) res" where
  "os_main files fr argv =
     (if length argv \<noteq> 2 then ok (Inl 1)
      else
        bindR (strcat 100 ''input/'' (argv ! 1)) (\<lambda>path.
        bindR (read_config files (fr_prio fr) path) (\<lambda>cfg.
        bindR (boot fr cfg) (\<lambda>s. ok (Inr (cfg, s))))))"

text \<open>One step of the program. A thread whose step faults takes the program down: there is no step.\<close>

inductive os_step :: "(string \<Rightarrow> string option) \<Rightarrow> fresh \<Rightarrow> config \<Rightarrow> os \<Rightarrow> os_event \<Rightarrow> os \<Rightarrow> bool"
  for files fr cfg where
  cpu: "i < nat (num_cpus cfg) \<Longrightarrow> cpu_enabled i s \<Longrightarrow> cpu_routine cfg i s = ok (e, t) \<Longrightarrow> os_step files fr cfg s e t"
| ld: "ld_enabled cfg s \<Longrightarrow> ld_routine files fr cfg s = ok (e, t) \<Longrightarrow> os_step files fr cfg s e t"
| timer: "timer_step (tms s) e t \<Longrightarrow> quiet e \<or> e = Spurious \<Longrightarrow> os_step files fr cfg s (OTimer e) (s\<lparr>tms := t\<rparr>)"
| join: "mainpc s = MJoin \<Longrightarrow> \<forall>i < nat (num_cpus cfg). cpu_pc (cpus s i) = CEnd \<Longrightarrow> ld_pc (ldr s) = LEnd \<Longrightarrow>
     os_step files fr cfg s (OTimer Stop) (s\<lparr>tms := stop_timer_ask (tms s), mainpc := MStop\<rparr>)"
| finish: "mainpc s = MStop \<Longrightarrow> tpc (tms s) = TExit \<Longrightarrow>
     os_step files fr cfg s (OTimer Release_all) (s\<lparr>tms := stop_timer_free (tms s), mainpc := MEnd\<rparr>)"

section \<open>The threads and the timer\<close>

definition tproj :: "os_event list \<Rightarrow> tevent list" where
  "tproj tr = concat (map (\<lambda>e. case e of OTimer t \<Rightarrow> [t] | _ \<Rightarrow> []) tr)"

lemma tproj_snoc [simp]: "tproj [] = []" "tproj (tr @ [e]) = tproj tr @ (case e of OTimer t \<Rightarrow> [t] | _ \<Rightarrow> [])"
  by (simp_all add: tproj_def)

text \<open>A device is blocked only while its thread is inside \<open>next_slot\<close>, and detached when it has ended.\<close>

definition dev_link :: "dev_pc \<Rightarrow> bool \<Rightarrow> bool \<Rightarrow> bool" where
  "dev_link d in_slot ended \<longleftrightarrow> (d = Told \<or> d = Asleep \<longrightarrow> in_slot) \<and> (d = Detached \<longleftrightarrow> ended)"

definition threads_ended :: "config \<Rightarrow> os \<Rightarrow> bool" where
  "threads_ended cfg s \<longleftrightarrow> (\<forall>i < nat (num_cpus cfg). cpu_pc (cpus s i) = CEnd) \<and> ld_pc (ldr s) = LEnd"

definition link_inv :: "config \<Rightarrow> os_event list \<Rightarrow> os \<Rightarrow> bool" where
  "link_inv cfg tr s \<longleftrightarrow>
     (\<forall>i < nat (num_cpus cfg). dev_link (dpc (tms s) i) (cpu_pc (cpus s i) = CBar) (cpu_pc (cpus s i) = CEnd)) \<and>
     dev_link (dpc (tms s) (ld_dev cfg)) (ld_pc (ldr s) = LWaitBar \<or> ld_pc (ldr s) = LBar) (ld_pc (ldr s) = LEnd) \<and>
     (mainpc s \<noteq> MJoin \<longrightarrow> threads_ended cfg s) \<and>
     (timer_stop (tms s) \<longleftrightarrow> mainpc s \<noteq> MJoin) \<and>
     dev_list (tms s) = (if mainpc s = MEnd then [] else rev [0..<nat (num_cpus cfg) + 1]) \<and>
     (\<exists>t0. timer_init t0 \<and> steps timer_step t0 (tproj tr) (tms s))"

lemma link_timer_inv: "link_inv cfg tr s \<Longrightarrow> timer_inv (tproj tr) (tms s)"
  by (auto simp: link_inv_def intro: tmr.inv_run)

text \<open>The timer events of the threads.\<close>

lemma next_slot_tell_dpc [simp]: "dpc (next_slot_tell d t) = (dpc t)(d := Told)"
  by (simp add: next_slot_tell_def)

lemma detach_event_dpc [simp]: "dpc (detach_event d t) = (dpc t)(d := Detached)"
  by (simp add: detach_event_def)

lemma tell_frame [simp]:
  "dev_list (next_slot_tell d t) = dev_list t" "timer_stop (next_slot_tell d t) = timer_stop t"
  "dev_list (detach_event d t) = dev_list t" "timer_stop (detach_event d t) = timer_stop t"
  by (simp_all add: next_slot_tell_def detach_event_def)

lemma timer_step_dpc:
  assumes "timer_step t e u" "quiet e \<or> e = Spurious"
  shows "dpc u d = dpc t d \<or> (dpc t d = Asleep \<and> dpc u d = Told) \<or> (dpc t d = Told \<and> dpc u d \<in> {Working, Asleep})"
  using assms(1)
proof cases
  case timer
  then show ?thesis by (auto simp: timer_routine_def signal_timer_def split: timer_pc.splits list.splits if_splits)
qed (use assms(2) in \<open>auto simp: next_slot_wait_def quiet_def split: if_splits\<close>)

lemma timer_step_frame:
  assumes "timer_step t e u" "quiet e \<or> e = Spurious"
  shows "dev_list u = dev_list t \<and> timer_stop u = timer_stop t"
  using assms(1)
proof cases
  case timer
  then show ?thesis using timer_routine_frame by blast
qed (use assms(2) in \<open>auto simp: next_slot_wait_def quiet_def split: if_splits\<close>)

lemma link_invD:
  assumes "link_inv cfg tr s"
  shows "i < nat (num_cpus cfg) \<Longrightarrow> dev_link (dpc (tms s) i) (cpu_pc (cpus s i) = CBar) (cpu_pc (cpus s i) = CEnd)"
    "dev_link (dpc (tms s) (ld_dev cfg)) (ld_pc (ldr s) = LWaitBar \<or> ld_pc (ldr s) = LBar) (ld_pc (ldr s) = LEnd)"
    "mainpc s \<noteq> MJoin \<Longrightarrow> threads_ended cfg s" "timer_stop (tms s) \<longleftrightarrow> mainpc s \<noteq> MJoin"
    "dev_list (tms s) = (if mainpc s = MEnd then [] else rev [0..<nat (num_cpus cfg) + 1])"
    "\<exists>t0. timer_init t0 \<and> steps timer_step t0 (tproj tr) (tms s)"
  using assms by (simp_all add: link_inv_def)

text \<open>A step of a thread while \<open>main\<close> waits: the other threads and the rest of the timer stay.\<close>

lemma link_inv_thread:
  assumes "link_inv cfg tr s" "mainpc s = MJoin" "mainpc t = MJoin"
    and "tms t = tms s \<and> (\<forall>x. e \<noteq> OTimer x) \<or> (\<exists>x. e = OTimer x \<and> timer_step (tms s) x (tms t))"
    and "dev_list (tms t) = dev_list (tms s)" "timer_stop (tms t) = timer_stop (tms s)"
    and "\<And>j. j < nat (num_cpus cfg) \<Longrightarrow> dev_link (dpc (tms t) j) (cpu_pc (cpus t j) = CBar) (cpu_pc (cpus t j) = CEnd)"
    and "dev_link (dpc (tms t) (ld_dev cfg)) (ld_pc (ldr t) = LWaitBar \<or> ld_pc (ldr t) = LBar) (ld_pc (ldr t) = LEnd)"
  shows "link_inv cfg (tr @ [e]) t"
proof -
  obtain t0 where t0: "timer_init t0" "steps timer_step t0 (tproj tr) (tms s)" using link_invD(6) [OF assms(1)] by blast
  from assms(4) have "steps timer_step t0 (tproj (tr @ [e])) (tms t)"
  proof
    assume "tms t = tms s \<and> (\<forall>x. e \<noteq> OTimer x)"
    with t0(2) show ?thesis by (cases e) simp_all
  next
    assume "\<exists>x. e = OTimer x \<and> timer_step (tms s) x (tms t)"
    then obtain x where x: "e = OTimer x" "timer_step (tms s) x (tms t)" by blast
    from steps.later [of timer_step, OF t0(2) x(2)] show ?thesis unfolding x(1) by simp
  qed
  with t0(1) have "\<exists>t0. timer_init t0 \<and> steps timer_step t0 (tproj (tr @ [e])) (tms t)" by blast
  with assms(2,3,5-) link_invD(4,5) [OF assms(1)] show ?thesis unfolding link_inv_def by simp
qed

lemma link_working:
  assumes "link_inv cfg tr s" "i < nat (num_cpus cfg)" "cpu_enabled i s"
  shows "dpc (tms s) i = Working" "mainpc s = MJoin" "i \<in> set (dev_list (tms s))"
proof -
  show w: "dpc (tms s) i = Working" using link_invD(1) [OF assms(1,2)] assms(3)
    by (cases "dpc (tms s) i") (auto simp: dev_link_def cpu_enabled_def)
  show m: "mainpc s = MJoin" using link_invD(3) [OF assms(1)] assms(2,3) by (auto simp: threads_ended_def cpu_enabled_def)
  show "i \<in> set (dev_list (tms s))" using link_invD(5) [OF assms(1)] m assms(2) by simp
qed

lemma link_working_ld:
  assumes "link_inv cfg tr s" "ld_enabled cfg s"
  shows "dpc (tms s) (ld_dev cfg) = Working" "mainpc s = MJoin" "ld_dev cfg \<in> set (dev_list (tms s))"
proof -
  show w: "dpc (tms s) (ld_dev cfg) = Working" using link_invD(2) [OF assms(1)] assms(2)
    by (cases "dpc (tms s) (ld_dev cfg)") (auto simp: dev_link_def ld_enabled_def)
  show m: "mainpc s = MJoin" using link_invD(3) [OF assms(1)] assms(2) by (auto simp: threads_ended_def ld_enabled_def)
  show "ld_dev cfg \<in> set (dev_list (tms s))" using link_invD(5) [OF assms(1)] m by (simp add: ld_dev_def)
qed

text \<open>What a step of CPU \<open>i\<close> does to the timer.\<close>

lemma cpu_routine_timer:
  assumes "cpu_routine cfg i s = ok (e, t)" "cpu_pc (cpus s i) \<noteq> CEnd"
  shows "ldr t = ldr s" "mainpc t = mainpc s" "j \<noteq> i \<Longrightarrow> cpus t j = cpus s j"
    "tms t = (case cpu_pc (cpus s i) of CSlot \<Rightarrow> next_slot_tell i (tms s) | CDetach \<Rightarrow> detach_event i (tms s) | _ \<Rightarrow> tms s)"
    "(\<forall>x. e \<noteq> OTimer x) \<or> e = OTimer (Enter i) \<and> cpu_pc (cpus s i) = CSlot \<or> e = OTimer (Detach i) \<and> cpu_pc (cpus s i) = CDetach"
    "cpu_pc (cpus s i) = CSlot \<longleftrightarrow> e = OTimer (Enter i)" "cpu_pc (cpus s i) = CDetach \<longleftrightarrow> e = OTimer (Detach i)"
    "cpu_pc (cpus t i) = CBar \<longleftrightarrow> cpu_pc (cpus s i) = CSlot" "cpu_pc (cpus t i) = CEnd \<longleftrightarrow> cpu_pc (cpus s i) = CDetach"
  using assms
  by (auto simp: cpu_routine_def cpu_get_def set_cpu_def Let_def split: cpu_pc.splits option.splits if_splits)

lemma link_inv_cpu:
  assumes "link_inv cfg tr s" "i < nat (num_cpus cfg)" "cpu_enabled i s" "cpu_routine cfg i s = ok (e, t)"
  shows "link_inv cfg (tr @ [e]) t"
proof -
  note w = link_working [OF assms(1-3)]
  have ne: "cpu_pc (cpus s i) \<noteq> CEnd" using assms(3) by (simp add: cpu_enabled_def)
  note r = cpu_routine_timer [OF assms(4) ne]
  have ts: "tms t = tms s \<and> (\<forall>x. e \<noteq> OTimer x) \<or> (\<exists>x. e = OTimer x \<and> timer_step (tms s) x (tms t))"
    using r(4,6,7) timer_step.enter [OF w(3,1)] timer_step.detach [OF w(3,1)] r(5) by (auto split: cpu_pc.splits)
  have d: "dpc (tms t) j = (if j = i \<and> cpu_pc (cpus s i) = CSlot then Told else if j = i \<and> cpu_pc (cpus s i) = CDetach then Detached
      else dpc (tms s) j)" for j
    using r(4) by (simp split: cpu_pc.splits)
  show ?thesis
  proof (rule link_inv_thread [OF assms(1) w(2) _ ts])
    show "dev_list (tms t) = dev_list (tms s)" "timer_stop (tms t) = timer_stop (tms s)" using r(4) by (simp_all split: cpu_pc.splits)
    show "dev_link (dpc (tms t) j) (cpu_pc (cpus t j) = CBar) (cpu_pc (cpus t j) = CEnd)" if "j < nat (num_cpus cfg)" for j
      using link_invD(1) [OF assms(1) that] r(3) [of j] r(8,9) d [of j] w(1) by (cases "j = i") (auto simp: dev_link_def)
    show "dev_link (dpc (tms t) (ld_dev cfg)) (ld_pc (ldr t) = LWaitBar \<or> ld_pc (ldr t) = LBar) (ld_pc (ldr t) = LEnd)"
      using link_invD(2) [OF assms(1)] r(1) d [of "ld_dev cfg"] assms(2) by (simp add: ld_dev_def)
  qed (simp add: r(2) w(2))
qed

lemma ld_routine_timer:
  assumes "ld_routine files fr cfg s = ok (e, t)" "ld_pc (ldr s) \<noteq> LEnd"
  shows "cpus t = cpus s" "mainpc t = mainpc s"
    "tms t = (case ld_pc (ldr s) of LSlot \<Rightarrow> next_slot_tell (ld_dev cfg) (tms s) | LWaitSlot \<Rightarrow> next_slot_tell (ld_dev cfg) (tms s)
        | LDetach \<Rightarrow> detach_event (ld_dev cfg) (tms s) | _ \<Rightarrow> tms s)"
    "(\<forall>x. e \<noteq> OTimer x) \<or> e = OTimer (Enter (ld_dev cfg)) \<and> (ld_pc (ldr s) = LSlot \<or> ld_pc (ldr s) = LWaitSlot) \<or>
       e = OTimer (Detach (ld_dev cfg)) \<and> ld_pc (ldr s) = LDetach"
    "ld_pc (ldr s) = LSlot \<or> ld_pc (ldr s) = LWaitSlot \<longleftrightarrow> e = OTimer (Enter (ld_dev cfg))"
    "ld_pc (ldr s) = LDetach \<longleftrightarrow> e = OTimer (Detach (ld_dev cfg))"
    "ld_pc (ldr t) = LBar \<longleftrightarrow> ld_pc (ldr s) = LSlot" "ld_pc (ldr t) = LWaitBar \<longleftrightarrow> ld_pc (ldr s) = LWaitSlot"
    "ld_pc (ldr t) = LEnd \<longleftrightarrow> ld_pc (ldr s) = LDetach"
  using assms by (auto simp: ld_routine_def set_ld_def Let_def split: ld_pc.splits option.splits if_splits)

lemma link_inv_ld:
  assumes "link_inv cfg tr s" "ld_enabled cfg s" "ld_routine files fr cfg s = ok (e, t)"
  shows "link_inv cfg (tr @ [e]) t"
proof -
  note w = link_working_ld [OF assms(1,2)]
  have ne: "ld_pc (ldr s) \<noteq> LEnd" using assms(2) by (simp add: ld_enabled_def)
  note r = ld_routine_timer [OF assms(3) ne]
  have ts: "tms t = tms s \<and> (\<forall>x. e \<noteq> OTimer x) \<or> (\<exists>x. e = OTimer x \<and> timer_step (tms s) x (tms t))"
    using r(3,5,6) timer_step.enter [OF w(3,1)] timer_step.detach [OF w(3,1)] r(4) by (auto split: ld_pc.splits)
  have d: "dpc (tms t) j = (if j = ld_dev cfg \<and> (ld_pc (ldr s) = LSlot \<or> ld_pc (ldr s) = LWaitSlot) then Told
      else if j = ld_dev cfg \<and> ld_pc (ldr s) = LDetach then Detached else dpc (tms s) j)" for j
    using r(3) by (simp split: ld_pc.splits)
  show ?thesis
  proof (rule link_inv_thread [OF assms(1) w(2) _ ts])
    show "dev_list (tms t) = dev_list (tms s)" "timer_stop (tms t) = timer_stop (tms s)" using r(3) by (simp_all split: ld_pc.splits)
    show "dev_link (dpc (tms t) j) (cpu_pc (cpus t j) = CBar) (cpu_pc (cpus t j) = CEnd)" if "j < nat (num_cpus cfg)" for j
      using link_invD(1) [OF assms(1) that] r(1) d [of j] that by (simp add: ld_dev_def)
    show "dev_link (dpc (tms t) (ld_dev cfg)) (ld_pc (ldr t) = LWaitBar \<or> ld_pc (ldr t) = LBar) (ld_pc (ldr t) = LEnd)"
      using link_invD(2) [OF assms(1)] r(7-9) d [of "ld_dev cfg"] w(1) by (auto simp: dev_link_def)
  qed (simp add: r(2) w(2))
qed

lemma link_inv_timer:
  assumes "link_inv cfg tr s" "timer_step (tms s) e u" "quiet e \<or> e = Spurious"
  shows "link_inv cfg (tr @ [OTimer e]) (s\<lparr>tms := u\<rparr>)"
proof -
  obtain t0 where "timer_init t0" "steps timer_step t0 (tproj tr) (tms s)" using link_invD(6) [OF assms(1)] by blast
  then have "\<exists>t0. timer_init t0 \<and> steps timer_step t0 (tproj (tr @ [OTimer e])) u"
    using steps.later [of timer_step, OF _ assms(2)] by auto
  moreover have "dev_link (dpc u d) b c" if "dev_link (dpc (tms s) d) b c" for b c d
    using timer_step_dpc [OF assms(2,3), of d] that by (auto simp: dev_link_def)
  ultimately show ?thesis
    using link_invD [OF assms(1)] timer_step_frame [OF assms(2,3)] unfolding link_inv_def threads_ended_def by simp
qed

lemma link_inv_step:
  assumes "link_inv cfg tr s" "os_step files fr cfg s e t"
  shows "link_inv cfg (tr @ [e]) t"
  using assms(2)
proof cases
  case (cpu i)
  then show ?thesis using link_inv_cpu [OF assms(1)] by blast
next
  case ld
  then show ?thesis using link_inv_ld [OF assms(1)] by blast
next
  case (timer e u)
  then show ?thesis using link_inv_timer [OF assms(1)] by blast
next
  case join
  obtain t0 where t0: "timer_init t0" "steps timer_step t0 (tproj tr) (tms s)" using link_invD(6) [OF assms(1)] by blast
  from steps.later [of timer_step, OF t0(2) timer_step.stop] t0(1) join link_invD [OF assms(1)] show ?thesis
    unfolding link_inv_def threads_ended_def by (auto simp: stop_timer_ask_def)
next
  case finish
  obtain t0 where t0: "timer_init t0" "steps timer_step t0 (tproj tr) (tms s)" using link_invD(6) [OF assms(1)] by blast
  have "timer_stop (tms s)" using link_invD(4) [OF assms(1)] finish by simp
  from steps.later [of timer_step, OF t0(2) timer_step.free_all [OF this finish(4)]] t0(1) finish link_invD [OF assms(1)] show ?thesis
    unfolding link_inv_def threads_ended_def by (auto simp: stop_timer_free_def)
qed

end
