(* ===== verification/Os_Procs.thy ===== *)
theory Os_Procs
  imports Os
begin

text \<open>
  The processes of a running simulation: where they are, that none is lost, run twice or run by two
  CPUs, and that every CPU stops only when there is nothing left to run.
\<close>

section \<open>Where the processes are\<close>

definition held :: "cpu_st \<Rightarrow> pcb_t multiset" where
  "held c = (case cpu_proc c of None \<Rightarrow> {#} | Some p \<Rightarrow> {#p#})"

definition running :: "config \<Rightarrow> os \<Rightarrow> pcb_t multiset" where
  "running cfg s = (\<Sum>i < nat (num_cpus cfg). held (cpus s i))"

definition procs :: "config \<Rightarrow> os \<Rightarrow> pcb_t multiset" where
  "procs cfg s = all_ready (sch s) + running cfg s"

text \<open>The control flow of \<open>cpu_routine\<close> determines where \<open>proc\<close> is NULL.\<close>

definition cpu_shape :: "cpu_st \<Rightarrow> bool" where
  "cpu_shape c \<longleftrightarrow> (cpu_pc c \<in> {CIdle, CFinGet, CPutGet, CDetach, CEnd} \<longrightarrow> cpu_proc c = None) \<and>
     (cpu_pc c = CRun \<longrightarrow> cpu_proc c \<noteq> None)"

lemma running_set:
  assumes "i < nat (num_cpus cfg)" "cpus t = (cpus s)(i := c)"
  shows "running cfg t + held (cpus s i) = running cfg s + held c"
proof -
  have "running cfg s = held (cpus s i) + (\<Sum>j \<in> {..<nat (num_cpus cfg)} - {i}. held (cpus s j))"
    using assms(1) by (simp add: running_def sum.remove)
  moreover have "running cfg t = held c + (\<Sum>j \<in> {..<nat (num_cpus cfg)} - {i}. held (cpus s j))"
    using assms by (simp add: running_def sum.remove [of _ i])
  ultimately show ?thesis by (simp add: add_ac)
qed

lemma held_in_procs: "i < nat (num_cpus cfg) \<Longrightarrow> cpu_proc (cpus s i) = Some p \<Longrightarrow> p \<in># procs cfg s"
  using running_set [of i cfg "s\<lparr>cpus := (cpus s)(i := (cpus s i)\<lparr>cpu_proc := None\<rparr>)\<rparr>" s "(cpus s i)\<lparr>cpu_proc := None\<rparr>"]
  by (auto simp: procs_def held_def) (metis union_iff union_single_eq_member)

lemma cpu_shape_step:
  assumes "cpu_routine cfg i s = ok (e, t)" "cpu_shape (cpus s i)"
  shows "cpu_shape (cpus t i)"
  using assms
  by (auto simp: cpu_shape_def cpu_routine_def cpu_get_def set_cpu_def Let_def split: cpu_pc.splits option.splits if_splits)

lemma run_pc:
  assumes "run p st = ok (stat, p', st')" "0 \<le> pc p" "pc p \<le> code_size (code p)" "code_size (code p) < 4294967296"
  shows "p' = (if pc p < code_size (code p) then p\<lparr>pc := pc p + 1\<rparr> else p)"
  using assms by (auto simp: run_def Let_def u32_id)

text \<open>The three ways a step of a CPU changes the processes: not at all (a process may move between the
  queue and the CPU), one is found finished, or one executes.\<close>

lemma cpu_get_procs:
  assumes "cpu_get i c l l0 s = ok (e, t)" "sched_ok (sch s)" "i < nat (num_cpus cfg)" "cpu_proc (cpus s i) = None" "cpu_proc c = None"
  shows "e = OStep \<and> procs cfg t = procs cfg s \<and> sched_ok (sch t) \<and> ldr t = ldr s \<and> avail_pid t = avail_pid s"
proof -
  obtain r q where g: "get_proc (sch s) = ok (r, q)" and t: "e = OStep"
    "t = set_cpu i (c\<lparr>cpu_proc := r, cpu_pc := (if r = None then l0 else l)\<rparr>) (s\<lparr>sch := q\<rparr>)"
    using assms(1) by (auto simp: cpu_get_def)
  note run = running_set [OF assms(3), of t s "c\<lparr>cpu_proc := r, cpu_pc := (if r = None then l0 else l)\<rparr>"]
  show ?thesis
  proof (cases r)
    case None
    with rq.get_None [OF assms(2)] g run assms(2,4) show ?thesis by (simp add: t set_cpu_def procs_def held_def)
  next
    case (Some p)
    with rq.get_Some [OF assms(2)] g run assms(4) show ?thesis by (simp add: t set_cpu_def procs_def held_def)
  qed
qed

lemma exchange_mset:
  assumes "add_mset x B = add_mset y C" "A + C = add_mset x R"
  shows "A + B = add_mset y R"
proof -
  have "add_mset x (A + B) = A + add_mset y C" using assms(1) by simp
  also have "\<dots> = add_mset x (add_mset y R)" using assms(2) by simp
  finally show ?thesis by simp
qed

lemma cpu_procs:
  assumes "cpu_routine cfg i s = ok (e, t)" "sched_ok (sch s)" "i < nat (num_cpus cfg)" "cpu_shape (cpus s i)" "cpu_pc (cpus s i) \<noteq> CEnd"
  shows "sched_ok (sch t) \<and> ldr t = ldr s \<and> avail_pid t = avail_pid s \<and>
    ((e = OStep \<or> (\<exists>x. e = OTimer x)) \<and> procs cfg t = procs cfg s \<or>
     (\<exists>p. e = OFin p \<and> pc p = code_size (code p) \<and> procs cfg s = add_mset p (procs cfg t)) \<or>
     (\<exists>p p' R stat. run p (pgs s) = ok (stat, p', pgs t) \<and> procs cfg s = add_mset p R \<and> procs cfg t = add_mset p' R \<and>
        e = (if pc p < code_size (code p) then OExec (pid p) else OStep)))"
proof -
  let ?c = "cpus s i"
  note run = running_set [OF assms(3), of t s "cpus t i"]
  have other: ?thesis if "cpu_proc (cpus t i) = cpu_proc ?c" "sch t = sch s" "ldr t = ldr s" "avail_pid t = avail_pid s"
    "cpus t = (cpus s)(i := cpus t i)" "e = OStep \<or> (\<exists>x. e = OTimer x)"
    using run that assms(2) by (simp add: procs_def held_def)
  show ?thesis
  proof (cases "cpu_pc ?c")
    case CTop
    show ?thesis
    proof (cases "cpu_proc ?c")
      case None
      with CTop cpu_get_procs [of i ?c CRecheck CIdle s e t] assms(1-3) show ?thesis by (simp add: cpu_routine_def)
    next
      case (Some p)
      consider (fin) "pc p = code_size (code p)" | (put) "pc p \<noteq> code_size (code p)" "time_left ?c = 0"
        | (cont) "pc p \<noteq> code_size (code p)" "time_left ?c \<noteq> 0" by blast
      then show ?thesis
      proof cases
        case fin
        with CTop Some assms(1) have t: "e = OFin p" "t = set_cpu i (?c\<lparr>cpu_proc := None, cpu_pc := CFinGet\<rparr>) s" by (simp_all add: cpu_routine_def)
        with run fin Some assms(2) show ?thesis by (auto simp: set_cpu_def procs_def held_def)
      next
        case put
        with CTop Some assms(1) obtain q where q: "put_proc prio_of (sch s) p = ok q" "e = OStep"
          "t = set_cpu i (?c\<lparr>cpu_proc := None, cpu_pc := CPutGet\<rparr>) (s\<lparr>sch := q\<rparr>)" by (auto simp: cpu_routine_def)
        with run rq.put_result [OF assms(2) q(1)] Some show ?thesis by (auto simp: set_cpu_def procs_def held_def)
      next
        case cont
        with CTop Some assms(1) show ?thesis by (intro other) (auto simp: cpu_routine_def set_cpu_def)
      qed
    qed
  next
    case CFinGet
    with cpu_get_procs [of i "?c\<lparr>time_left := 0\<rparr>" CIncr CIncr s e t] assms(1-4) show ?thesis by (simp add: cpu_routine_def cpu_shape_def)
  next
    case CPutGet
    with cpu_get_procs [of i ?c CRecheck CRecheck s e t] assms(1-4) show ?thesis by (simp add: cpu_routine_def cpu_shape_def)
  next
    case CRun
    then obtain p where p: "cpu_proc ?c = Some p" using assms(4) by (auto simp: cpu_shape_def)
    with CRun assms(1) obtain stat p' st where r: "run p (pgs s) = ok (stat, p', st)" "e = (if pc p < code_size (code p) then OExec (pid p) else OStep)"
      "t = set_cpu i (?c\<lparr>cpu_proc := Some p', time_left := s32 (time_left ?c - 1), cpu_pc := CSlot\<rparr>) (s\<lparr>pgs := st\<rparr>)"
      by (auto simp: cpu_routine_def Let_def)
    have "p \<in># procs cfg s" by (rule held_in_procs [OF assms(3) p])
    then obtain R where R: "procs cfg s = add_mset p R" by (metis multi_member_split)
    have "running cfg t + {#p#} = running cfg s + {#p'#}" using run p by (simp add: r(3) set_cpu_def held_def)
    then have "add_mset p (running cfg t) = add_mset p' (running cfg s)" by simp
    moreover have "all_ready (sch t) + running cfg s = add_mset p R" using R by (simp add: procs_def r(3) set_cpu_def)
    ultimately have "procs cfg t = add_mset p' R" unfolding procs_def by (rule exchange_mset)
    with R r assms(2) show ?thesis by (auto simp: set_cpu_def)
  qed (use assms(1,4,5) in \<open>(intro other; auto simp: cpu_routine_def set_cpu_def Let_def split: option.splits if_splits)+\<close>)
qed

section \<open>No process is lost\<close>

definition loads :: "os_event list \<Rightarrow> int list" where
  "loads tr = concat (map (\<lambda>e. case e of OLoad p \<Rightarrow> [pid p] | _ \<Rightarrow> []) tr)"

definition fins :: "os_event list \<Rightarrow> int list" where
  "fins tr = concat (map (\<lambda>e. case e of OFin p \<Rightarrow> [pid p] | _ \<Rightarrow> []) tr)"

lemma loads_snoc [simp]: "loads [] = []" "loads (tr @ [e]) = loads tr @ (case e of OLoad p \<Rightarrow> [pid p] | _ \<Rightarrow> [])"
  by (simp_all add: loads_def)

lemma fins_snoc [simp]: "fins [] = []" "fins (tr @ [e]) = fins tr @ (case e of OFin p \<Rightarrow> [pid p] | _ \<Rightarrow> [])"
  by (simp_all add: fins_def)

text \<open>A process on its way: it was loaded, its program counter counts the instructions it has executed.\<close>

definition executed :: "os_event list \<Rightarrow> pcb_t \<Rightarrow> bool" where
  "executed tr p \<longleftrightarrow> 0 \<le> pc p \<and> pc p \<le> code_size (code p) \<and> code_size (code p) < 4294967296 \<and>
     occurs (OExec (pid p)) tr = nat (pc p) \<and> (\<exists>p0. OLoad p0 \<in> set tr \<and> pc p0 = 0 \<and> p = p0\<lparr>pc := pc p\<rparr>)"

definition fresh_ok :: "fresh \<Rightarrow> bool" where
  "fresh_ok fr \<longleftrightarrow> (\<forall>i. 0 \<le> code_size (code (fr_pcb fr i)) \<and> code_size (code (fr_pcb fr i)) < 4294967296)"

definition ld_inv :: "config \<Rightarrow> os \<Rightarrow> bool" where
  "ld_inv cfg s \<longleftrightarrow> (let l = ldr s in
     ld_i l \<le> nat (num_processes cfg) \<and>
     (ld_proc l = None \<longleftrightarrow> ld_pc l \<notin> {LWait, LWaitSlot, LWaitBar, LAdd}) \<and>
     avail_pid s = int (ld_i l) + (if ld_proc l = None then 1 else 2) \<and>
     (\<forall>p. ld_proc l = Some p \<longrightarrow> ld_i l < nat (num_processes cfg) \<and> pid p = int (ld_i l) + 1 \<and> pc p = 0 \<and>
        0 \<le> code_size (code p) \<and> code_size (code p) < 4294967296) \<and>
     (ld_pc l \<in> {LDone, LDetach, LEnd} \<longrightarrow> ld_i l = nat (num_processes cfg)))"

definition proc_inv :: "config \<Rightarrow> os_event list \<Rightarrow> os \<Rightarrow> bool" where
  "proc_inv cfg tr s \<longleftrightarrow> sched_ok (sch s) \<and> ld_inv cfg s \<and> (\<forall>i < nat (num_cpus cfg). cpu_shape (cpus s i)) \<and>
     image_mset pid (procs cfg s) + mset (fins tr) = mset (loads tr) \<and>
     loads tr = map (\<lambda>k. int k + 1) [0..<ld_i (ldr s)] \<and>
     (\<forall>p. p \<in># procs cfg s \<or> OFin p \<in> set tr \<longrightarrow> executed tr p) \<and> (\<forall>p. OFin p \<in> set tr \<longrightarrow> pc p = code_size (code p)) \<and>
     (\<forall>k. k \<notin> set (loads tr) \<longrightarrow> occurs (OExec k) tr = 0)"

lemma load_process:
  assumes "load files proc0 junk avail path = ok (p, avail')" "0 \<le> code_size (code proc0)" "code_size (code proc0) < 4294967296"
  shows "pid p = avail \<and> pc p = 0 \<and> avail' = u32 (avail + 1) \<and> 0 \<le> code_size (code p) \<and> code_size (code p) < 4294967296"
proof -
  obtain inp where f: "files path = Some inp" using assms(1) by (cases "files path") (auto simp: load_def)
  obtain vs rest where v: "scan_many scan_u 2 inp = (vs, rest)" by (cases "scan_many scan_u 2 inp")
  have r: "v \<in> set vs \<Longrightarrow> 0 \<le> v \<and> v < 4294967296" for v using scan_many_range [OF v] by blast
  show ?thesis using assms f v r by (auto simp: load_def Let_def split: list.splits)
qed

lemma executed_other:
  assumes "executed tr p" "e \<noteq> OExec (pid p)"
  shows "executed (tr @ [e]) p"
  using assms by (auto simp: executed_def)

lemma proc_inv_idle:
  assumes "proc_inv cfg tr s" "e = OStep \<or> (\<exists>x. e = OTimer x)"
    and "procs cfg t = procs cfg s" "sched_ok (sch t)" "ld_inv cfg t" "ld_i (ldr t) = ld_i (ldr s)"
    and "\<forall>i < nat (num_cpus cfg). cpu_shape (cpus t i)"
  shows "proc_inv cfg (tr @ [e]) t"
  using assms by (auto simp: proc_inv_def executed_other)

lemma procs_pid_distinct:
  assumes "proc_inv cfg tr s"
  shows "distinct (loads tr)" "p \<in># procs cfg s \<Longrightarrow> pid p \<in> set (loads tr)" "procs cfg s = add_mset p R \<Longrightarrow> q \<in># R \<Longrightarrow> pid q \<noteq> pid p"
    "p \<in># procs cfg s \<Longrightarrow> pid p \<notin> set (fins tr)"
proof -
  have m: "image_mset pid (procs cfg s) + mset (fins tr) = mset (loads tr)" and l: "loads tr = map (\<lambda>k. int k + 1) [0..<ld_i (ldr s)]"
    using assms by (simp_all add: proc_inv_def)
  show d: "distinct (loads tr)" by (simp add: l distinct_map inj_on_def)
  then have c: "count (mset (loads tr)) x \<le> 1" for x by (simp add: distinct_count_atmost_1)
  show "pid p \<in> set (loads tr)" if "p \<in># procs cfg s"
  proof -
    have "pid p \<in># image_mset pid (procs cfg s) + mset (fins tr)" using that by simp
    then show ?thesis unfolding m by simp
  qed
  show "pid q \<noteq> pid p" if R: "procs cfg s = add_mset p R" and q: "q \<in># R"
  proof
    assume "pid q = pid p"
    obtain R' where "R = add_mset q R'" using q by (metis multi_member_split)
    then have "2 \<le> count (image_mset pid (procs cfg s) + mset (fins tr)) (pid p)" using R \<open>pid q = pid p\<close> by simp
    with c [of "pid p"] m show False by simp
  qed
  show "pid p \<notin> set (fins tr)" if "p \<in># procs cfg s"
  proof
    assume "pid p \<in> set (fins tr)"
    then have "0 < count (mset (fins tr)) (pid p)" by (simp only: count_greater_zero_iff set_mset_mset)
    moreover have "0 < count (image_mset pid (procs cfg s)) (pid p)" using that by (simp only: count_greater_zero_iff) simp
    ultimately have "2 \<le> count (image_mset pid (procs cfg s) + mset (fins tr)) (pid p)" unfolding count_union by linarith
    with c [of "pid p"] m show False by simp
  qed
qed

lemma fins_pid: "OFin p \<in> set tr \<Longrightarrow> pid p \<in> set (fins tr)"
  by (force simp: fins_def)

lemma proc_inv_fin:
  assumes "proc_inv cfg tr s" "pc p = code_size (code p)" "procs cfg s = add_mset p (procs cfg t)"
    and "sched_ok (sch t)" "ld_inv cfg t" "ld_i (ldr t) = ld_i (ldr s)" "\<forall>i < nat (num_cpus cfg). cpu_shape (cpus t i)"
  shows "proc_inv cfg (tr @ [OFin p]) t"
  using assms by (auto simp: proc_inv_def executed_other)

lemma proc_inv_exec:
  assumes "proc_inv cfg tr s" "procs cfg s = add_mset p R" "pc p < code_size (code p)" "procs cfg t = add_mset (p\<lparr>pc := pc p + 1\<rparr>) R"
    and "sched_ok (sch t)" "ld_inv cfg t" "ld_i (ldr t) = ld_i (ldr s)" "\<forall>i < nat (num_cpus cfg). cpu_shape (cpus t i)"
  shows "proc_inv cfg (tr @ [OExec (pid p)]) t"
proof -
  note d = procs_pid_distinct [OF assms(1)]
  have p: "p \<in># procs cfg s" using assms(2) by simp
  have ex: "executed tr q" if "q \<in># procs cfg s \<or> OFin q \<in> set tr" for q using that assms(1) by (auto simp: proc_inv_def)
  have "executed (tr @ [OExec (pid p)]) q" if "q \<in># R \<or> OFin q \<in> set tr" for q
  proof (rule executed_other)
    show "executed tr q" using that ex assms(2) by auto
    show "OExec (pid p) \<noteq> OExec (pid q)" using that d(3) [OF assms(2), of q] d(4) [OF p] fins_pid [of q tr] by auto
  qed
  moreover have "executed (tr @ [OExec (pid p)]) (p\<lparr>pc := pc p + 1\<rparr>)"
  proof -
    obtain p0 where p0: "OLoad p0 \<in> set tr" "pc p0 = 0" "p = p0\<lparr>pc := pc p\<rparr>" using ex [of p] p by (auto simp: executed_def)
    have "p\<lparr>pc := pc p + 1\<rparr> = p0\<lparr>pc := pc p + 1\<rparr>" using arg_cong [OF p0(3), of "\<lambda>q. q\<lparr>pc := pc p + 1\<rparr>"] by simp
    with p0 have "\<exists>q. OLoad q \<in> set (tr @ [OExec (pid p)]) \<and> pc q = 0 \<and> p\<lparr>pc := pc p + 1\<rparr> = q\<lparr>pc := pc p + 1\<rparr>" by auto
    with ex [of p] p assms(3) show ?thesis unfolding executed_def by (simp add: nat_add_distrib)
  qed
  moreover have "occurs (OExec k) (tr @ [OExec (pid p)]) = 0" if "k \<notin> set (loads tr)" for k
    using that d(2) [OF p] assms(1) by (auto simp: proc_inv_def)
  ultimately show ?thesis using assms by (auto simp: proc_inv_def)
qed

lemma proc_inv_load:
  assumes "proc_inv cfg tr s" "procs cfg t = add_mset p (procs cfg s)" "pid p = int (ld_i (ldr s)) + 1" "pc p = 0"
    and "0 \<le> code_size (code p)" "code_size (code p) < 4294967296"
    and "sched_ok (sch t)" "ld_inv cfg t" "ld_i (ldr t) = ld_i (ldr s) + 1" "\<forall>i < nat (num_cpus cfg). cpu_shape (cpus t i)"
  shows "proc_inv cfg (tr @ [OLoad p]) t"
proof -
  have l: "loads tr = map (\<lambda>k. int k + 1) [0..<ld_i (ldr s)]" using assms(1) by (simp add: proc_inv_def)
  have "pid p \<notin> set (loads tr)" unfolding l using assms(3) by auto
  then have "occurs (OExec (pid p)) tr = 0" using assms(1) by (simp add: proc_inv_def)
  then have "executed (tr @ [OLoad p]) p" using assms(4-6) unfolding executed_def by (intro conjI exI [of _ p]) auto
  with assms show ?thesis by (auto simp: proc_inv_def executed_other)
qed

lemma ld_inv_cong: "ld_inv cfg s \<Longrightarrow> ldr t = ldr s \<Longrightarrow> avail_pid t = avail_pid s \<Longrightarrow> ld_inv cfg t"
  by (simp add: ld_inv_def)

lemma proc_inv_cpu:
  assumes "proc_inv cfg tr s" "i < nat (num_cpus cfg)" "cpu_enabled i s" "cpu_routine cfg i s = ok (e, t)"
  shows "proc_inv cfg (tr @ [e]) t"
proof -
  have sh: "cpu_shape (cpus s i)" "sched_ok (sch s)" "ld_inv cfg s" using assms(1,2) by (auto simp: proc_inv_def)
  have ne: "cpu_pc (cpus s i) \<noteq> CEnd" using assms(3) by (simp add: cpu_enabled_def)
  note c = cpu_procs [OF assms(4) sh(2) assms(2) sh(1) ne]
  have shape: "\<forall>j < nat (num_cpus cfg). cpu_shape (cpus t j)"
  proof (intro allI impI)
    fix j assume "j < nat (num_cpus cfg)"
    then show "cpu_shape (cpus t j)"
      using cpu_shape_step [OF assms(4) sh(1)] cpu_routine_timer(3) [OF assms(4) ne, of j] assms(1) by (cases "j = i") (auto simp: proc_inv_def)
  qed
  have fr: "sched_ok (sch t)" "ld_inv cfg t" "ld_i (ldr t) = ld_i (ldr s)" using c ld_inv_cong [OF sh(3)] by auto
  from c consider (idle) "e = OStep \<or> (\<exists>x. e = OTimer x)" "procs cfg t = procs cfg s"
    | (fin) p where "e = OFin p" "pc p = code_size (code p)" "procs cfg s = add_mset p (procs cfg t)"
    | (run) p p' R stat where "run p (pgs s) = ok (stat, p', pgs t)" "procs cfg s = add_mset p R" "procs cfg t = add_mset p' R"
        "e = (if pc p < code_size (code p) then OExec (pid p) else OStep)" by blast
  then show ?thesis
  proof cases
    case idle
    show ?thesis by (rule proc_inv_idle [OF assms(1) idle fr shape])
  next
    case fin
    show ?thesis unfolding fin(1) by (rule proc_inv_fin [OF assms(1) fin(2,3) fr shape])
  next
    case run
    have ex: "executed tr p" using assms(1) run(2) by (simp add: proc_inv_def)
    then have p': "p' = (if pc p < code_size (code p) then p\<lparr>pc := pc p + 1\<rparr> else p)" by (intro run_pc [OF run(1)]) (auto simp: executed_def)
    show ?thesis
    proof (cases "pc p < code_size (code p)")
      case True
      with run p' show ?thesis using proc_inv_exec [OF assms(1) run(2) True _ fr shape] by simp
    next
      case False
      with run p' show ?thesis using proc_inv_idle [OF assms(1) _ _ fr shape, of e] by simp
    qed
  qed
qed

lemma ld_inv_step:
  assumes "ld_inv cfg s" "fresh_ok fr" "num_processes cfg < 2147483648" "ld_routine files fr cfg s = ok (e, t)"
  shows "ld_inv cfg t"
proof (cases "ld_pc (ldr s) = LTop \<and> int (ld_i (ldr s)) < num_processes cfg")
  case True
  then obtain p avail where p: "load files (fr_pcb fr (ld_i (ldr s))) (fr_inst fr (ld_i (ldr s))) (avail_pid s) (ld_path cfg ! ld_i (ldr s)) = ok (p, avail)"
    "t = set_ld ((ldr s)\<lparr>ld_proc := Some (p\<lparr>prio := u32 (ld_prio cfg ! ld_i (ldr s))\<rparr>), ld_pc := LWait\<rparr>) (s\<lparr>avail_pid := avail\<rparr>)"
    using assms(4) by (auto simp: ld_routine_def Let_def)
  have a: "avail_pid s = int (ld_i (ldr s)) + 1" using True assms(1) by (simp add: ld_inv_def Let_def split: if_splits)
  with load_process [OF p(1)] assms(2,3) True p(2) assms(1) show ?thesis
    by (auto simp: ld_inv_def set_ld_def fresh_ok_def Let_def u32_id)
next
  case False
  with assms(1,4) show ?thesis
    by (auto simp: ld_inv_def ld_routine_def set_ld_def Let_def split: ld_pc.splits if_splits)
qed

lemma proc_inv_ld:
  assumes "proc_inv cfg tr s" "fresh_ok fr" "num_processes cfg < 2147483648" "ld_enabled cfg s" "ld_routine files fr cfg s = ok (e, t)"
  shows "proc_inv cfg (tr @ [e]) t"
proof -
  have i: "ld_inv cfg s" "sched_ok (sch s)" using assms(1) by (simp_all add: proc_inv_def)
  note li = ld_inv_step [OF i(1) assms(2,3,5)]
  have ne: "ld_pc (ldr s) \<noteq> LEnd" using assms(4) by (simp add: ld_enabled_def)
  have shape: "\<forall>j < nat (num_cpus cfg). cpu_shape (cpus t j)" using assms(1) ld_routine_timer(1) [OF assms(5) ne] by (simp add: proc_inv_def)
  show ?thesis
  proof (cases "ld_pc (ldr s) = LAdd")
    case True
    then obtain p where p: "ld_proc (ldr s) = Some p" using i(1) by (auto simp: ld_inv_def Let_def)
    then obtain q where q: "put_proc prio_of (sch s) p = ok q" "e = OLoad p" "sch t = q" "cpus t = cpus s" "ld_i (ldr t) = ld_i (ldr s) + 1"
      using True assms(5) by (auto simp: ld_routine_def set_ld_def Let_def add_proc_eq_put)
    have "procs cfg t = add_mset p (procs cfg s)" using rq.put_result [OF i(2) q(1)] q by (simp add: procs_def running_def)
    moreover have "pid p = int (ld_i (ldr s)) + 1" "pc p = 0" "0 \<le> code_size (code p)" "code_size (code p) < 4294967296"
      using p i(1) by (auto simp: ld_inv_def Let_def)
    ultimately show ?thesis unfolding q(2) using rq.put_result [OF i(2) q(1)] q(3,5) li shape by (intro proc_inv_load [OF assms(1)]) auto
  next
    case False
    then have "sch t = sch s" "cpus t = cpus s" "ld_i (ldr t) = ld_i (ldr s)" "e = OStep \<or> (\<exists>x. e = OTimer x)"
      using assms(5) by (auto simp: ld_routine_def set_ld_def Let_def split: ld_pc.splits if_splits)
    then show ?thesis using i(2) li shape by (intro proc_inv_idle [OF assms(1)]) (simp_all add: procs_def running_def)
  qed
qed

lemma proc_inv_outside:
  assumes "proc_inv cfg tr s" "sch t = sch s" "cpus t = cpus s" "ldr t = ldr s" "avail_pid t = avail_pid s"
  shows "proc_inv cfg (tr @ [OTimer x]) t"
proof (rule proc_inv_idle [OF assms(1)])
  show "procs cfg t = procs cfg s" using assms(2,3) by (simp add: procs_def running_def)
  show "ld_inv cfg t" using assms ld_inv_cong [of cfg s t] by (simp add: proc_inv_def)
qed (use assms in \<open>simp_all add: proc_inv_def\<close>)

lemma proc_inv_step:
  assumes "proc_inv cfg tr s" "fresh_ok fr" "num_processes cfg < 2147483648" "os_step files fr cfg s e t"
  shows "proc_inv cfg (tr @ [e]) t"
  using assms(4)
proof cases
  case (cpu i)
  then show ?thesis using proc_inv_cpu [OF assms(1)] by blast
next
  case ld
  then show ?thesis using proc_inv_ld [OF assms(1-3)] by blast
qed (use proc_inv_outside [OF assms(1), of t] in simp_all)

end
