(* ===== verification/Os_Stop.thy ===== *)
theory Os_Stop
  imports Os_Procs
begin

text \<open>
  The end of a simulation: the counter of finished processes, and that the CPUs leave no process
  behind when they stop, which rests on the barrier of the timer.
\<close>

section \<open>The counter\<close>

definition pend :: "cpu_st \<Rightarrow> bool" where
  "pend c \<longleftrightarrow> (case cpu_pc c of CFinGet \<Rightarrow> True | CIncr \<Rightarrow> True | CStore _ \<Rightarrow> True | _ \<Rightarrow> False)"

definition pends :: "config \<Rightarrow> os \<Rightarrow> nat" where
  "pends cfg s = (\<Sum>i < nat (num_cpus cfg). if pend (cpus s i) then 1 else 0)"

text \<open>The counter never exceeds the number of finished processes, even when increments are lost.\<close>

definition cnt_inv :: "config \<Rightarrow> os_event list \<Rightarrow> os \<Rightarrow> bool" where
  "cnt_inv cfg tr s \<longleftrightarrow> 0 \<le> cnt_proc_done s \<and> cnt_proc_done s + int (pends cfg s) \<le> int (length (fins tr)) \<and>
     (\<forall>i < nat (num_cpus cfg). \<forall>v. cpu_pc (cpus s i) = CStore v \<longrightarrow> 0 \<le> v \<and> v + int (pends cfg s) \<le> int (length (fins tr)))"

lemma pends_set:
  assumes "i < nat (num_cpus cfg)" "\<And>j. j \<noteq> i \<Longrightarrow> cpus t j = cpus s j"
  shows "pends cfg t + (if pend (cpus s i) then 1 else 0) = pends cfg s + (if pend (cpus t i) then 1 else 0)"
proof -
  have "(\<Sum>j \<in> {..<nat (num_cpus cfg)} - {i}. if pend (cpus t j) then 1 else 0 :: nat) =
      (\<Sum>j \<in> {..<nat (num_cpus cfg)} - {i}. if pend (cpus s j) then 1 else 0)"
    by (rule sum.cong) (use assms(2) in auto)
  then show ?thesis using assms(1) by (simp add: pends_def sum.remove [of _ i])
qed

lemma fins_bound:
  assumes "proc_inv cfg tr s"
  shows "length (fins tr) + size (procs cfg s) = ld_i (ldr s)" "ld_i (ldr s) \<le> nat (num_processes cfg)"
proof -
  have "size (image_mset pid (procs cfg s) + mset (fins tr)) = size (mset (loads tr))" using assms by (simp add: proc_inv_def)
  moreover have "length (loads tr) = ld_i (ldr s)" using assms by (simp add: proc_inv_def)
  ultimately show "length (fins tr) + size (procs cfg s) = ld_i (ldr s)" by simp
  show "ld_i (ldr s) \<le> nat (num_processes cfg)" using assms by (simp add: proc_inv_def ld_inv_def Let_def)
qed

lemma cpu_pend:
  assumes "cpu_routine cfg i s = ok (e, t)" "cpu_pc (cpus s i) \<noteq> CEnd"
  shows "(\<exists>p. e = OFin p) \<and> \<not> pend (cpus s i) \<and> cpu_pc (cpus t i) = CFinGet \<and> cnt_proc_done t = cnt_proc_done s \<or>
    (\<exists>v. cpu_pc (cpus s i) = CStore v \<and> \<not> pend (cpus t i) \<and> cnt_proc_done t = s32 (v + 1) \<and> (\<forall>p. e \<noteq> OFin p)) \<or>
    (pend (cpus s i) = pend (cpus t i) \<and> cnt_proc_done t = cnt_proc_done s \<and> (\<forall>p. e \<noteq> OFin p) \<and>
      (\<forall>v. cpu_pc (cpus t i) = CStore v \<longrightarrow> v = cnt_proc_done s))"
  using assms
  by (auto simp: pend_def cpu_routine_def cpu_get_def set_cpu_def Let_def split: cpu_pc.splits option.splits if_splits)

lemma cnt_inv_cpu:
  assumes "cnt_inv cfg tr s" "proc_inv cfg tr s" "num_processes cfg < 2147483648"
    and "i < nat (num_cpus cfg)" "cpu_enabled i s" "cpu_routine cfg i s = ok (e, t)"
  shows "cnt_inv cfg (tr @ [e]) t"
proof -
  have ne: "cpu_pc (cpus s i) \<noteq> CEnd" using assms(5) by (simp add: cpu_enabled_def)
  note oth = cpu_routine_timer(3) [OF assms(6) ne]
  note P = pends_set [OF assms(4) oth]
  have F: "int (length (fins tr)) < 2147483648" using fins_bound [OF assms(2)] assms(3) by linarith
  have st: "0 \<le> v \<and> v + int (pends cfg s) \<le> int (length (fins tr))" if "j < nat (num_cpus cfg)" "cpu_pc (cpus s j) = CStore v" for j v
    using assms(1) that by (simp add: cnt_inv_def)
  have st': "0 \<le> v \<and> v + int (pends cfg s) \<le> int (length (fins tr))"
    if "j < nat (num_cpus cfg)" "cpu_pc (cpus t j) = CStore v" "j \<noteq> i" for j v using st [of j v] that oth by simp
  from cpu_pend [OF assms(6) ne] consider
    (fin) p where "e = OFin p" "\<not> pend (cpus s i)" "cpu_pc (cpus t i) = CFinGet" "cnt_proc_done t = cnt_proc_done s"
  | (store) v where "cpu_pc (cpus s i) = CStore v" "\<not> pend (cpus t i)" "cnt_proc_done t = s32 (v + 1)" "\<forall>p. e \<noteq> OFin p"
  | (other) "pend (cpus s i) = pend (cpus t i)" "cnt_proc_done t = cnt_proc_done s" "\<forall>p. e \<noteq> OFin p"
      "\<forall>v. cpu_pc (cpus t i) = CStore v \<longrightarrow> v = cnt_proc_done s" by blast
  then show ?thesis
  proof cases
    case fin
    have "pends cfg t = pends cfg s + 1" using P fin(2,3) by (simp add: pend_def)
    moreover have "0 \<le> v \<and> v + int (pends cfg s) \<le> int (length (fins tr))" if "j < nat (num_cpus cfg)" "cpu_pc (cpus t j) = CStore v" for j v
      using st' [OF that] that fin(3) by (cases "j = i") auto
    ultimately show ?thesis using assms(1) fin(1,4) by (auto simp: cnt_inv_def)
  next
    case store
    have "pends cfg s = pends cfg t + 1" using P store(1,2) by (simp add: pend_def)
    moreover have "s32 (v + 1) = v + 1" using st [OF assms(4) store(1)] F calculation by (intro s32_id) linarith+
    moreover have "cpu_pc (cpus t i) \<noteq> CStore w" for w using store(2) by (auto simp: pend_def)
    moreover have "fins (tr @ [e]) = fins tr" using store(4) by (cases e) simp_all
    ultimately show ?thesis using st [OF assms(4) store(1)] st' store(3) unfolding cnt_inv_def by fastforce
  next
    case other
    have "pends cfg t = pends cfg s" using P other(1) by (simp split: if_splits)
    moreover have "fins (tr @ [e]) = fins tr" using other(3) by (cases e) simp_all
    moreover have "0 \<le> v \<and> v + int (pends cfg s) \<le> int (length (fins tr))" if "j < nat (num_cpus cfg)" "cpu_pc (cpus t j) = CStore v" for j v
      using st' [OF that] that other(4) assms(1) by (cases "j = i") (auto simp: cnt_inv_def)
    ultimately show ?thesis using assms(1) other(2) by (simp add: cnt_inv_def)
  qed
qed

lemma cnt_inv_step:
  assumes "cnt_inv cfg tr s" "proc_inv cfg tr s" "num_processes cfg < 2147483648" "os_step files fr cfg s e t"
  shows "cnt_inv cfg (tr @ [e]) t"
  using assms(4)
proof cases
  case (cpu i)
  then show ?thesis using cnt_inv_cpu [OF assms(1-3)] by blast
next
  case ld
  then have "ld_pc (ldr s) \<noteq> LEnd" by (simp add: ld_enabled_def)
  note r = ld_routine_timer [OF ld(2) this]
  have "cnt_proc_done t = cnt_proc_done s" "\<forall>p. e \<noteq> OFin p"
    using ld(2) by (auto simp: ld_routine_def set_ld_def Let_def split: ld_pc.splits if_splits)
  moreover have "fins (tr @ [e]) = fins tr" using calculation(2) by (cases e) simp_all
  ultimately show ?thesis using assms(1) r(1) by (simp add: cnt_inv_def pends_def)
qed (use assms(1) in \<open>simp_all add: cnt_inv_def pends_def\<close>)

text \<open>When the counter has reached the number of processes, nothing is left and no increment is pending.\<close>

lemma all_finished:
  assumes "proc_inv cfg tr s" "cnt_inv cfg tr s" "cnt_proc_done s = num_processes cfg"
  shows "procs cfg s = {#}" "pends cfg s = 0" "int (length (fins tr)) = num_processes cfg"
proof -
  have "int (length (fins tr)) + int (size (procs cfg s)) \<le> int (nat (num_processes cfg))" using fins_bound [OF assms(1)] by linarith
  moreover have "num_processes cfg + int (pends cfg s) \<le> int (length (fins tr))" "0 \<le> num_processes cfg"
    using assms(2,3) by (simp_all add: cnt_inv_def)
  ultimately have "size (procs cfg s) = 0" "pends cfg s = 0" "int (length (fins tr)) = num_processes cfg" by linarith+
  then show "procs cfg s = {#}" "pends cfg s = 0" "int (length (fins tr)) = num_processes cfg" by simp_all
qed

section \<open>The last CPU\<close>

text \<open>A CPU that will look at the ready queue again: it has not decided to stop, nor seen an empty queue.\<close>

definition active :: "cpu_st \<Rightarrow> bool" where
  "active c \<longleftrightarrow> (case cpu_pc c of CDetach \<Rightarrow> False | CEnd \<Rightarrow> False | CIdle \<Rightarrow> False
     | CIncr \<Rightarrow> cpu_proc c \<noteq> None | CStore _ \<Rightarrow> cpu_proc c \<noteq> None | CRecheck \<Rightarrow> cpu_proc c \<noteq> None | _ \<Rightarrow> True)"

text \<open>The loader has added its last process and the time slot in which it did so is over.\<close>

definition sealed :: "config \<Rightarrow> os \<Rightarrow> bool" where
  "sealed cfg s \<longleftrightarrow> ld_i (ldr s) = nat (num_processes cfg) \<and>
     (ld_pc (ldr s) \<in> {LTop, LDone, LDetach, LEnd} \<or>
      ld_pc (ldr s) = LBar \<and> (\<not> id_done (dev (tms s) (ld_dev cfg)) \<or> ld_dev cfg \<in> releasing (tms s)))"

definition stop_inv :: "config \<Rightarrow> os \<Rightarrow> bool" where
  "stop_inv cfg s \<longleftrightarrow> (os_done s \<longrightarrow> ld_pc (ldr s) \<in> {LDetach, LEnd}) \<and>
     (\<forall>i < nat (num_cpus cfg). cpu_pc (cpus s i) \<in> {CDetach, CEnd} \<longrightarrow> os_done s \<or> cnt_proc_done s = num_processes cfg) \<and>
     (sealed cfg s \<and> all_ready (sch s) \<noteq> {#} \<longrightarrow> (\<exists>i < nat (num_cpus cfg). active (cpus s i)))"

lemma cpu_get_active:
  assumes "cpu_get i c l l0 s = ok (e, t)" "sched_ok (sch s)" "\<And>p. active (c\<lparr>cpu_proc := Some p, cpu_pc := l\<rparr>)"
  shows "active (cpus t i) \<or> all_ready (sch t) = {#}"
proof -
  obtain r q where g: "get_proc (sch s) = ok (r, q)"
    "t = set_cpu i (c\<lparr>cpu_proc := r, cpu_pc := (if r = None then l0 else l)\<rparr>) (s\<lparr>sch := q\<rparr>)"
    using assms(1) by (auto simp: cpu_get_def)
  with rq.get_None [OF assms(2)] assms(3) show ?thesis by (cases r) (auto simp: set_cpu_def)
qed

lemma cpu_active:
  assumes "cpu_routine cfg i s = ok (e, t)" "sched_ok (sch s)" "cpu_shape (cpus s i)" "cpu_pc (cpus s i) \<noteq> CEnd"
  shows "active (cpus t i) \<or> all_ready (sch t) = {#} \<or> cnt_proc_done s = num_processes cfg \<or>
    (\<not> active (cpus s i) \<and> sch t = sch s)"
proof -
  let ?c = "cpus s i"
  have get: "active (cpus t i) \<or> all_ready (sch t) = {#}" if "cpu_get i c l l0 s = ok (e, t)" "l = CRecheck \<or> l = CIncr" for c l l0
    using cpu_get_active [OF that(1) assms(2)] that(2) by (auto simp: active_def)
  show ?thesis
  proof (cases "cpu_pc ?c")
    case CTop
    show ?thesis
    proof (cases "cpu_proc ?c")
      case None
      with CTop assms(1) get [of "cpus s i" CRecheck CIdle] show ?thesis by (auto simp: cpu_routine_def)
    next
      case (Some p)
      with CTop assms(1) show ?thesis by (auto simp: cpu_routine_def set_cpu_def active_def Let_def split: if_splits)
    qed
  next
    case CFinGet
    with assms(1) get [of "?c\<lparr>time_left := 0\<rparr>" CIncr CIncr] show ?thesis by (auto simp: cpu_routine_def)
  next
    case CPutGet
    with assms(1) get [of ?c CRecheck CRecheck] show ?thesis by (auto simp: cpu_routine_def)
  qed (use assms in \<open>(auto simp: cpu_routine_def set_cpu_def active_def Let_def split: option.splits if_splits)+\<close>)
qed

lemma cpu_stop_flags:
  assumes "cpu_routine cfg i s = ok (e, t)" "cpu_pc (cpus s i) \<noteq> CEnd"
  shows "os_done t = os_done s" "cpu_pc (cpus t i) \<in> {CDetach, CEnd} \<Longrightarrow>
    cpu_pc (cpus s i) \<in> {CDetach, CEnd} \<or> os_done s \<or> cnt_proc_done s = num_processes cfg"
    "cpu_pc (cpus t i) \<in> {CDetach, CEnd} \<Longrightarrow> cnt_proc_done t = cnt_proc_done s"
  using assms
  by (auto simp: cpu_routine_def cpu_get_def set_cpu_def Let_def split: cpu_pc.splits option.splits if_splits)

lemma cnt_final:
  assumes "proc_inv cfg tr s" "cnt_inv cfg tr s" "cnt_proc_done s = num_processes cfg"
    and "i < nat (num_cpus cfg)" "cpu_routine cfg i s = ok (e, t)" "cpu_pc (cpus s i) \<noteq> CEnd"
  shows "cnt_proc_done t = cnt_proc_done s"
proof -
  have "\<not> pend (cpus s i)" using all_finished(2) [OF assms(1-3)] assms(4) by (force simp: pends_def split: if_splits)
  then show ?thesis using cpu_pend [OF assms(5,6)] by (auto simp: pend_def)
qed

lemma sealed_cpu:
  assumes "cpu_routine cfg i s = ok (e, t)" "cpu_pc (cpus s i) \<noteq> CEnd" "i < nat (num_cpus cfg)" "sealed cfg t"
  shows "sealed cfg s"
proof -
  have "dev (tms t) (ld_dev cfg) = dev (tms s) (ld_dev cfg)" "releasing (tms t) = releasing (tms s)"
    using cpu_routine_timer(4) [OF assms(1,2)] assms(3) by (auto simp: next_slot_tell_def detach_event_def ld_dev_def split: cpu_pc.splits)
  with assms(4) cpu_routine_timer(1) [OF assms(1,2)] show ?thesis by (simp add: sealed_def)
qed

lemma stop_inv_cpu:
  assumes "stop_inv cfg s" "proc_inv cfg tr s" "cnt_inv cfg tr s"
    and "i < nat (num_cpus cfg)" "cpu_enabled i s" "cpu_routine cfg i s = ok (e, t)"
  shows "stop_inv cfg t"
proof -
  have ne: "cpu_pc (cpus s i) \<noteq> CEnd" using assms(5) by (simp add: cpu_enabled_def)
  have sh: "cpu_shape (cpus s i)" "sched_ok (sch s)" using assms(2,4) by (auto simp: proc_inv_def)
  note r = cpu_routine_timer [OF assms(6) ne]
  note f = cpu_stop_flags [OF assms(6) ne]
  have fin: "cnt_proc_done s = num_processes cfg \<Longrightarrow> cnt_proc_done t = cnt_proc_done s" using cnt_final [OF assms(2,3) _ assms(4,6) ne] by blast
  have b: "os_done t \<or> cnt_proc_done t = num_processes cfg" if "j < nat (num_cpus cfg)" "cpu_pc (cpus t j) \<in> {CDetach, CEnd}" for j
  proof (cases "j = i")
    case True
    with that f assms(1,4) show ?thesis unfolding stop_inv_def by metis
  next
    case False
    with that r(3) f(1) fin assms(1) show ?thesis unfolding stop_inv_def by metis
  qed
  have d: "\<exists>j < nat (num_cpus cfg). active (cpus t j)" if se: "sealed cfg t" and rd: "all_ready (sch t) \<noteq> {#}"
  proof -
    from cpu_active [OF assms(6) sh(2,1) ne] consider "active (cpus t i)" | "all_ready (sch t) = {#}"
      | "cnt_proc_done s = num_processes cfg" | "\<not> active (cpus s i)" "sch t = sch s" by blast
    then show ?thesis
    proof cases
      case 3
      then have "procs cfg s = {#}" using all_finished(1) [OF assms(2,3)] by blast
      moreover have "size (all_ready (sch t)) \<le> size (procs cfg t)" by (simp add: procs_def)
      moreover have "size (procs cfg t) \<le> size (procs cfg s)"
        using cpu_procs [OF assms(6) sh(2) assms(4) sh(1) ne] by auto
      ultimately show ?thesis using rd by simp
    next
      case 4
      with rd sealed_cpu [OF assms(6) ne assms(4) se] assms(1) obtain j where "j < nat (num_cpus cfg)" "active (cpus s j)"
        by (auto simp: stop_inv_def)
      with 4 r(3) [of j] show ?thesis by (intro exI [of _ j]) (cases "j = i"; simp)
    qed (use rd assms(4) in auto)
  qed
  have a: "os_done t \<Longrightarrow> ld_pc (ldr t) \<in> {LDetach, LEnd}" using assms(1) f(1) r(1) by (simp add: stop_inv_def)
  from a b d show ?thesis unfolding stop_inv_def by blast
qed

lemma timer_step_seal:
  assumes "timer_step t e u" "quiet e \<or> e = Spurious" "id_done (dev t d)" "d \<notin> releasing t"
  shows "id_done (dev u d) \<and> (d \<in> releasing u \<longrightarrow> tpc t = TCollect [])"
  using assms(1)
proof cases
  case timer
  with assms(3,4) show ?thesis
    by (auto simp: timer_routine_def releasing_def split: timer_pc.splits list.splits if_splits)
qed (use assms in \<open>auto simp: next_slot_wait_def quiet_def releasing_def split: if_splits timer_pc.splits\<close>)

text \<open>At the end of a slot all CPUs wait for the next one, or have ended.\<close>

lemma tick_active:
  assumes "link_inv cfg tr s" "tpc (tms s) = TCollect []" "mainpc s = MJoin" "i < nat (num_cpus cfg)"
  shows "active (cpus s i) \<or> cpu_pc (cpus s i) = CEnd"
proof -
  have inv: "timer_inv (tproj tr) (tms s)" by (rule link_timer_inv [OF assms(1)])
  have d: "i \<in> set (dev_list (tms s))" using link_invD(5) [OF assms(1)] assms(3,4) by simp
  have "passed (tms s) i" using inv assms(2) collected_all(1) [of "tms s"] d by (simp add: timer_inv_def pc_inv_def)
  then have "dpc (tms s) i \<noteq> Working" using inv d by (auto simp: timer_inv_def dev_inv_def passed_def)
  then show ?thesis using link_invD(1) [OF assms(1,4)] by (cases "dpc (tms s) i") (auto simp: dev_link_def active_def)
qed

lemma stop_inv_timer:
  assumes "stop_inv cfg s" "link_inv cfg tr s" "proc_inv cfg tr s" "cnt_inv cfg tr s" "timer_step (tms s) e u" "quiet e \<or> e = Spurious"
    and "0 < num_cpus cfg"
  shows "stop_inv cfg (s\<lparr>tms := u\<rparr>)"
proof -
  have "\<exists>i < nat (num_cpus cfg). active (cpus s i)" if se: "sealed cfg (s\<lparr>tms := u\<rparr>)" and ns: "\<not> sealed cfg s" and rd: "all_ready (sch s) \<noteq> {#}"
  proof -
    have l: "ld_pc (ldr s) = LBar" "id_done (dev (tms s) (ld_dev cfg))" "ld_dev cfg \<notin> releasing (tms s)" using se ns by (auto simp: sealed_def)
    from timer_step_seal [OF assms(5,6) l(2,3)] se l(1) have tick: "tpc (tms s) = TCollect []" by (auto simp: sealed_def)
    have m: "mainpc s = MJoin" using link_invD(3) [OF assms(2)] l(1) by (auto simp: threads_ended_def)
    have nd: "\<not> os_done s" using assms(1) l(1) by (auto simp: stop_inv_def)
    have "procs cfg s \<noteq> {#}" using rd by (simp add: procs_def)
    then have "cnt_proc_done s \<noteq> num_processes cfg" using all_finished(1) [OF assms(3,4)] by blast
    with assms(1,7) nd have "cpu_pc (cpus s 0) \<noteq> CEnd" by (auto simp: stop_inv_def)
    with tick_active [OF assms(2) tick m, of 0] assms(7) show ?thesis by (intro exI [of _ 0]) auto
  qed
  then show ?thesis using assms(1) unfolding stop_inv_def by (auto simp: sealed_def)
qed

lemma stop_inv_ld:
  assumes "stop_inv cfg s" "link_inv cfg tr s" "proc_inv cfg tr s" "ld_enabled cfg s" "ld_routine files fr cfg s = ok (e, t)"
  shows "stop_inv cfg t"
proof -
  have ne: "ld_pc (ldr s) \<noteq> LEnd" using assms(4) by (simp add: ld_enabled_def)
  note r = ld_routine_timer [OF assms(5) ne]
  note w = link_working_ld [OF assms(2,4)]
  have li: "ld_inv cfg s" using assms(3) by (simp add: proc_inv_def)
  have dv: "\<not> id_done (dev (tms s) (ld_dev cfg))" and rel: "ld_dev cfg \<notin> releasing (tms s)"
  proof -
    have inv: "timer_inv (tproj tr) (tms s)" by (rule link_timer_inv [OF assms(2)])
    then have "dev_inv (tproj tr) (tms s) (ld_dev cfg)" "pc_inv (tms s)" using w(3) by (auto simp: timer_inv_def)
    then show "\<not> id_done (dev (tms s) (ld_dev cfg))" "ld_dev cfg \<notin> releasing (tms s)"
      using w(1) releasing_passed [of "tms s" "ld_dev cfg"] by (auto simp: dev_inv_def passed_def)
  qed
  have fl: "cnt_proc_done t = cnt_proc_done s" "os_done t \<Longrightarrow> ld_pc (ldr t) \<in> {LDetach, LEnd}" "os_done s \<Longrightarrow> os_done t"
    using assms(1,5) by (auto simp: stop_inv_def ld_routine_def set_ld_def Let_def split: ld_pc.splits if_splits)
  have "sealed cfg s \<and> sch t = sch s" if "sealed cfg t"
  proof (cases "ld_pc (ldr s)")
    case LSlot
    with that assms(5) rel show ?thesis by (auto simp: sealed_def ld_routine_def set_ld_def next_slot_tell_def Let_def)
  next
    case LBar
    with that assms(5) dv show ?thesis by (auto simp: sealed_def ld_routine_def set_ld_def Let_def)
  qed (use that assms(5) ne in \<open>(auto simp: sealed_def ld_routine_def set_ld_def Let_def split: if_splits)+\<close>)
  with fl r(1) assms(1) show ?thesis unfolding stop_inv_def by metis
qed

lemma stop_inv_step:
  assumes "stop_inv cfg s" "link_inv cfg tr s" "proc_inv cfg tr s" "cnt_inv cfg tr s" "0 < num_cpus cfg" "os_step files fr cfg s e t"
  shows "stop_inv cfg t"
  using assms(6)
proof cases
  case (cpu i)
  then show ?thesis using stop_inv_cpu [OF assms(1,3,4)] by blast
next
  case ld
  then show ?thesis using stop_inv_ld [OF assms(1-3)] by blast
next
  case (timer x u)
  then show ?thesis using stop_inv_timer [OF assms(1-4) _ _ assms(5)] by blast
qed (use assms(1) in \<open>auto simp: stop_inv_def sealed_def stop_timer_ask_def stop_timer_free_def\<close>)

section \<open>All runs\<close>

definition config_ok :: "config \<Rightarrow> bool" where
  "config_ok cfg \<longleftrightarrow> 0 < num_cpus cfg \<and> num_processes cfg < 2147483648"

definition os_init :: "fresh \<Rightarrow> config \<Rightarrow> os \<Rightarrow> bool" where
  "os_init fr cfg s \<longleftrightarrow> boot fr cfg = ok s \<and> fresh_ok fr \<and> config_ok cfg"

text \<open>Together; for a configuration or fresh memory outside the assumptions nothing is claimed.\<close>

definition os_inv :: "fresh \<Rightarrow> config \<Rightarrow> os_event list \<Rightarrow> os \<Rightarrow> bool" where
  "os_inv fr cfg tr s \<longleftrightarrow> fresh_ok fr \<and> config_ok cfg \<and> link_inv cfg tr s \<and> proc_inv cfg tr s \<and> cnt_inv cfg tr s \<and> stop_inv cfg s"

lemma os_inv_init:
  assumes "os_init fr cfg s"
  shows "os_inv fr cfg [] s"
proof -
  let ?n = "nat (num_cpus cfg)"
  have s: "tms s = start_timer (attach_all (?n + 1) timer0)" "sch s = init_scheduler (fr_sched fr)"
    "cpus s = (\<lambda>_. \<lparr>cpu_proc = None, time_left = 0, cpu_pc = CTop\<rparr>)" "ldr s = \<lparr>ld_i = 0, ld_proc = None, ld_pc = LTop\<rparr>"
    "\<not> os_done s" "cnt_proc_done s = 0" "avail_pid s = 1" "mainpc s = MJoin"
    using assms by (auto simp: os_init_def boot_def Let_def)
  note at = attach_timer0 [of "?n + 1"]
  have t: "timer_init (tms s)" unfolding s(1) by (rule timer_init_start [OF at(1)])
  have dl: "dev_list (tms s) = rev [0..<?n + 1]" "\<not> timer_stop (tms s)" "\<forall>d < ?n + 1. dpc (tms s) d = Working"
    using at unfolding s(1) by (simp_all add: attach_ok_def start_timer_def)
  have "link_inv cfg [] s"
    using t dl s(3,4,8) by (auto simp: link_inv_def dev_link_def ld_dev_def intro: exI [of _ "tms s"])
  moreover have "proc_inv cfg [] s"
    using s init_scheduler_ok [of "fr_sched fr"] by (simp add: proc_inv_def ld_inv_def cpu_shape_def procs_def running_def held_def)
  moreover have "cnt_inv cfg [] s" using s by (simp add: cnt_inv_def pends_def pend_def)
  moreover have "stop_inv cfg s" using s init_scheduler_ok [of "fr_sched fr"] by (simp add: stop_inv_def)
  ultimately show ?thesis using assms by (simp add: os_inv_def os_init_def)
qed

lemma os_inv_step:
  assumes "os_inv fr cfg tr s" "os_step files fr cfg s e t"
  shows "os_inv fr cfg (tr @ [e]) t"
  using assms link_inv_step [OF _ assms(2)] proc_inv_step [OF _ _ _ assms(2)] cnt_inv_step [OF _ _ _ assms(2)] stop_inv_step [OF _ _ _ _ _ assms(2)]
  unfolding os_inv_def config_ok_def by blast

interpretation sim: traced_system "os_step files fr cfg" "os_init fr cfg" "os_inv fr cfg" for files fr cfg
  by unfold_locales (rule os_inv_init, assumption, rule os_inv_step)

section \<open>A counter that stays behind\<close>

text \<open>All processes are finished and the CPUs wait for the counter, which is not at its final value.\<close>

definition spinning :: "config \<Rightarrow> os \<Rightarrow> bool" where
  "spinning cfg s \<longleftrightarrow> sched_ok (sch s) \<and> all_ready (sch s) = {#} \<and> ld_pc (ldr s) = LEnd \<and> cnt_proc_done s \<noteq> num_processes cfg \<and>
     (\<forall>i < nat (num_cpus cfg). cpu_proc (cpus s i) = None \<and> cpu_pc (cpus s i) \<in> {CTop, CIdle, CSlot, CBar})"

lemma spinning_cpu:
  assumes "spinning cfg s" "i < nat (num_cpus cfg)" "cpu_routine cfg i s = ok (e, t)"
  shows "spinning cfg t"
proof -
  have c: "cpu_proc (cpus s i) = None" "cpu_pc (cpus s i) \<in> {CTop, CIdle, CSlot, CBar}" "sched_ok (sch s)" "all_ready (sch s) = {#}"
    using assms(1,2) by (auto simp: spinning_def)
  have g: "get_proc (sch s) = ok (None, sch s)" using get_proc_pool [OF c(3)] c(4) by auto
  have "sch t = sch s \<and> ldr t = ldr s \<and> cnt_proc_done t = cnt_proc_done s \<and> (\<forall>j. j \<noteq> i \<longrightarrow> cpus t j = cpus s j) \<and>
      cpu_proc (cpus t i) = None \<and> cpu_pc (cpus t i) \<in> {CTop, CIdle, CSlot, CBar}"
    using assms(1,3) c g by (auto simp: spinning_def cpu_routine_def cpu_get_def set_cpu_def Let_def split: if_splits)
  then show ?thesis using assms(1) unfolding spinning_def by metis
qed

lemma spinning_step:
  assumes "spinning cfg s" "0 < num_cpus cfg" "os_step files fr cfg s e t"
  shows "spinning cfg t"
  using assms(3)
proof cases
  case (cpu i)
  then show ?thesis using spinning_cpu [OF assms(1)] by blast
next
  case ld
  then show ?thesis using assms(1) by (simp add: spinning_def ld_enabled_def)
next
  case join
  then show ?thesis using assms(1,2) by (auto simp: spinning_def)
qed (use assms(1) in \<open>simp_all add: spinning_def\<close>)

lemma spinning_run: "steps (os_step files fr cfg) s tr t \<Longrightarrow> spinning cfg s \<Longrightarrow> 0 < num_cpus cfg \<Longrightarrow> spinning cfg t"
  by (induction rule: steps.induct) (blast intro: spinning_step)+

section \<open>Properties\<close>

text \<open>
  C3. No process is lost, duplicated or shared: in every run, the processes that are ready, those that the
  CPUs hold and those that have finished are, by process id, exactly the processes the loader has
  added, in the order 1, 2, ...; no id occurs twice, so no two CPUs hold the same process and no
  process is both ready and running.
\<close>

theorem os_conservation:
  assumes "os_init fr cfg s0" "steps (os_step files fr cfg) s0 tr s"
  shows "image_mset pid (all_ready (sch s) + running cfg s) + mset (fins tr) = mset (loads tr) \<and> distinct (loads tr) \<and>
    loads tr = map (\<lambda>k. int k + 1) [0..<ld_i (ldr s)] \<and> ld_i (ldr s) \<le> nat (num_processes cfg)"
proof -
  have "os_inv fr cfg tr s" by (rule sim.inv_run [OF assms(2,1)])
  then have p: "proc_inv cfg tr s" by (simp add: os_inv_def)
  then show ?thesis using procs_pid_distinct(1) [OF p] fins_bound(2) [OF p] by (simp add: proc_inv_def procs_def)
qed

text \<open>
  C12. A process runs its program exactly once: when a CPU releases a process as finished, it is a process
  the loader added, nothing but its program counter has changed, and it has executed exactly as many
  instructions as its program has; at any time its program counter is the number it has executed.
\<close>

theorem os_runs_programs:
  assumes "os_init fr cfg s0" "steps (os_step files fr cfg) s0 tr s"
  shows "(\<forall>p. OFin p \<in> set tr \<longrightarrow> occurs (OExec (pid p)) tr = nat (code_size (code p)) \<and>
      (\<exists>p0. OLoad p0 \<in> set tr \<and> pc p0 = 0 \<and> p = p0\<lparr>pc := code_size (code p0)\<rparr>)) \<and>
    (\<forall>p. p \<in># all_ready (sch s) + running cfg s \<longrightarrow> occurs (OExec (pid p)) tr = nat (pc p) \<and> 0 \<le> pc p \<and> pc p \<le> code_size (code p))"
proof -
  have "os_inv fr cfg tr s" by (rule sim.inv_run [OF assms(2,1)])
  then have i: "proc_inv cfg tr s" by (simp add: os_inv_def)
  have "occurs (OExec (pid p)) tr = nat (code_size (code p)) \<and> (\<exists>p0. OLoad p0 \<in> set tr \<and> pc p0 = 0 \<and> p = p0\<lparr>pc := code_size (code p0)\<rparr>)"
    if "OFin p \<in> set tr" for p
  proof -
    have e: "executed tr p" "pc p = code_size (code p)" using i that by (auto simp: proc_inv_def)
    then obtain p0 where p0: "OLoad p0 \<in> set tr" "pc p0 = 0" "p = p0\<lparr>pc := pc p\<rparr>" by (auto simp: executed_def)
    have ce: "code p = code p0" using arg_cong [OF p0(3), of code] by simp
    have "p = p0\<lparr>pc := code_size (code p0)\<rparr>" by (rule p0(3) [unfolded e(2) ce])
    moreover have "occurs (OExec (pid p)) tr = nat (code_size (code p))" using e by (simp add: executed_def)
    ultimately show ?thesis using p0(1,2) by blast
  qed
  moreover have "occurs (OExec (pid p)) tr = nat (pc p) \<and> 0 \<le> pc p \<and> pc p \<le> code_size (code p)"
    if "p \<in># all_ready (sch s) + running cfg s" for p
  proof -
    have "executed tr p" using i that unfolding proc_inv_def procs_def by blast
    then show ?thesis by (simp add: executed_def)
  qed
  ultimately show ?thesis by blast
qed

text \<open>
  C2. Clean shutdown: when all CPU threads have ended, every process of the configuration has been loaded
  and has finished; none is left in a ready queue or on a CPU. This holds although \<open>cnt_proc_done++\<close>
  is not atomic and although a CPU stops as soon as it finds the queue empty after the loader is done:
  the barrier of the timer orders the last \<open>add_proc\<close> before that test.
\<close>

theorem os_clean_shutdown:
  assumes "os_init fr cfg s0" "steps (os_step files fr cfg) s0 tr s" "\<forall>i < nat (num_cpus cfg). cpu_pc (cpus s i) = CEnd"
  shows "all_ready (sch s) = {#} \<and> running cfg s = {#} \<and> length (fins tr) = nat (num_processes cfg) \<and>
    mset (fins tr) = mset (map (\<lambda>k. int k + 1) [0..<nat (num_processes cfg)])"
proof -
  have inv: "os_inv fr cfg tr s" by (rule sim.inv_run [OF assms(2,1)])
  then have i: "proc_inv cfg tr s" "cnt_inv cfg tr s" "stop_inv cfg s" "0 < num_cpus cfg" by (auto simp: os_inv_def config_ok_def)
  have "procs cfg s = {#} \<and> ld_i (ldr s) = nat (num_processes cfg)"
  proof (cases "os_done s")
    case True
    then have "ld_pc (ldr s) \<in> {LDetach, LEnd}" using i(3) by (simp add: stop_inv_def)
    then have l: "ld_i (ldr s) = nat (num_processes cfg)" "sealed cfg s" using i(1) by (auto simp: proc_inv_def ld_inv_def sealed_def Let_def)
    have "\<not> (\<exists>i < nat (num_cpus cfg). active (cpus s i))" using assms(3) by (auto simp: active_def)
    then have "all_ready (sch s) = {#}" using i(3) l(2) by (auto simp: stop_inv_def)
    moreover have "cpu_proc (cpus s j) = None" if "j < nat (num_cpus cfg)" for j
      using that i(1) assms(3) by (auto simp: proc_inv_def cpu_shape_def)
    then have "running cfg s = {#}" by (simp add: running_def held_def)
    ultimately show ?thesis using l(1) by (simp add: procs_def)
  next
    case False
    have "0 < nat (num_cpus cfg)" "cpu_pc (cpus s 0) \<in> {CDetach, CEnd}" using assms(3) i(4) by simp_all
    then have "cnt_proc_done s = num_processes cfg" using False i(3) unfolding stop_inv_def by blast
    note f = all_finished [OF i(1,2) this]
    have "length (fins tr) = ld_i (ldr s)" using fins_bound(1) [OF i(1)] f(1) by simp
    with f show ?thesis by auto
  qed
  then have p: "procs cfg s = {#}" "ld_i (ldr s) = nat (num_processes cfg)" by auto
  moreover have "mset (fins tr) = mset (loads tr)" using i(1) p(1) by (simp add: proc_inv_def)
  moreover have "loads tr = map (\<lambda>k. int k + 1) [0..<ld_i (ldr s)]" using i(1) by (simp add: proc_inv_def)
  moreover have "length (fins tr) = ld_i (ldr s)" using fins_bound(1) [OF i(1)] p(1) by simp
  ultimately show ?thesis by (simp add: procs_def)
qed

text \<open>
  C31. The threads use the timer as its contract asks: the timer events of every run of the simulator are a
  run of the timer, so the barrier, its safety and its progress hold in the simulator.
\<close>

theorem os_timer_refinement:
  assumes "os_init fr cfg s0" "steps (os_step files fr cfg) s0 tr s"
  shows "\<exists>t0. timer_init t0 \<and> steps timer_step t0 (tproj tr) (tms s) \<and> timer_inv (tproj tr) (tms s)"
proof -
  have "os_inv fr cfg tr s" by (rule sim.inv_run [OF assms(2,1)])
  then have l: "link_inv cfg tr s" by (simp add: os_inv_def)
  from link_invD(6) [OF l] link_timer_inv [OF l] show ?thesis by blast
qed

section \<open>Witnesses\<close>

text \<open>Playing a schedule of the simulator: the next step of a CPU, of the loader, of the timer, or of a
  device inside \<open>next_slot\<close>.\<close>

datatype omove = MCpu nat | MLd | MTick | MNext nat

definition omove_at :: "(string \<Rightarrow> string option) \<Rightarrow> fresh \<Rightarrow> config \<Rightarrow> omove \<Rightarrow> os \<Rightarrow> (os_event \<times> os) option" where
  "omove_at files fr cfg m s = (case m of
     MCpu i \<Rightarrow> if i < nat (num_cpus cfg) \<and> cpu_enabled i s
                then (case cpu_routine cfg i s of Inl _ \<Rightarrow> None | Inr (e, t) \<Rightarrow> Some (e, t)) else None
   | MLd \<Rightarrow> if ld_enabled cfg s then (case ld_routine files fr cfg s of Inl _ \<Rightarrow> None | Inr (e, t) \<Rightarrow> Some (e, t)) else None
   | MTick \<Rightarrow> (case tmove_at MTimer (tms s) of None \<Rightarrow> None | Some (e, u) \<Rightarrow> Some (OTimer e, s\<lparr>tms := u\<rparr>))
   | MNext d \<Rightarrow> (case tmove_at (MWait d) (tms s) of None \<Rightarrow> None | Some (e, u) \<Rightarrow> Some (OTimer e, s\<lparr>tms := u\<rparr>)))"

fun oplay :: "(string \<Rightarrow> string option) \<Rightarrow> fresh \<Rightarrow> config \<Rightarrow> omove list \<Rightarrow> os \<Rightarrow> (os_event list \<times> os) option" where
  "oplay files fr cfg [] s = Some ([], s)"
| "oplay files fr cfg (m # ms) s =
     (case omove_at files fr cfg m s of None \<Rightarrow> None
      | Some (e, t) \<Rightarrow> (case oplay files fr cfg ms t of None \<Rightarrow> None | Some (tr, u) \<Rightarrow> Some (e # tr, u)))"

lemma tmove_quiet: "tmove_at m t = Some (e, u) \<Longrightarrow> \<forall>d. m \<noteq> MEnter d \<Longrightarrow> quiet e"
  by (auto simp: tmove_at_def timer_routine_def next_slot_wait_def quiet_def
      split: tmove.splits timer_pc.splits list.splits if_splits)

lemma omove_step: "omove_at files fr cfg m s = Some (e, t) \<Longrightarrow> os_step files fr cfg s e t"
  by (auto simp: omove_at_def intro: os_step.cpu os_step.ld os_step.timer tmove_step tmove_quiet
      split: omove.splits if_splits sum.splits option.splits)

lemma oplay_steps: "oplay files fr cfg ms s = Some (tr, t) \<Longrightarrow> steps (os_step files fr cfg) s tr t"
proof (induction ms arbitrary: s tr)
  case (Cons m ms)
  then obtain e u tr' where "omove_at files fr cfg m s = Some (e, u)" "oplay files fr cfg ms u = Some (tr', t)" "tr = e # tr'"
    by (auto split: option.splits)
  with Cons.IH [of u tr'] show ?case by (simp add: steps_Cons [of "os_step files fr cfg", OF omove_step])
qed simp

text \<open>One CPU, one process with one instruction.\<close>

definition cfg_ex :: config where
  "cfg_ex = \<lparr>time_slot = 2, num_cpus = 1, num_processes = 1, memramsz = 512, memswpsz = [512, 0, 0, 0], cfg_vmemsz = 1024,
     ld_path = [''p''], ld_start_time = [0], ld_prio = [0]\<rparr>"

definition files_ex :: "string \<Rightarrow> string option" where
  "files_ex path = Some ''1 1 calc''"

definition fresh_ex :: fresh where
  "fresh_ex = \<lparr>fr_prio = (\<lambda>_. 0), fr_pcb = (\<lambda>_. proc_ex), fr_inst = (\<lambda>_. junk_ex),
     fr_mm = (\<lambda>_. \<lparr>pgd = (\<lambda>_. 0), mmap = [], symrgtbl = (\<lambda>_. \<lparr>vmaid = 0, rg_start = 0, rg_end = 0\<rparr>), fifo_pgn = []\<rparr>),
     fr_pgd = (\<lambda>_ _. 0), fr_rg = (\<lambda>_ _. []), fr_mp = (\<lambda>_. dev512), fr_fp = (\<lambda>_. []), fr_blk = (\<lambda>_ _. 0),
     fr_mm0 = (\<lambda>_. \<lparr>pgd = (\<lambda>_. 0), mmap = [], symrgtbl = (\<lambda>_. \<lparr>vmaid = 0, rg_start = 0, rg_end = 0\<rparr>), fifo_pgn = []\<rparr>),
     fr_sched = \<lparr>mlq_ready_queue = (\<lambda>_. \<lparr>proc = (\<lambda>_. proc_ex), qsize = 0\<rparr>), mlq_ready_queue_slot = (\<lambda>_. 0),
       ready_queue = \<lparr>proc = (\<lambda>_. proc_ex), qsize = 0\<rparr>, run_queue = \<lparr>proc = (\<lambda>_. proc_ex), qsize = 0\<rparr>\<rparr>,
     fr_lru = (\<lambda>_. \<lparr>lru_next = None, lru_pre = None, pte = (0, 0), fpn = 0, pgn = 0\<rparr>)\<rparr>"

definition sched_ex :: "omove list" where
  "sched_ex = [MLd, MLd, MLd, MLd, MCpu 0, MCpu 0, MCpu 0, MCpu 0, MTick, MTick, MTick, MTick, MTick, MTick, MTick, MNext 1, MNext 0,
     MLd, MLd, MLd, MLd, MCpu 0, MCpu 0, MCpu 0, MCpu 0, MCpu 0, MCpu 0, MCpu 0]"

lemma oplay_reaches:
  assumes "case boot fr cfg of Inl _ \<Rightarrow> False | Inr s0 \<Rightarrow>
      (case oplay files fr cfg ms s0 of None \<Rightarrow> False | Some (tr, s) \<Rightarrow> P tr s)"
    and "fresh_ok fr" "config_ok cfg"
  shows "\<exists>s0 tr s. os_init fr cfg s0 \<and> steps (os_step files fr cfg) s0 tr s \<and> P tr s"
proof -
  obtain s0 where s0: "boot fr cfg = ok s0" using assms(1) by (cases "boot fr cfg") auto
  then obtain tr s where "oplay files fr cfg ms s0 = Some (tr, s)" "P tr s" using assms(1) by (cases "oplay files fr cfg ms s0") auto
  with s0 assms(2,3) oplay_steps [of files fr cfg ms s0 tr s] show ?thesis by (auto simp: os_init_def)
qed

lemma fresh_ex_ok: "fresh_ok fresh_ex"
  by (simp add: fresh_ok_def fresh_ex_def proc_ex_def)

lemma sched_ex_run:
  "\<exists>s0 tr s. os_init fresh_ex cfg_ex s0 \<and> steps (os_step files_ex fresh_ex cfg_ex) s0 tr s \<and> cpu_pc (cpus s 0) = CEnd \<and> fins tr = [1]"
  by (rule oplay_reaches [where ms = sched_ex, OF _ fresh_ex_ok]) (code_simp, simp add: config_ok_def cfg_ex_def)

lemma fins_ex: "k \<in> set (fins tr) \<Longrightarrow> \<exists>p. OFin p \<in> set tr \<and> pid p = k"
  by (auto simp: fins_def split: os_event.splits)

theorem os_conservation_witness:
  "\<exists>s0 tr s. steps (os_step files_ex fresh_ex cfg_ex) s0 tr s \<and> fins tr = [1] \<and>
     image_mset pid (all_ready (sch s) + running cfg_ex s) + {#1#} = mset (loads tr)"
proof -
  obtain s0 tr s where r: "os_init fresh_ex cfg_ex s0" "steps (os_step files_ex fresh_ex cfg_ex) s0 tr s" "fins tr = [1]"
    using sched_ex_run by blast
  from os_conservation [OF r(1,2)] r(2,3) show ?thesis by (intro exI [of _ s0] exI [of _ tr] exI [of _ s]) simp
qed

theorem os_runs_programs_witness:
  "\<exists>s0 tr s p. steps (os_step files_ex fresh_ex cfg_ex) s0 tr s \<and> OFin p \<in> set tr \<and> occurs (OExec (pid p)) tr = nat (code_size (code p))"
proof -
  obtain s0 tr s where r: "os_init fresh_ex cfg_ex s0" "steps (os_step files_ex fresh_ex cfg_ex) s0 tr s" "fins tr = [1]"
    using sched_ex_run by blast
  have "\<exists>p. OFin p \<in> set tr" using r(3) fins_ex [of 1 tr] by auto
  with os_runs_programs [OF r(1,2)] r(2) show ?thesis by blast
qed

theorem os_clean_shutdown_witness:
  "\<exists>s0 tr s. steps (os_step files_ex fresh_ex cfg_ex) s0 tr s \<and> all_ready (sch s) = {#} \<and> length (fins tr) = 1"
proof -
  obtain s0 tr s where r: "os_init fresh_ex cfg_ex s0" "steps (os_step files_ex fresh_ex cfg_ex) s0 tr s" "cpu_pc (cpus s 0) = CEnd"
    using sched_ex_run by blast
  have "\<forall>i < nat (num_cpus cfg_ex). cpu_pc (cpus s i) = CEnd" using r(3) by (simp add: cfg_ex_def)
  from os_clean_shutdown [OF r(1,2) this] r(2) show ?thesis
    by (intro exI [of _ s0] exI [of _ tr] exI [of _ s]) (simp add: cfg_ex_def)
qed

theorem os_timer_refinement_witness:
  "\<exists>s0 tr s t0. steps (os_step files_ex fresh_ex cfg_ex) s0 tr s \<and> fins tr = [1] \<and> steps timer_step t0 (tproj tr) (tms s)"
proof -
  obtain s0 tr s where r: "os_init fresh_ex cfg_ex s0" "steps (os_step files_ex fresh_ex cfg_ex) s0 tr s" "fins tr = [1]"
    using sched_ex_run by blast
  from os_timer_refinement [OF r(1,2)] r(2,3) show ?thesis by blast
qed

section \<open>The lost update\<close>

text \<open>Two CPUs and two processes of one instruction each.\<close>

definition cfg_race :: config where
  "cfg_race = cfg_ex\<lparr>num_cpus := 2, num_processes := 2, ld_path := [''p'', ''q''], ld_start_time := [0, 0], ld_prio := [0, 0]\<rparr>"

text \<open>In the last slot both CPUs find their process finished, both read the counter, then both write it.\<close>

definition sched_race :: "omove list" where
  "sched_race =
     (let slot = replicate 9 MTick @ [MNext 0, MNext 1, MNext 2];
          cpu = (\<lambda>i n. replicate n (MCpu i)) in
      cpu 0 3 @ cpu 1 3 @ replicate 4 MLd @ slot @
      replicate 5 MLd @ cpu 0 5 @ cpu 1 5 @ slot @
      cpu 0 3 @ cpu 1 3 @ cpu 0 1 @ cpu 1 1 @ cpu 0 1 @ cpu 1 1 @ cpu 0 2 @ cpu 1 2 @ replicate 4 MLd)"

lemma sched_race_run:
  "\<exists>s0 tr s. os_init fresh_ex cfg_race s0 \<and> steps (os_step files_ex fresh_ex cfg_race) s0 tr s \<and> fins tr = [1, 2] \<and>
     (cnt_proc_done s = 1 \<and> ld_pc (ldr s) = LEnd \<and> cpu_pc (cpus s 0) = CBar \<and> cpu_pc (cpus s 1) = CBar \<and>
     cpu_proc (cpus s 0) = None \<and> cpu_proc (cpus s 1) = None)"
  by (rule oplay_reaches [where ms = sched_race, OF _ fresh_ex_ok]) (code_simp, simp add: config_ok_def cfg_race_def cfg_ex_def)

text \<open>
  C32. The unprotected \<open>cnt_proc_done++\<close> can lose an update, and then the simulator never ends: there is a
  run of two CPUs in which both processes have finished but the counter is below their number, and
  after which no CPU thread ends in any continuation.
\<close>

theorem lost_update_hang:
  "\<exists>files fr cfg s0 tr s. os_init fr cfg s0 \<and> steps (os_step files fr cfg) s0 tr s \<and> int (length (fins tr)) = num_processes cfg \<and>
     cnt_proc_done s < num_processes cfg \<and>
     \<not> (\<exists>tr' s' i. steps (os_step files fr cfg) s tr' s' \<and> i < nat (num_cpus cfg) \<and> cpu_pc (cpus s' i) = CEnd)"
proof -
  obtain s0 tr s where r: "os_init fresh_ex cfg_race s0" "steps (os_step files_ex fresh_ex cfg_race) s0 tr s" "fins tr = [1, 2]"
    "cnt_proc_done s = 1" "ld_pc (ldr s) = LEnd" "cpu_pc (cpus s 0) = CBar" "cpu_pc (cpus s 1) = CBar"
    "cpu_proc (cpus s 0) = None" "cpu_proc (cpus s 1) = None" using sched_race_run by blast
  have n: "num_cpus cfg_race = 2" "num_processes cfg_race = 2" by (simp_all add: cfg_race_def)
  have "os_inv fresh_ex cfg_race tr s" by (rule sim.inv_run [OF r(2,1)])
  then have p: "proc_inv cfg_race tr s" by (simp add: os_inv_def)
  have "length (fins tr) = 2" using r(3) by simp
  then have "size (procs cfg_race s) = 0" using fins_bound [OF p] n(2) by linarith
  then have "procs cfg_race s = {#}" by simp
  then have "sched_ok (sch s)" "all_ready (sch s) = {#}" using p by (simp_all add: proc_inv_def procs_def)
  then have sp: "spinning cfg_race s" using r(4-) n by (auto simp: spinning_def less_2_cases_iff numeral_2_eq_2 less_Suc_eq)
  have "\<not> (\<exists>tr' s' i. steps (os_step files_ex fresh_ex cfg_race) s tr' s' \<and> i < nat (num_cpus cfg_race) \<and> cpu_pc (cpus s' i) = CEnd)"
    using spinning_run [OF _ sp] n by (fastforce simp: spinning_def)
  with r(1-4) n show ?thesis
    by (intro exI [of _ files_ex] exI [of _ fresh_ex] exI [of _ cfg_race] exI [of _ s0] exI [of _ tr] exI [of _ s]) simp
qed

end
