(* ===== verification/Os_Slice.thy ===== *)
theory Os_Slice
  imports Os_Stop
begin

text \<open>
  Preemption: a process executes at most \<open>time_slot\<close> instructions before it goes back through the ready
  queue. The counter \<open>time_left\<close> of a CPU is what is left of the slice of the process it holds.
\<close>

section \<open>The slice of a CPU\<close>

definition slice_ok :: "config \<Rightarrow> cpu_st \<Rightarrow> bool" where
  "slice_ok cfg c \<longleftrightarrow> 0 \<le> time_left c \<and> time_left c \<le> time_slot cfg \<and> (cpu_pc c = CRun \<longrightarrow> 0 < time_left c)"

text \<open>Where a counter of 0 means that the process has just been dispatched.\<close>

definition dispatching :: "cpu_pc \<Rightarrow> bool" where
  "dispatching l \<longleftrightarrow> (case l of CIncr \<Rightarrow> True | CStore v \<Rightarrow> True | CRecheck \<Rightarrow> True | _ \<Rightarrow> False)"

text \<open>How many instructions the process on a CPU may still execute before it is put back.\<close>

definition budget :: "config \<Rightarrow> cpu_st \<Rightarrow> int" where
  "budget cfg c = (if time_left c = 0 \<and> dispatching (cpu_pc c) then time_slot cfg else time_left c)"

definition holds :: "os \<Rightarrow> nat \<Rightarrow> int \<Rightarrow> bool" where
  "holds s i k \<longleftrightarrow> (\<exists>p. cpu_proc (cpus s i) = Some p \<and> pid p = k)"

definition is_ready :: "os \<Rightarrow> int \<Rightarrow> bool" where
  "is_ready s k \<longleftrightarrow> (\<exists>p. p \<in># all_ready (sch s) \<and> pid p = k)"

abbreviation slot_ok :: "config \<Rightarrow> bool" where
  "slot_ok cfg \<equiv> 0 < time_slot cfg \<and> time_slot cfg < 2147483648"

lemma budget_le: "slice_ok cfg c \<Longrightarrow> slot_ok cfg \<Longrightarrow> budget cfg c \<le> time_slot cfg"
  by (simp add: budget_def slice_ok_def)

lemma run_pid: "run p st = ok (r, p', st') \<Longrightarrow> pid p' = pid p"
  by (auto simp: run_def Let_def split: if_splits)

lemma slice_ok_cpu:
  assumes "cpu_routine cfg i s = ok (e, t)" "slice_ok cfg (cpus s i)" "slot_ok cfg"
  shows "slice_ok cfg (cpus t i)"
  using assms
  by (auto simp: slice_ok_def cpu_routine_def cpu_get_def set_cpu_def Let_def s32_id split: cpu_pc.splits option.splits if_splits)

lemma slice_ok_step:
  assumes "\<forall>i < nat (num_cpus cfg). slice_ok cfg (cpus s i)" "slot_ok cfg" "os_step files fr cfg s e t"
  shows "\<forall>i < nat (num_cpus cfg). slice_ok cfg (cpus t i)"
  using assms(3)
proof cases
  case (cpu j)
  then have "cpu_pc (cpus s j) \<noteq> CEnd" by (simp add: cpu_enabled_def)
  with slice_ok_cpu [OF cpu(3) _ assms(2)] cpu_routine_timer(3) [OF cpu(3)] assms(1) show ?thesis by metis
next
  case ld
  then have "cpus t = cpus s" using ld_routine_timer(1) [OF ld(2)] by (simp add: ld_enabled_def)
  with assms(1) show ?thesis by simp
qed (use assms(1) in simp_all)

lemma slice_ok_run:
  "steps (os_step files fr cfg) s tr t \<Longrightarrow> slot_ok cfg \<Longrightarrow> \<forall>i < nat (num_cpus cfg). slice_ok cfg (cpus s i) \<Longrightarrow>
   \<forall>i < nat (num_cpus cfg). slice_ok cfg (cpus t i)"
  by (induction rule: steps.induct) (blast dest: slice_ok_step)+

section \<open>Steps\<close>

lemma cpu_exec_holds: "cpu_routine cfg i s = ok (OExec k, t) \<Longrightarrow> holds s i k"
  by (auto simp: holds_def cpu_routine_def cpu_get_def Let_def split: cpu_pc.splits option.splits if_splits)

text \<open>A CPU that holds process \<open>k\<close> executes an instruction of it and uses up one of its slice, or keeps it, or
  puts it back, or finds it finished.\<close>

lemma cpu_slice:
  assumes "cpu_routine cfg i s = ok (e, t)" "slice_ok cfg (cpus s i)" "slot_ok cfg" "holds s i k" "cpu_shape (cpus s i)" "sched_ok (sch s)"
  shows "holds t i k \<and> budget cfg (cpus t i) + (if e = OExec k then 1 else 0) \<le> budget cfg (cpus s i) \<or>
    is_ready t k \<and> e \<noteq> OExec k \<or> (\<exists>p. e = OFin p \<and> pid p = k)"
proof -
  obtain p where p: "cpu_proc (cpus s i) = Some p" "pid p = k" using assms(4) by (auto simp: holds_def)
  consider (put) q where "cpu_pc (cpus s i) = CTop" "put_proc prio_of (sch s) p = ok q" "sch t = q" "e = OStep"
    | (run) r p' st where "cpu_pc (cpus s i) = CRun" "run p (pgs s) = ok (r, p', st)" "cpu_proc (cpus t i) = Some p'"
        "time_left (cpus t i) = time_left (cpus s i) - 1" "cpu_pc (cpus t i) = CSlot"
    | (other) "e = OFin p \<or> e \<noteq> OExec k \<and> cpu_proc (cpus t i) = Some p \<and> budget cfg (cpus t i) \<le> budget cfg (cpus s i)"
    using assms(1-3,5) p
    by (cases "cpu_pc (cpus s i)")
      (auto simp: cpu_routine_def cpu_get_def set_cpu_def Let_def cpu_shape_def budget_def dispatching_def slice_ok_def s32_id
        split: if_splits)
  then show ?thesis
  proof cases
    case put
    from rq.put_result [OF assms(6) put(2)] put(3,4) p(2) show ?thesis by (auto simp: is_ready_def)
  next
    case run
    have "holds t i k" using run(3) run_pid [OF run(2)] p(2) by (simp add: holds_def)
    with run(1,4,5) show ?thesis by (simp add: budget_def dispatching_def)
  next
    case other
    with p show ?thesis by (auto simp: holds_def)
  qed
qed

lemma holds_one:
  assumes "proc_inv cfg tr s" "i < nat (num_cpus cfg)" "j < nat (num_cpus cfg)" "holds s i k" "holds s j k"
  shows "i = j"
proof (rule ccontr)
  assume ne: "i \<noteq> j"
  obtain p q where pq: "cpu_proc (cpus s i) = Some p" "pid p = k" "cpu_proc (cpus s j) = Some q" "pid q = k"
    using assms(4,5) by (auto simp: holds_def)
  let ?s = "s\<lparr>cpus := (cpus s)(j := (cpus s j)\<lparr>cpu_proc := None\<rparr>)\<rparr>"
  have "running cfg s = add_mset q (running cfg ?s)"
    using running_set [OF assms(3), of ?s s "(cpus s j)\<lparr>cpu_proc := None\<rparr>"] pq(3) by (simp add: held_def)
  then have R: "procs cfg s = add_mset q (procs cfg ?s)" by (simp add: procs_def)
  have "p \<in># procs cfg ?s" using held_in_procs [OF assms(2), of ?s p] pq(1) ne by simp
  from procs_pid_distinct(3) [OF assms(1) R this] pq(2,4) show False by simp
qed

text \<open>Where process \<open>k\<close> is after a step.\<close>

definition gone :: "config \<Rightarrow> os \<Rightarrow> int \<Rightarrow> bool" where
  "gone cfg s k \<longleftrightarrow> (\<forall>p. p \<in># procs cfg s \<longrightarrow> pid p \<noteq> k)"

lemma gone_step:
  assumes "proc_inv cfg tr s" "os_step files fr cfg s e t" "gone cfg s k"
  shows "e \<noteq> OExec k \<and> (gone cfg t k \<or> is_ready t k)"
  using assms(2)
proof cases
  case (cpu i)
  have ne: "cpu_pc (cpus s i) \<noteq> CEnd" "cpu_shape (cpus s i)" "sched_ok (sch s)"
    using cpu(1,2) assms(1) by (auto simp: cpu_enabled_def proc_inv_def)
  have "e \<noteq> OExec k"
    using cpu_exec_holds [of cfg i s k t] cpu(1,3) held_in_procs [OF cpu(1)] assms(3) by (auto simp: holds_def gone_def)
  moreover have "gone cfg t k"
    using cpu_procs [OF cpu(3) ne(3) cpu(1) ne(2,1)] assms(3) run_pid unfolding gone_def by (elim conjE disjE exE) auto
  ultimately show ?thesis by simp
next
  case ld
  show ?thesis
  proof (cases "ld_pc (ldr s) = LAdd")
    case True
    then obtain p q where q: "put_proc prio_of (sch s) p = ok q" "e = OLoad p" "sch t = q" "cpus t = cpus s"
      using ld(2) by (auto simp: ld_routine_def set_ld_def Let_def add_proc_eq_put)
    have "sched_ok (sch s)" using assms(1) by (simp add: proc_inv_def)
    from rq.put_result [OF this q(1)] q(2-4) assms(3) show ?thesis by (auto simp: gone_def is_ready_def procs_def running_def)
  next
    case False
    then have "sch t = sch s" "cpus t = cpus s" "e = OStep \<or> (\<exists>x. e = OTimer x)"
      using ld by (auto simp: ld_routine_def set_ld_def ld_enabled_def Let_def split: ld_pc.splits if_splits)
    then show ?thesis using assms(3) by (auto simp: gone_def procs_def running_def)
  qed
qed (use assms(3) in \<open>simp_all add: gone_def procs_def running_def\<close>)

lemma fin_gone:
  assumes "proc_inv cfg tr s" "os_step files fr cfg s (OFin p) t"
  shows "gone cfg t (pid p)"
  using assms(2)
proof cases
  case (cpu i)
  have ne: "cpu_pc (cpus s i) \<noteq> CEnd" "cpu_shape (cpus s i)" "sched_ok (sch s)"
    using cpu(1,2) assms(1) by (auto simp: cpu_enabled_def proc_inv_def)
  have "procs cfg s = add_mset p (procs cfg t)"
    using cpu_procs [OF cpu(3) ne(3) cpu(1) ne(2,1)] by (auto split: if_splits)
  with procs_pid_distinct(3) [OF assms(1)] show ?thesis by (auto simp: gone_def)
next
  case ld
  then show ?thesis by (auto simp: ld_routine_def Let_def split: ld_pc.splits if_splits)
qed


text \<open>A CPU holds process \<open>k\<close> and the instructions executed so far fit in its slice.\<close>

definition within :: "config \<Rightarrow> os \<Rightarrow> int \<Rightarrow> int \<Rightarrow> bool" where
  "within cfg s k n \<longleftrightarrow> (\<exists>i < nat (num_cpus cfg). holds s i k \<and> n + budget cfg (cpus s i) \<le> time_slot cfg)"

lemma within_step:
  assumes "proc_inv cfg tr s" "os_step files fr cfg s e t" "\<forall>i < nat (num_cpus cfg). slice_ok cfg (cpus s i)" "slot_ok cfg"
    and "within cfg s k n"
  shows "within cfg t k (n + (if e = OExec k then 1 else 0)) \<or> (is_ready t k \<or> gone cfg t k) \<and> e \<noteq> OExec k"
proof -
  obtain i where i: "i < nat (num_cpus cfg)" "holds s i k" "n + budget cfg (cpus s i) \<le> time_slot cfg"
    using assms(5) by (auto simp: within_def)
  have same: "within cfg t k (n + (if e = OExec k then 1 else 0))" if "cpus t i = cpus s i" "e \<noteq> OExec k"
    using i that unfolding within_def holds_def by (intro exI [of _ i]) simp
  show ?thesis
    using assms(2)
  proof cases
    case (cpu j)
    have ne: "cpu_pc (cpus s j) \<noteq> CEnd" using cpu(2) by (simp add: cpu_enabled_def)
    show ?thesis
    proof (cases "j = i")
      case True
      have sh: "cpu_shape (cpus s i)" "sched_ok (sch s)" "slice_ok cfg (cpus s i)"
        using assms(1,3) i(1) by (simp_all add: proc_inv_def)
      from cpu_slice [OF cpu(3) [unfolded True] sh(3) assms(4) i(2) sh(1,2)] show ?thesis
      proof (elim disjE)
        assume "holds t i k \<and> budget cfg (cpus t i) + (if e = OExec k then 1 else 0) \<le> budget cfg (cpus s i)"
        with i(1,3) show ?thesis unfolding within_def by (intro disjI1 exI [of _ i]) auto
      next
        assume "\<exists>p. e = OFin p \<and> pid p = k"
        with fin_gone [OF assms(1)] assms(2) show ?thesis by auto
      qed simp
    next
      case False
      have "e \<noteq> OExec k" using cpu_exec_holds [of cfg j s k t] cpu(3) holds_one [OF assms(1) cpu(1) i(1) _ i(2)] False by auto
      with same cpu_routine_timer(3) [OF cpu(3) ne, of i] False show ?thesis by auto
    qed
  next
    case ld
    have "cpus t = cpus s" using ld_routine_timer(1) [OF ld(2)] ld(1) by (simp add: ld_enabled_def)
    moreover have "e \<noteq> OExec k" using ld(2) by (auto simp: ld_routine_def Let_def split: ld_pc.splits if_splits)
    ultimately show ?thesis using same by simp
  qed (use same in simp_all)
qed

lemma procs_where:
  assumes "\<not> gone cfg s k" "\<not> is_ready s k"
  obtains i where "i < nat (num_cpus cfg)" "holds s i k"
proof -
  obtain p where p: "p \<in># procs cfg s" "pid p = k" using assms(1) by (auto simp: gone_def)
  then have "p \<in># running cfg s" using assms(2) by (auto simp: procs_def is_ready_def)
  then obtain i where "i < nat (num_cpus cfg)" "p \<in># held (cpus s i)" by (auto simp: running_def set_mset_sum)
  with p(2) that show thesis by (auto simp: held_def holds_def split: option.splits)
qed

section \<open>Properties\<close>

text \<open>The run has passed through a state in which process \<open>k\<close> was ready, with at most \<open>b\<close> of its instructions before.\<close>

definition requeued :: "('s \<Rightarrow> os_event \<Rightarrow> 's \<Rightarrow> bool) \<Rightarrow> ('s \<Rightarrow> bool) \<Rightarrow> int \<Rightarrow> int \<Rightarrow> 's \<Rightarrow> os_event list \<Rightarrow> 's \<Rightarrow> bool" where
  "requeued step rd k b s tr t \<longleftrightarrow> (\<exists>tr1 tr2 u. tr = tr1 @ tr2 \<and> steps step s tr1 u \<and> steps step u tr2 t \<and> rd u \<and>
     int (occurs (OExec k) tr1) \<le> b)"

lemma requeued_later: "requeued step rd k b s tr t \<Longrightarrow> step t e u \<Longrightarrow> requeued step rd k b s (tr @ [e]) u"
  unfolding requeued_def by (metis append.assoc steps.later)

lemma requeued_now: "steps step s tr t \<Longrightarrow> rd t \<Longrightarrow> int (occurs (OExec k) tr) \<le> b \<Longrightarrow> requeued step rd k b s tr t"
  unfolding requeued_def by (metis append_Nil2 steps_Nil)

lemma slice_run:
  assumes "steps (os_step files fr cfg) s tr t" "os_inv fr cfg tr0 s" "slot_ok cfg" "\<forall>i < nat (num_cpus cfg). slice_ok cfg (cpus s i)"
  shows "requeued (os_step files fr cfg) (\<lambda>u. is_ready u k) k (time_slot cfg) s tr t \<or>
    gone cfg t k \<and> int (occurs (OExec k) tr) \<le> time_slot cfg \<or> within cfg t k (int (occurs (OExec k) tr))"
  using assms
proof (induction rule: steps.induct)
  case (start s)
  show ?case
  proof (cases "is_ready s k")
    case True
    then show ?thesis using start.prems by (intro disjI1 requeued_now) simp_all
  next
    case False
    show ?thesis
    proof (cases "gone cfg s k")
      case False
      from procs_where [OF this \<open>\<not> is_ready s k\<close>] obtain i where "i < nat (num_cpus cfg)" "holds s i k" by metis
      with start.prems budget_le [of cfg "cpus s i"] show ?thesis by (auto simp: within_def)
    qed (use start.prems in simp)
  qed
next
  case (later s tr t e u)
  let ?n = "int (occurs (OExec k) tr)" and ?R = "requeued (os_step files fr cfg) (\<lambda>u. is_ready u k) k (time_slot cfg)"
  have run: "steps (os_step files fr cfg) s (tr @ [e]) u" by (rule steps.later [OF later.hyps])
  have "os_inv fr cfg (tr0 @ tr) t" using later.hyps(1) later.prems(1)
    by (induction rule: steps.induct) (auto simp: os_inv_step simp flip: append_assoc)
  then have p: "proc_inv cfg (tr0 @ tr) t" by (simp add: os_inv_def)
  note sl = slice_ok_run [OF later.hyps(1) later.prems(2,3)]
  from later.IH [OF later.prems] show ?case
  proof (elim disjE conjE)
    assume "?R s tr t"
    with requeued_later later.hyps(2) show ?thesis by metis
  next
    assume g: "gone cfg t k" "?n \<le> time_slot cfg"
    note G = gone_step [OF p later.hyps(2) g(1)]
    show ?thesis
    proof (cases "is_ready u k")
      case True
      with run G g(2) show ?thesis by (intro disjI1 requeued_now) simp_all
    qed (use G g(2) in simp)
  next
    assume w: "within cfg t k ?n"
    then have le: "?n \<le> time_slot cfg" using sl by (auto simp: within_def budget_def slice_ok_def split: if_splits)
    from within_step [OF p later.hyps(2) sl later.prems(2) w] show ?thesis
    proof (elim disjE conjE)
      assume "within cfg u k (?n + (if e = OExec k then 1 else 0))"
      then show ?thesis by (simp add: add.commute split: if_splits)
    next
      assume "is_ready u k" "e \<noteq> OExec k"
      with run le show ?thesis by (intro disjI1 requeued_now) simp_all
    next
      assume "gone cfg u k" "e \<noteq> OExec k"
      with le show ?thesis by simp
    qed
  qed
qed

text \<open>
  C13. Preemption: in every part of a run in which a process executes more than \<open>time_slot\<close> instructions, it has
  been put back into the ready queue after at most \<open>time_slot\<close> of them; and the counter \<open>time_left\<close> of
  every CPU stays between 0 and \<open>time_slot\<close>.
\<close>

theorem os_time_slice:
  assumes "os_init fr cfg s0" "steps (os_step files fr cfg) s0 tr0 s" "steps (os_step files fr cfg) s tr t" "0 < time_slot cfg" "time_slot cfg < 2147483648"
  shows "(time_slot cfg < int (occurs (OExec k) tr) \<longrightarrow>
      (\<exists>tr1 tr2 u. tr = tr1 @ tr2 \<and> steps (os_step files fr cfg) s tr1 u \<and> steps (os_step files fr cfg) u tr2 t \<and>
        (\<exists>p. p \<in># all_ready (sch u) \<and> pid p = k) \<and> int (occurs (OExec k) tr1) \<le> time_slot cfg)) \<and>
    (\<forall>i < nat (num_cpus cfg). 0 \<le> time_left (cpus t i) \<and> time_left (cpus t i) \<le> time_slot cfg)"
proof -
  have sl: "slot_ok cfg" using assms(4,5) by simp
  have "\<forall>i < nat (num_cpus cfg). slice_ok cfg (cpus s0 i)"
    using assms(1,4) by (auto simp: os_init_def boot_def slice_ok_def Let_def)
  from slice_ok_run [OF assms(2) sl this] have 1: "\<forall>i < nat (num_cpus cfg). slice_ok cfg (cpus s i)" .
  from slice_ok_run [OF assms(3) sl 1] have 2: "\<forall>i < nat (num_cpus cfg). slice_ok cfg (cpus t i)" .
  have "within cfg t k n \<Longrightarrow> n \<le> time_slot cfg" for n
    using 2 by (auto simp: within_def budget_def slice_ok_def split: if_splits)
  with slice_run [OF assms(3) sim.inv_run [OF assms(2,1)] sl 1, of k] 2 show ?thesis
    unfolding requeued_def is_ready_def slice_ok_def by fastforce
qed


section \<open>Witness\<close>

text \<open>One CPU, a slice of one instruction, one process with two.\<close>

definition cfg_slice :: config where
  "cfg_slice = cfg_ex\<lparr>time_slot := 1\<rparr>"

definition files_slice :: "string \<Rightarrow> string option" where
  "files_slice path = Some ''1 2 calc calc''"

definition sched_slice :: "omove list" where
  "sched_slice = take 17 sched_ex @ [MCpu 0, MCpu 0, MCpu 0, MCpu 0, MCpu 0]"

lemma sched_slice_run:
  "\<exists>s0 tr s. os_init fresh_ex cfg_slice s0 \<and> steps (os_step files_slice fresh_ex cfg_slice) s0 tr s \<and> occurs (OExec 1) tr = 2"
  by (rule oplay_reaches [where ms = sched_slice, OF _ fresh_ex_ok]) (code_simp, simp add: config_ok_def cfg_slice_def cfg_ex_def)

theorem os_time_slice_witness:
  "\<exists>s0 tr1 u p. os_init fresh_ex cfg_slice s0 \<and> steps (os_step files_slice fresh_ex cfg_slice) s0 tr1 u \<and> p \<in># all_ready (sch u) \<and>
     pid p = 1 \<and> occurs (OExec 1) tr1 \<le> 1"
proof -
  obtain s0 tr s where r: "os_init fresh_ex cfg_slice s0" "steps (os_step files_slice fresh_ex cfg_slice) s0 tr s" "occurs (OExec 1) tr = 2"
    using sched_slice_run by blast
  from os_time_slice [OF r(1) steps.start r(2), of 1] r(1,3) show ?thesis by (auto simp: cfg_slice_def)
qed

end
