(* ===== verification/Isolation.thy ===== *)
theory Isolation
  imports Cpu
begin

text \<open>
  Isolation of processes: whatever instructions do, no frame of RAM serves two pages. The invariant
  is weaker than \<open>map_ok\<close> and needs nothing from the areas of a process: an entry of the LRU list may
  be stale (its page may have been given another frame since), but a frame it names is at most
  mapped by the page it names. Every instruction keeps it, also when regions overlap, offsets are
  outside their region or a request is refused.
\<close>

section \<open>The invariant\<close>

definition lru_owns :: "paging \<Rightarrow> lru_entry \<Rightarrow> bool" where
  "lru_owns st e \<longleftrightarrow> used_frame st (e_fpn e) \<and> (\<forall>r. present st r \<and> frame_of st r = e_fpn e \<longrightarrow> r = e_pte e)"

definition own_ok :: "int set \<Rightarrow> paging \<Rightarrow> bool" where
  "own_ok H st \<longleftrightarrow> devices_ok st \<and> lru_ok (lru st) \<and> distinct (map e_fpn (lru_es st)) \<and>
     (\<forall>e \<in> set (lru_es st). lru_owns st e \<and> e_fpn e \<notin> H) \<and>
     (\<forall>r. present st r \<longrightarrow> used_frame st (frame_of st r)) \<and>
     (\<forall>r r'. present st r \<and> present st r' \<and> frame_of st r = frame_of st r' \<longrightarrow> r = r') \<and>
     (\<forall>f \<in> H. used_frame st f \<and> (\<forall>r. present st r \<longrightarrow> frame_of st r \<noteq> f))"

lemma own_okD:
  assumes "own_ok H st"
  shows "devices_ok st" "lru_ok (lru st)" "distinct (map e_fpn (lru_es st))"
    "\<And>e. e \<in> set (lru_es st) \<Longrightarrow> lru_owns st e" "\<And>e. e \<in> set (lru_es st) \<Longrightarrow> e_fpn e \<notin> H"
    "\<And>r. present st r \<Longrightarrow> used_frame st (frame_of st r)"
    "\<And>r r'. present st r \<Longrightarrow> present st r' \<Longrightarrow> frame_of st r = frame_of st r' \<Longrightarrow> r = r'"
    "\<And>f. f \<in> H \<Longrightarrow> used_frame st f" "\<And>f r. f \<in> H \<Longrightarrow> present st r \<Longrightarrow> frame_of st r \<noteq> f"
  using assms unfolding own_ok_def by blast+

lemma own_okI:
  assumes "devices_ok st" "lru_ok (lru st)" "distinct (map e_fpn (lru_es st))"
    "\<And>e. e \<in> set (lru_es st) \<Longrightarrow> lru_owns st e" "\<And>e. e \<in> set (lru_es st) \<Longrightarrow> e_fpn e \<notin> H"
    "\<And>r. present st r \<Longrightarrow> used_frame st (frame_of st r)"
    "\<And>r r'. present st r \<Longrightarrow> present st r' \<Longrightarrow> frame_of st r = frame_of st r' \<Longrightarrow> r = r'"
    "\<And>f. f \<in> H \<Longrightarrow> used_frame st f" "\<And>f r. f \<in> H \<Longrightarrow> present st r \<Longrightarrow> frame_of st r \<noteq> f"
  shows "own_ok H st"
  using assms unfolding own_ok_def by blast

lemma map_ok_own: "map_ok H st \<Longrightarrow> own_ok H st"
proof (rule own_okI)
  assume m: "map_ok H st"
  note D = map_okD [OF m]
  show "lru_owns st e" if "e \<in> set (lru_es st)" for e
    using D(4) [OF that] D(6) by (auto simp: lru_owns_def entry_ok_def)
  show "e_fpn e \<notin> H" if "e \<in> set (lru_es st)" for e
    using D(4) [OF that] D(8) [of "e_fpn e" "e_pte e"] by (auto simp: entry_ok_def)
qed (rule map_okD; assumption)+

lemma own_ok_mono: "own_ok H st \<Longrightarrow> H' \<subseteq> H \<Longrightarrow> own_ok H' st"
  unfolding own_ok_def by blast

text \<open>Steps on the devices leave everything alone that the invariant looks at.\<close>

definition same_own :: "paging \<Rightarrow> paging \<Rightarrow> bool" where
  "same_own st st' \<longleftrightarrow> pte_of st' = pte_of st \<and> lru st' = lru st \<and> maxsz (mram st') = maxsz (mram st) \<and>
     free_fp_list (mram st') = free_fp_list (mram st) \<and> maxsz (mswp st') = maxsz (mswp st)"

lemma same_own_refl [simp]: "same_own st st"
  by (simp add: same_own_def)

lemma same_own_trans [trans]: "same_own st st1 \<Longrightarrow> same_own st1 st2 \<Longrightarrow> same_own st st2"
  by (simp add: same_own_def)

lemma same_own_obs:
  assumes "same_own st st'"
  shows "present st' = present st" "frame_of st' = frame_of st" "used_frame st' = used_frame st" "lru_owns st' = lru_owns st"
    "lru_es st' = lru_es st" "frame_in (mswp st') = frame_in (mswp st)" "frame_in (mram st') = frame_in (mram st)"
proof -
  show p: "present st' = present st" "frame_of st' = frame_of st" using assms by (simp_all add: same_own_def present_def frame_of_def fun_eq_iff)
  show u: "used_frame st' = used_frame st" using assms by (auto simp: same_own_def used_frame_def frame_in_def fun_eq_iff)
  show "lru_owns st' = lru_owns st" by (simp add: lru_owns_def p u fun_eq_iff)
qed (use assms in \<open>simp_all add: same_own_def frame_in_def fun_eq_iff\<close>)

lemma own_ok_cong:
  assumes "own_ok H st" "same_own st st'" "devices_ok st'"
  shows "own_ok H st'"
proof -
  note obs = same_own_obs [OF assms(2)]
  have l: "lru st' = lru st" using assms(2) by (simp add: same_own_def)
  show ?thesis using assms(1,3) unfolding own_ok_def obs l by blast
qed

section \<open>Device steps\<close>

lemma swp_get_own:
  assumes "swp_get st = ok (r, g, st')" "devices_ok st"
  shows "same_own st st' \<and> devices_ok st' \<and> (\<forall>k. g = Some k \<longrightarrow> frame_in (mswp st') k)"
  using assms by (auto simp: swp_get_eq same_own_def devices_ok_def split: list.splits)

lemma cp_out_own:
  assumes "cp_out f g st = ok st'" "devices_ok st" "0 \<le> f" "0 \<le> g"
  shows "same_own st st' \<and> devices_ok st'"
proof -
  have "frame_in (mram st) f" "frame_in (mswp st) g"
    using assms swap_cp_page_inside [of "mram st" f "mswp st" g] by (auto simp: cp_out_def devices_ok_def)
  then show ?thesis using assms(1,2) by (auto simp: cp_out_eq same_own_def devices_ok_def)
qed

lemma cp_in_own:
  assumes "cp_in g f st = ok st'" "devices_ok st" "0 \<le> f" "0 \<le> g"
  shows "same_own st st' \<and> devices_ok st' \<and> frame_in (mswp st') g"
proof -
  note i = cp_in_inside [OF assms(1,2,4,3)]
  then show ?thesis using assms(1,2) by (auto simp: cp_in_eq same_own_def devices_ok_def frames_ok_def frame_in_def)
qed

lemma swp_put_own:
  assumes "swp_put f st = ok st'" "devices_ok st" "frame_in (mswp st) f"
  shows "same_own st st' \<and> devices_ok st'"
  using assms by (auto simp: swp_put_eq same_own_def devices_ok_def)

lemma PAGING_PTE_FPN_nonneg [simp]: "0 \<le> PAGING_PTE_FPN w"
  by (simp add: PAGING_PTE_FPN_eq)

lemma ram_write_own:
  assumes "MEMPHY_write (mram st) a v = ok (r, mp)" "devices_ok st"
  shows "same_own st (st\<lparr>mram := mp\<rparr>) \<and> devices_ok (st\<lparr>mram := mp\<rparr>)"
proof -
  have "in_storage (mram st) a" using assms by (auto simp: MEMPHY_write_def devices_ok_def ready_def)
  then show ?thesis using assms by (auto simp: devices_ok_def memphy_ready same_own_def)
qed

lemma ram_read_own:
  assumes "MEMPHY_read (mram st) a = ok (r, d, mp)" "devices_ok st"
  shows "mp = mram st"
proof -
  have "in_storage (mram st) a" using assms by (auto simp: MEMPHY_read_def devices_ok_def ready_def)
  then show ?thesis using assms by (auto simp: devices_ok_def memphy_ready)
qed


section \<open>Steps on page tables and the LRU list\<close>

lemma own_ok_lru:
  assumes "own_ok H st" "lru_ok l" "\<forall>e \<in> set (lru_entries l). lru_owns st e \<and> e_fpn e \<notin> H" "distinct (map e_fpn (lru_entries l))"
  shows "own_ok H (st\<lparr>lru := l\<rparr>)"
proof -
  note D = own_okD [OF assms(1)]
  have "lru_owns (st\<lparr>lru := l\<rparr>) = lru_owns st" by (simp add: lru_owns_def used_frame_def fun_eq_iff)
  then show ?thesis by (intro own_okI) (use D assms(2-) in \<open>simp_all add: devices_ok_def used_frame_def\<close>)
qed

lemma ram_get_own:
  assumes "own_ok H st" "ram_get st = ok (r, fo, st')"
  shows "r = 0 \<and> (\<exists>f. fo = Some f \<and> own_ok (insert f H) st' \<and> f \<notin> H \<and> 0 \<le> f) \<or> r < 0 \<and> fo = None \<and> st' = st"
proof (cases "free_fp_list (mram st)")
  case Nil
  with assms own_okD(1) show ?thesis by (simp add: ram_get_eq)
next
  case (Cons f fs)
  note D = own_okD [OF assms(1)]
  let ?st = "st\<lparr>mram := (mram st)\<lparr>free_fp_list := fs\<rparr>\<rparr>"
  have st': "r = 0" "fo = Some f" "st' = ?st" using assms(2) D(1) Cons by (simp_all add: ram_get_eq)
  have f: "frame_in (mram st) f" "devices_ok ?st" "f \<notin> set fs" using D(1) Cons by (auto simp: devices_ok_def frames_ok_def)
  have nu: "\<not> used_frame st f" using Cons by (simp add: used_frame_def)
  have u: "used_frame ?st x \<longleftrightarrow> used_frame st x \<or> x = f" for x using Cons f by (auto simp: used_frame_def)
  have "own_ok (insert f H) ?st"
  proof (rule own_okI)
    show "lru_owns ?st e" if "e \<in> set (lru_es ?st)" for e using D(4) [of e] that by (simp add: lru_owns_def u)
    show "e_fpn e \<notin> insert f H" if "e \<in> set (lru_es ?st)" for e
      using D(4,5) [of e] that nu by (auto simp: lru_owns_def)
    show "frame_of ?st x \<noteq> g" if "g \<in> insert f H" "present ?st x" for g x
      using that D(6) [of x] D(9) [of g x] nu by auto
    show "used_frame ?st g" if "g \<in> insert f H" for g using that D(8) [of g] by (auto simp: u)
    show "used_frame ?st (frame_of ?st x)" if "present ?st x" for x using that D(6) by (simp add: u)
  qed (use D f in simp_all)
  moreover have "f \<notin> H" using D(8) nu by blast
  ultimately show ?thesis using st' f(1) by (auto simp: frame_in_def)
qed

text \<open>A victim: its frame is mapped by its own page at most and named by no other entry.\<close>

definition floating :: "int set \<Rightarrow> int \<Rightarrow> pte_ref \<Rightarrow> paging \<Rightarrow> bool" where
  "floating H f v st \<longleftrightarrow> used_frame st f \<and> f \<notin> H \<and> f \<notin> e_fpn ` set (lru_es st) \<and>
     (\<forall>r. present st r \<and> frame_of st r = f \<longrightarrow> r = v)"

lemma floating_cong: "floating H f v st \<Longrightarrow> same_own st st' \<Longrightarrow> floating H f v st'"
  using same_own_obs [of st st'] unfolding floating_def by presburger

lemma floating_nonneg: "floating H f v st \<Longrightarrow> 0 \<le> f"
  by (simp add: floating_def used_frame_def frame_in_def)

lemma victim_own:
  assumes "own_ok H st" "lru_victim st = ok (Some (vp, f, v), st')"
  shows "own_ok H st' \<and> floating H f v st'"
proof -
  note D = own_okD [OF assms(1)]
  have "lru_es st \<noteq> []" using lru.victim_none [OF D(2)] assms(2) by (auto simp: lru_victim_def)
  then obtain e es where es: "lru_es st = e # es" by (cases "lru_es st") auto
  obtain l where l: "find_LRU_victim_page (lru st) = ok (Some (e_pgn e, e_fpn e, e_pte e), l)" "lru_ok l" "lru_entries l = es"
    using lru.victim_some [OF D(2) es] by blast
  have st': "f = e_fpn e" "v = e_pte e" "st' = st\<lparr>lru := l\<rparr>" using assms(2) l(1) by (auto simp: lru_victim_def)
  have "own_ok H st'" unfolding st'(3) by (rule own_ok_lru [OF assms(1) l(2)]) (use D(3-5) es l(3) in auto)
  moreover have "floating H f v st'"
    using D(3) D(4,5) [of e] es l(3) by (auto simp: floating_def st' lru_owns_def used_frame_def)
  ultimately show ?thesis ..
qed

lemma victim_keeps:
  assumes "own_ok H st" "lru_victim st = ok (vic, st')"
  shows "own_ok H st'"
proof (cases vic)
  case None
  have "lru_es st = []" using lru.victim_some [OF own_okD(2) [OF assms(1)]] assms(2) None by (cases "lru_es st") (fastforce simp: lru_victim_def)+
  then have "st' = st" using lru.victim_none [OF own_okD(2) [OF assms(1)]] assms(2) by (auto simp: lru_victim_def)
  with assms(1) show ?thesis by simp
next
  case (Some v)
  with assms victim_own show ?thesis by (cases v) auto
qed

lemma swap_out_own:
  assumes "own_ok H st" "floating H f v st" "upd_pte v (\<lambda>w. pte_set_swap w a g) st = ok st'"
  shows "own_ok (insert f H) st' \<and> f \<notin> H \<and> 0 \<le> f \<and> mswp st' = mswp st \<and> devices_ok st'"
proof -
  note D = own_okD [OF assms(1)]
  note F = assms(2) [unfolded floating_def]
  have st': "st' = set_pte v (pte_set_swap (pte_of st v) a g) st" using assms(3) by (auto simp: upd_pte_eq split: if_splits)
  have pr: "present st' x \<longleftrightarrow> x \<noteq> v \<and> present st x" for x by (simp add: st' present_set_pte)
  have fr: "x \<noteq> v \<Longrightarrow> frame_of st' x = frame_of st x" for x by (simp add: st' frame_of_set_pte)
  have u: "used_frame st' = used_frame st" "lru_es st' = lru_es st" "devices_ok st'" using D(1) by (simp_all add: st')
  have "own_ok (insert f H) st'"
  proof (rule own_okI)
    show "lru_owns st' e" if "e \<in> set (lru_es st')" for e
      using D(4) [of e] that by (auto simp: lru_owns_def pr fr u)
    show "e_fpn e \<notin> insert f H" if "e \<in> set (lru_es st')" for e using D(5) [of e] F that by (auto simp: u)
    show "frame_of st' r \<noteq> x" if "x \<in> insert f H" "present st' r" for x r
      using that D(9) [of x r] F by (auto simp: pr fr simp del: split_paired_All)
    show "used_frame st' x" if "x \<in> insert f H" for x using that D(8) [of x] F by (auto simp: u)
    show "r = r'" if "present st' r" "present st' r'" "frame_of st' r = frame_of st' r'" for r r'
      using D(7) [of r r'] that by (auto simp: pr fr)
  qed (use D u(3) in \<open>simp_all add: u pr fr\<close>, simp_all add: st' D)
  then show ?thesis using F floating_nonneg [OF assms(2)] u(3) by (simp add: st')
qed

lemma map_own:
  assumes "own_ok (insert f H) st" "f \<notin> H" "upd_pte r (\<lambda>w. pte_set_fpn w f) st = ok st'"
  shows "own_ok H st' \<and> present st' r \<and> mswp st' = mswp st \<and> devices_ok st'"
proof -
  note D = own_okD [OF assms(1)]
  have t: "in_table r" "st' = set_pte r (pte_set_fpn (pte_of st r) f) st" using assms(3) by (auto simp: upd_pte_eq split: if_splits)
  have b: "0 \<le> f" "f < 8192" using used_frame_bound [OF D(1)] D(8) [of f] by auto
  have pr: "present st' x \<longleftrightarrow> x = r \<or> present st x" for x using t by (simp add: present_set_pte)
  have fr: "frame_of st' x = (if x = r then f else frame_of st x)" for x using b by (simp add: t(2) frame_of_set_pte)
  have u: "used_frame st' = used_frame st" "lru_es st' = lru_es st" "lru st' = lru st" "devices_ok st'" using D(1) by (simp_all add: t(2))
  have "own_ok H st'"
  proof (rule own_okI)
    show "lru_owns st' e" if "e \<in> set (lru_es st')" for e
      using D(4,5) [of e] that by (auto simp: lru_owns_def pr fr u)
    show "e_fpn e \<notin> H" if "e \<in> set (lru_es st')" for e using D(5) [of e] that by (simp add: u)
    show "used_frame st' (frame_of st' x)" if "present st' x" for x using D(6) [of x] D(8) [of f] that by (auto simp: pr fr u)
    show "x = y" if "present st' x" "present st' y" "frame_of st' x = frame_of st' y" for x y
      by (cases "x = r"; cases "y = r") (use that D(7) [of x y] D(9) [of f x] D(9) [of f y] in \<open>simp_all add: pr fr\<close>)
    show "frame_of st' x \<noteq> g" if "g \<in> H" "present st' x" for g x
      using D(9) [of g x] that assms(2) by (auto simp: pr fr)
  qed (use D(1-3,8) u in simp_all)
  with pr u(4) show ?thesis by (simp add: t(2))
qed

lemma add_own:
  assumes "own_ok H st" "present st r" "lru_add r st = ok st'"
  shows "own_ok H st' \<and> st' = st\<lparr>lru := lru st'\<rparr>"
proof -
  note D = own_okD [OF assms(1)]
  let ?e = "\<lparr>e_pte = r, e_fpn = frame_of st r, e_pgn = snd r\<rparr>"
  obtain l where l: "add_LRU_page r (pte_of st r) (snd r) (lru st) = ok l" "lru_ok l" "lru_entries l = insert_page ?e (lru_es st)"
    using lru.add_ok [OF D(2), of r "pte_of st r" "snd r"] unfolding frame_of_def by metis
  have st': "st' = st\<lparr>lru := l\<rparr>" using assms(2,3) l(1) by (auto simp: lru_add_def pte_at_eq present_def)
  have e: "lru_owns st ?e" "frame_of st r \<notin> H" 
    using D(6) [OF assms(2)] D(7) [OF _ assms(2)] D(9) [OF _ assms(2)] unfolding lru_owns_def by (simp, blast)
  have "own_ok H st'" unfolding st'
    by (rule own_ok_lru [OF assms(1) l(2)]) (use D(3-5) e in \<open>auto simp: l(3) insert_page_def\<close>)
  then show ?thesis by (simp add: st')
qed

lemma use_own:
  assumes "own_ok H st" "lru_use w st = ok st'"
  shows "own_ok H st'"
proof -
  note D = own_okD [OF assms(1)]
  have ne: "lru_es st \<noteq> []" using lru.use_null [OF D(2)] assms(2) by (auto simp: lru_use_def)
  obtain l where l: "update_LRU_lst w (lru st) = ok l" "lru_ok l" "lru_entries l = touch (PAGING_PTE_FPN w) (lru_es st)"
    using lru.use_ok [OF D(2) ne, of w] by metis
  have "st' = st\<lparr>lru := l\<rparr>" using assms(2) l(1) by (simp add: lru_use_def)
  then show ?thesis by (simp, intro own_ok_lru [OF assms(1) l(2)]) (use D(3-5) in \<open>simp_all add: l(3)\<close>)
qed


section \<open>Page faults\<close>

lemma own_ok_locks [simp]:
  "own_ok H (st\<lparr>lock_vm := b\<rparr>) = own_ok H st" "own_ok H (st\<lparr>lock_mm := b\<rparr>) = own_ok H st" "own_ok H (MEM_unlock st) = own_ok H st"
  by (simp_all add: own_ok_def devices_ok_def lru_owns_def used_frame_def MEM_unlock_def)

text \<open>The start of an eviction: victim, swap frame, copy.\<close>

lemma evict_own:
  assumes "own_ok H st" "lru_victim st = ok (Some (vp, f, v), st1)" "swp_get st1 = ok (r, Some g, st2)" "cp_out f g st2 = ok st3"
  shows "own_ok H st3 \<and> floating H f v st3"
proof -
  have 1: "own_ok H st1" "floating H f v st1" using victim_own [OF assms(1,2)] by simp_all
  have 2: "same_own st1 st2" "devices_ok st2" "0 \<le> g" using swp_get_own [OF assms(3) own_okD(1) [OF 1(1)]] by (auto simp: frame_in_def)
  have 3: "same_own st2 st3" "devices_ok st3" using cp_out_own [OF assms(4) 2(2) floating_nonneg [OF 1(2)] 2(3)] by simp_all
  have "same_own st1 st3" using 2(1) 3(1) by (rule same_own_trans)
  with own_ok_cong [OF 1(1) _ 3(2)] floating_cong [OF 1(2)] show ?thesis by simp
qed

lemma load_own:
  assumes "own_ok H st" "cp_in t f st = ok st'" "0 \<le> f" "0 \<le> t"
  shows "own_ok H st' \<and> same_own st st' \<and> frame_in (mswp st') t"
  using cp_in_own [OF assms(2) own_okD(1) [OF assms(1)] assms(3,4)] own_ok_cong [OF assms(1)] by blast

lemma put_own:
  assumes "own_ok H st" "swp_put t st = ok st'" "frame_in (mswp st) t"
  shows "own_ok H st' \<and> present st' = present st"
  using swp_put_own [OF assms(2) own_okD(1) [OF assms(1)] assms(3)] own_ok_cong [OF assms(1)] same_own_obs(1) [of st st'] by blast

lemma own_fault_free:
  assumes "own_ok H st" "ram_get st = ok (0, Some f, st1)" "cp_in t f st1 = ok st2" "upd_pte r (\<lambda>w. pte_set_fpn w f) st2 = ok st3" "0 \<le> t"
  shows "own_ok H st3 \<and> present st3 r"
proof -
  have 1: "own_ok (insert f H) st1" "f \<notin> H" "0 \<le> f" using ram_get_own [OF assms(1,2)] by auto
  have 2: "own_ok (insert f H) st2" using load_own [OF 1(1) assms(3) 1(3) assms(5)] by simp
  show ?thesis using map_own [OF 2 1(2) assms(4)] by simp
qed

lemma own_fault_evict:
  assumes "own_ok H st" "lru_victim st = ok (Some (vp, f, v), st1)" "swp_get st1 = ok (x, Some g, st2)" "cp_out f g st2 = ok st3"
    and "cp_in t f st3 = ok st4" "upd_pte v (\<lambda>w. pte_set_swap w a g) st4 = ok st5" "upd_pte r (\<lambda>w. pte_set_fpn w f) st5 = ok st6"
    and "swp_put t st6 = ok st7" "0 \<le> t"
  shows "own_ok H st7 \<and> present st7 r"
proof -
  have 3: "own_ok H st3" "floating H f v st3" using evict_own [OF assms(1-4)] by simp_all
  have 4: "own_ok H st4" "same_own st3 st4" "frame_in (mswp st4) t"
    using load_own [OF 3(1) assms(5) floating_nonneg [OF 3(2)] assms(9)] by simp_all
  have 5: "own_ok (insert f H) st5" "f \<notin> H" "mswp st5 = mswp st4"
    using swap_out_own [OF 4(1) floating_cong [OF 3(2) 4(2)] assms(6)] by simp_all
  have 6: "own_ok H st6" "present st6 r" "mswp st6 = mswp st4" using map_own [OF 5(1,2) assms(7)] 5(3) by simp_all
  show ?thesis using put_own [OF 6(1) assms(8)] 6(2,3) 4(3) by simp
qed

lemma own_getpage:
  assumes "own_ok H st" "pg_getpage P pg st = ok (ret, fo, st')"
  shows "own_ok H st'"
proof -
  let ?st = "st\<lparr>lock_vm := True\<rparr>" and ?r = "(P, pg)"
  have 0: "own_ok H ?st" using assms(1) by simp
  obtain w where w: "pte_at ?r ?st = ok w" "in_table ?r" "w = pte_of ?st ?r"
    using assms(2) by (auto simp: pg_getpage_def MEM_lock_def pte_at_eq split: if_splits)
  have fin: "own_ok H st'" if "own_ok H st7" "present st7 ?r" "bindR (lru_add ?r st7) (\<lambda>st.
      bindR (pte_at ?r st) (\<lambda>pte. ok (0, Some (PAGING_PTE_FPN pte), MEM_unlock st))) = ok (ret, fo, st')" for st7
    using that add_own [OF that(1,2)] by auto
  show ?thesis
  proof (cases "bit w 31")
    case True
    then have "present ?st ?r" using w(2,3) by (simp add: present_def)
    then show ?thesis using fin [OF 0] assms(2) w(1) True by (auto simp: pg_getpage_def MEM_lock_def)
  next
    case False
    obtain x ft st1 where g: "ram_get ?st = ok (x, ft, st1)" using assms(2) w(1) False by (auto simp: pg_getpage_def MEM_lock_def)
    from ram_get_own [OF 0 g] consider (free) f where "x = 0" "ft = Some f" | (full) "x < 0" "st1 = ?st" by auto
    then show ?thesis
    proof cases
      case free
      then obtain st2 st3 where s: "cp_in (PAGING_PTE_FPN w) f st1 = ok st2" "upd_pte ?r (\<lambda>w. pte_set_fpn w f) st2 = ok st3"
        "bindR (lru_add ?r st3) (\<lambda>st. bindR (pte_at ?r st) (\<lambda>pte. ok (0, Some (PAGING_PTE_FPN pte), MEM_unlock st))) = ok (ret, fo, st')"
        using assms(2) w(1) False g by (auto simp: pg_getpage_def MEM_lock_def)
      from own_fault_free [OF 0 g [unfolded free] s(1,2)] fin [OF _ _ s(3)] show ?thesis by simp
    next
      case full
      obtain vic st2 y go st3 where v: "lru_victim ?st = ok (vic, st2)" "swp_get st2 = ok (y, go, st3)"
        using assms(2) w(1) False g full by (auto simp: pg_getpage_def MEM_lock_def Let_def)
      have 2: "own_ok H st2" using victim_keeps [OF 0 v(1)] .
      show ?thesis
      proof (cases "y < 0")
        case True
        then have "st' = MEM_unlock st3" using assms(2) w(1) False g full v by (auto simp: pg_getpage_def MEM_lock_def Let_def)
        then show ?thesis using own_ok_cong [OF 2] swp_get_own [OF v(2) own_okD(1) [OF 2]] by simp
      next
        case y: False
        obtain vp f v g' st4 st5 st6 st7 st8 where vic: "vic = Some (vp, f, v)" and s: "go = Some g'" "cp_out f g' st3 = ok st4" "cp_in (PAGING_PTE_FPN w) f st4 = ok st5"
          "upd_pte v (\<lambda>w. pte_set_swap w index_of_active_mswp g') st5 = ok st6" "upd_pte ?r (\<lambda>w. pte_set_fpn w f) st6 = ok st7"
          "swp_put (PAGING_PTE_FPN w) st7 = ok st8"
          "bindR (lru_add ?r st8) (\<lambda>st. bindR (pte_at ?r st) (\<lambda>pte. ok (0, Some (PAGING_PTE_FPN pte), MEM_unlock st))) = ok (ret, fo, st')"
          using assms(2) w(1) False g full v y by (auto simp: pg_getpage_def MEM_lock_def Let_def)
        from own_fault_evict [OF 0 v(1) [unfolded vic] v(2) [unfolded s(1)] s(2-6)] fin [OF _ _ s(7)] show ?thesis by simp
      qed
    qed
  qed
qed

lemma own_ram_io:
  "own_ok H st \<Longrightarrow> MEMPHY_write (mram st) a v = ok (r, mp) \<Longrightarrow> own_ok H (st\<lparr>mram := mp\<rparr>)"
  "own_ok H st \<Longrightarrow> MEMPHY_read (mram st) a = ok (r, d, mp) \<Longrightarrow> own_ok H (st\<lparr>mram := mp\<rparr>)"
  using ram_write_own [of st a v r mp] ram_read_own [of st a r d mp] own_ok_cong [of H st "st\<lparr>mram := mp\<rparr>"] own_okD(1) [of H st]
  by auto

lemma own_setval:
  assumes "own_ok H st" "pg_setval P a v vid st = ok (r, st')"
  shows "own_ok H st'"
proof -
  obtain x fo st1 where g: "pg_getpage P (PAGING_PGN a) st = ok (x, fo, st1)" using assms(2) by (auto simp: pg_setval_def Let_def)
  have "own_ok H st1" using own_getpage [OF assms(1) g] .
  with assms(2) g own_ram_io(1) show ?thesis by (auto simp: pg_setval_def Let_def split: if_splits)
qed

lemma own_getval:
  assumes "own_ok H st" "pg_getval P a vid st = ok (r, d, st')"
  shows "own_ok H st'"
proof -
  obtain x fo st1 where g: "pg_getpage P (PAGING_PGN a) st = ok (x, fo, st1)" using assms(2) by (auto simp: pg_getval_def Let_def)
  have "own_ok H st1" using own_getpage [OF assms(1) g] .
  with assms(2) g own_ram_io(2) show ?thesis by (auto simp: pg_getval_def Let_def split: if_splits)
qed

section \<open>Memory maps\<close>

lemma own_set_mm:
  assumes "own_ok H st" "pgd mm = pgd (mm_of st P)"
  shows "own_ok H (set_mm P mm st)"
proof (rule own_ok_cong [OF assms(1)])
  show "same_own st (set_mm P mm st)" using assms(2) by (auto simp: same_own_def set_mm_def pte_of_def fun_eq_iff)
  show "devices_ok (set_mm P mm st)" using own_okD(1) [OF assms(1)] by (simp add: devices_ok_def set_mm_def)
qed

lemma get_free_pgd: "get_free_vmrg_area mm vid sz = ok (r, rg, mm') \<Longrightarrow> pgd mm' = pgd mm"
  by (auto simp: get_free_vmrg_area_def Let_def split: if_splits)

lemma set_symrg_pgd: "set_symrg mm i rg = ok mm' \<Longrightarrow> pgd mm' = pgd mm"
  by (auto simp: set_symrg_def)

lemma enlist_freerg_pgd: "enlist_vm_freerg_list mm vid rg = ok (r, mm') \<Longrightarrow> pgd mm' = pgd mm"
  by (auto simp: enlist_vm_freerg_list_def split: if_splits)

lemmas mm_pgd = get_free_pgd set_symrg_pgd enlist_freerg_pgd

section \<open>Allocation\<close>

lemma own_alloc_pages:
  assumes "own_ok (H \<union> set fs) st" "distinct fs" "set fs \<inter> H = {}" "alloc_pages_range P n fs st = ok (r, fs', st')"
  shows "own_ok (H \<union> set fs') st' \<and> distinct fs' \<and> set fs' \<inter> H = {}"
  using assms
proof (induction n arbitrary: fs st)
  case (Suc n)
  obtain x fo st1 where g: "ram_get st = ok (x, fo, st1)" using Suc.prems(4) by auto
  have "\<exists>f st2. alloc_pages_range P n (f # fs) st2 = ok (r, fs', st') \<and> own_ok (insert f (H \<union> set fs)) st2 \<and> f \<notin> H \<union> set fs"
    using ram_get_own [OF Suc.prems(1) g]
  proof (elim disjE conjE exE)
    fix f assume "x = 0" "fo = Some f" "own_ok (insert f (H \<union> set fs)) st1" "f \<notin> H \<union> set fs"
    then show ?thesis using Suc.prems(4) g by auto
  next
    assume full: "x < 0" "st1 = st"
    obtain vic st2 y go st3 where v: "lru_victim st = ok (vic, st2)" "swp_get st2 = ok (y, go, st3)" "\<not> y < 0"
      using Suc.prems(4) g full by (auto split: if_splits)
    then obtain vp f v g' st4 st5 where vic: "vic = Some (vp, f, v)" and s: "go = Some g'" "cp_out f g' st3 = ok st4" "upd_pte v (\<lambda>w. pte_set_swap w index_of_active_mswp g') st4 = ok st5"
      "alloc_pages_range P n (f # fs) st5 = ok (r, fs', st')"
      using Suc.prems(4) g full by auto
    have "own_ok (H \<union> set fs) st4" "floating (H \<union> set fs) f v st4" using evict_own [OF Suc.prems(1) v(1) [unfolded vic] v(2) [unfolded s(1)] s(2)] by simp_all
    from swap_out_own [OF this s(3)] s(4) show ?thesis by blast
  qed
  then obtain f st2 where f: "alloc_pages_range P n (f # fs) st2 = ok (r, fs', st')" "own_ok (insert f (H \<union> set fs)) st2" "f \<notin> H \<union> set fs" by blast
  have "own_ok (H \<union> set (f # fs)) st2" "distinct (f # fs)" "set (f # fs) \<inter> H = {}" using f(2,3) Suc.prems(2,3) by auto
  from Suc.IH [OF this f(1)] show ?case .
qed simp

lemma own_vmap_loop:
  assumes "own_ok (H \<union> set fps) st" "distinct fps" "set fps \<inter> H = {}" "vmap_loop P vid pg n fps st = ok (r, st')"
  shows "own_ok H st'"
  using assms
proof (induction n arbitrary: fps st)
  case 0
  then show ?case using own_ok_mono [of "H \<union> set fps" st H] by simp
next
  case (Suc n)
  show ?case
  proof (cases fps)
    case Nil
    with Suc.prems show ?thesis by simp
  next
    case (Cons f fs)
    let ?p = "if vid = 0 then pg + int n else pg - int n"
    obtain st1 st2 where s: "upd_pte (P, ?p) (\<lambda>w. pte_set_fpn w f) st = ok st1" "lru_add (P, ?p) st1 = ok st2"
      "vmap_loop P vid pg n fs st2 = ok (r, st')"
      using Suc.prems(4) Cons by (auto simp: Let_def)
    have f: "own_ok (insert f (H \<union> set fs)) st" "f \<notin> H \<union> set fs" using Suc.prems(1-3) Cons by auto
    have 1: "own_ok (H \<union> set fs) st1" "present st1 (P, ?p)" using map_own [OF f s(1)] by simp_all
    have 2: "own_ok (H \<union> set fs) st2" using add_own [OF 1 s(2)] by simp
    show ?thesis by (rule Suc.IH [OF 2 _ _ s(3)]) (use Suc.prems(2,3) Cons in auto)
  qed
qed

lemma own_vmap_page_range:
  assumes "own_ok (H \<union> set fps) st" "distinct fps" "set fps \<inter> H = {}" "vmap_page_range P a n fps vid st = ok (r, rg, st')"
  shows "own_ok H st'"
  using assms(4) own_vmap_loop [OF assms(1-3)] by (auto simp: vmap_page_range_def split: if_splits)

lemma own_vm_map_ram:
  assumes "own_ok H st" "vm_map_ram P vid a n st = ok (r, st')"
  shows "own_ok H st'"
proof -
  obtain x fs st1 where a: "alloc_pages_range P (nat n) [] (st\<lparr>lock_mm := True\<rparr>) = ok (x, fs, st1)"
    using assms(2) by (auto simp: vm_map_ram_def)
  have 1: "own_ok (H \<union> set fs) st1" "distinct fs" "set fs \<inter> H = {}"
    using own_alloc_pages [of H "[]" "st\<lparr>lock_mm := True\<rparr>", OF _ _ _ a] assms(1) by simp_all
  show ?thesis
  proof (cases "x < 0")
    case True
    with assms(2) a have "st' = st1\<lparr>lock_mm := False\<rparr>" by (auto simp: vm_map_ram_def)
    then show ?thesis using own_ok_mono [OF 1(1), of H] by simp
  next
    case False
    with assms(2) a obtain b q rg st2 where "vmap_page_range P b n fs vid st1 = ok (q, rg, st2)" "st' = st2\<lparr>lock_mm := False\<rparr>"
      by (auto simp: vm_map_ram_def split: if_splits)
    then show ?thesis using own_vmap_page_range [OF 1] by simp
  qed
qed

lemma own_vm_map_ram_mm:
  assumes "vm_map_ram P vid a n (set_mm P mm st) = ok (r, st')" "own_ok H st" "pgd mm = pgd (mm_of st P)"
  shows "own_ok H st'"
  using own_vm_map_ram [OF own_set_mm [OF assms(2,3)] assms(1)] .

lemma own_inc_vma_limit:
  assumes "own_ok H st" "inc_vma_limit P vid sz st = ok (r, st')"
  shows "own_ok H st'"
  using assms by (auto simp: inc_vma_limit_def Let_def intro!: own_set_mm dest!: own_vm_map_ram_mm [OF _ assms(1)] split: if_splits)

lemma own_realloc_page:
  assumes "own_ok H st" "realloc_page P i st = ok (r, st')"
  shows "own_ok H st'"
proof -
  let ?r = "(P, i)"
  obtain w where w: "pte_at ?r st = ok w" using assms(2) by (auto simp: realloc_page_def)
  show ?thesis
  proof (cases "bit w 31")
    case True
    then show ?thesis using assms w use_own by (auto simp: realloc_page_def)
  next
    case False
    obtain vic st1 y go st2 where v: "lru_victim st = ok (vic, st1)" "swp_get st1 = ok (y, go, st2)"
      using assms(2) w False by (auto simp: realloc_page_def Let_def)
    have 1: "own_ok H st1" using victim_keeps [OF assms(1) v(1)] .
    show ?thesis
    proof (cases "y < 0")
      case True
      then have "st' = st2" using assms(2) w False v by (auto simp: realloc_page_def Let_def)
      then show ?thesis using own_ok_cong [OF 1] swp_get_own [OF v(2) own_okD(1) [OF 1]] by simp
    next
      case y: False
      obtain vp f v g st3 st4 st5 st6 st7 st8 where vic: "vic = Some (vp, f, v)" and s: "go = Some g" "cp_out f g st2 = ok st3"
        "upd_pte v (\<lambda>w. pte_set_swap w index_of_active_mswp g) st3 = ok st4" "cp_in (PAGING_PTE_FPN w) f st4 = ok st5"
        "upd_pte ?r (\<lambda>w. pte_set_fpn w f) st5 = ok st6" "lru_add ?r st6 = ok st7" "swp_put (PAGING_PTE_FPN w) st7 = ok st8"
        "lru_use w st8 = ok st'"
        using assms(2) w False v y by (auto simp: realloc_page_def Let_def)
      have 3: "own_ok H st3" "floating H f v st3" using evict_own [OF assms(1) v(1) [unfolded vic] v(2) [unfolded s(1)] s(2)] by simp_all
      have 4: "own_ok (insert f H) st4" "f \<notin> H" "0 \<le> f" using swap_out_own [OF 3 s(3)] by simp_all
      have 5: "own_ok (insert f H) st5" "frame_in (mswp st5) (PAGING_PTE_FPN w)" using load_own [OF 4(1) s(4) 4(3)] by simp_all
      have 6: "own_ok H st6" "present st6 ?r" "mswp st6 = mswp st5" using map_own [OF 5(1) 4(2) s(5)] by simp_all
      have 7: "own_ok H st7" "st7 = st6\<lparr>lru := lru st7\<rparr>" using add_own [OF 6(1,2) s(6)] by simp_all
      have "mswp st7 = mswp st5" using 6(3) by (subst 7(2)) simp
      then have "own_ok H st8" using put_own [OF 7(1) s(7)] 5(2) by simp
      then show ?thesis using s(8) by (rule use_own)
    qed
  qed
qed

lemma own_realloc_pages: "own_ok H st \<Longrightarrow> realloc_pages P ps st = ok (r, st') \<Longrightarrow> own_ok H st'"
proof (induction ps arbitrary: st)
  case (Cons i ps)
  obtain q st1 where 1: "realloc_page P i st = ok (q, st1)" "st' = st1 \<or> realloc_pages P ps st1 = ok (r, st')"
    using Cons.prems by (auto split: if_splits)
  from own_realloc_page [OF Cons.prems(1) 1(1)] 1(2) Cons.IH show ?case by blast
qed simp

lemma own_alloc_at_brk:
  assumes "own_ok H st" "alloc_at_brk P vid rgid sz st = ok (r, a, st')"
  shows "own_ok H st'"
  using assms by (auto simp: alloc_at_brk_def Let_def set_symrg_pgd intro!: own_set_mm dest!: own_inc_vma_limit [OF assms(1)]
      split: if_splits prod.splits)

lemma own_do_alloc:
  assumes "own_ok H st" "do_alloc P vid rgid sz st = ok (r, a, st')"
  shows "own_ok H st'"
proof -
  obtain found rg mm where g: "get_free_vmrg_area (mm_of st P) vid sz = ok (found, rg, mm)"
    using assms(2) by (auto simp: do_alloc_def)
  let ?st = "set_mm P mm st"
  have 0: "own_ok H ?st" using own_set_mm [OF assms(1)] mm_pgd(1) [OF g] by simp
  show ?thesis
  proof (cases "found = 0")
    case True
    with assms(2) g obtain mm2 where m: "set_symrg mm rgid \<lparr>vmaid = vid, rg_start = fst rg, rg_end = snd rg\<rparr> = ok mm2"
      "realloc_pages P (region_pages vid rg) (set_mm P mm2 ?st) = ok (r, st')"
      by (auto simp: do_alloc_def Let_def)
    have "own_ok H (set_mm P mm2 ?st)" using own_set_mm [OF 0] mm_pgd(2) [OF m(1)] by simp
    then show ?thesis using m(2) by (rule own_realloc_pages)
  next
    case False
    with assms(2) g have "alloc_at_brk P vid rgid sz ?st = ok (r, a, st')" by (simp add: do_alloc_def)
    with 0 show ?thesis by (rule own_alloc_at_brk)
  qed
qed

section \<open>The other instructions\<close>

lemma own_zero_loop: "own_ok H st \<Longrightarrow> zero_loop P vid as st = ok st' \<Longrightarrow> own_ok H st'"
  by (induction as arbitrary: st) (auto dest: own_setval)

lemma own_do_free:
  assumes "own_ok H st" "do_free P rgid st = ok (r, st')"
  shows "own_ok H st'"
proof (cases "st' = st")
  case False
  obtain vid as st1 i rg mm x fr mm' where z: "zero_loop P vid as st = ok st1" "set_symrg (mm_of st1 P) i rg = ok mm"
    "enlist_vm_freerg_list mm vid fr = ok (x, mm')" "st' = set_mm P mm' st1"
    using assms(2) False by (auto simp: do_free_def Let_def split: if_splits)
  have "own_ok H st1" using assms(1) z(1) by (rule own_zero_loop)
  then show ?thesis using own_set_mm [of H st1 mm' P] mm_pgd(2) [OF z(2)] mm_pgd(3) [OF z(3)] by (simp add: z(4))
qed (use assms in simp)

lemma own_do_read: "own_ok H st \<Longrightarrow> do_read P rgid off st = ok (r, d, st') \<Longrightarrow> own_ok H st'"
  by (auto simp: do_read_def split: option.splits dest!: own_getval [rotated] use_own [rotated])

lemma own_do_write: "own_ok H st \<Longrightarrow> do_write P rgid off v st = ok (r, st') \<Longrightarrow> own_ok H st'"
  by (auto simp: do_write_def split: option.splits dest!: own_setval [rotated] use_own [rotated])

lemma own_exec: "own_ok H st \<Longrightarrow> exec ins p st = ok (r, st') \<Longrightarrow> own_ok H st'"
  by (cases "opcode ins")
    (auto simp: exec_def pgalloc_def pgmalloc_def pgfree_data_def pgread_def pgwrite_def
      dest: own_do_alloc own_do_free own_do_read own_do_write)

lemma own_run: "own_ok H st \<Longrightarrow> run p st = ok (r, p', st') \<Longrightarrow> own_ok H st'"
  by (auto simp: run_def Let_def split: if_splits dest: own_exec)

end
