(* ===== verification/Os_Mem.thy ===== *)
theory Os_Mem
  imports Os_Slice Isolation
begin

text \<open>
  The memory of a running simulation, and that it never gets stuck. From the devices that \<open>main\<close>
  formats, every step of every thread keeps the ownership of frames, whatever the programs do; and
  while \<open>main\<close> has not ended, some thread can go on.
\<close>

section \<open>Ownership from the start\<close>

text \<open>Memory whose devices the system can use: RAM within the reach of a frame number, two frames at least
  on RAM and on the active swap device.\<close>

definition memory_ok :: "config \<Rightarrow> bool" where
  "memory_ok cfg \<longleftrightarrow> 512 \<le> memramsz cfg \<and> memramsz cfg \<le> 2097152 \<and> (\<exists>sz szs. memswpsz cfg = sz # szs \<and> 512 \<le> sz)"

text \<open>\<open>init_mm\<close> takes a page table from \<open>malloc\<close> and does not clear it: no entry may have the present bit.\<close>

definition clean_tables :: "fresh \<Rightarrow> bool" where
  "clean_tables fr \<longleftrightarrow> (\<forall>i g. \<not> PAGING_PTE_PAGE_PRESENT (fr_pgd fr i g)) \<and> (\<forall>P g. \<not> PAGING_PTE_PAGE_PRESENT (pgd (fr_mm0 fr P) g))"

lemma boot_own:
  assumes "boot fr cfg = ok s" "memory_ok cfg" "clean_tables fr"
  shows "own_ok {} (pgs s)"
proof -
  obtain sz szs where z: "memswpsz cfg = sz # szs" "512 \<le> sz" using assms(2) by (auto simp: memory_ok_def)
  have r: "512 \<le> memramsz cfg" "memramsz cfg \<le> 2097152" using assms(2) by (simp_all add: memory_ok_def)
  have p: "\<not> present (pgs s) x" for x
    using assms(1,3) by (auto simp: boot_def clean_tables_def present_def pte_of_def Let_def)
  have l: "lru_ok (lru (pgs s))" "lru_es (pgs s) = []" using assms(1)
    by (auto simp: boot_def Let_def lru_ok_def dll_def lru_entries_def lru_nodes_def lru_walk.simps)
  have d: "devices_ok (pgs s)" using assms(1) z(1) init_memphy_list [OF r(1)] init_memphy_list [OF z(2)] r(2)
    by (auto simp: boot_def Let_def devices_ok_def ready_def frames_ok_def frame_in_def)
  show ?thesis by (rule own_okI) (simp_all add: p l d)
qed

text \<open>A new process starts with an empty page table.\<close>

lemma own_new_mm:
  assumes "own_ok H st" "\<forall>g. \<not> PAGING_PTE_PAGE_PRESENT (pgd mm g)"
  shows "own_ok H (set_mm P mm st)"
proof -
  note D = own_okD [OF assms(1)]
  let ?st = "set_mm P mm st"
  have pr: "present ?st r \<longleftrightarrow> fst r \<noteq> P \<and> present st r" for r using assms(2) by (simp add: present_def pte_of_def set_mm_def)
  have fr: "fst r \<noteq> P \<Longrightarrow> frame_of ?st r = frame_of st r" for r by (simp add: frame_of_def pte_of_def set_mm_def)
  have u: "used_frame ?st = used_frame st" "lru_es ?st = lru_es st" "lru ?st = lru st" "devices_ok ?st"
    using D(1) by (simp_all add: set_mm_def used_frame_def devices_ok_def fun_eq_iff)
  show ?thesis
  proof (rule own_okI)
    show "lru_owns ?st e" if "e \<in> set (lru_es ?st)" for e using D(4) [of e] that unfolding lru_owns_def u pr using fr by metis
    show "r = r'" if "present ?st r" "present ?st r'" "frame_of ?st r = frame_of ?st r'" for r r'
      using D(7) [of r r'] that by (simp add: pr fr)
  qed (use D(2,3,5,6,8,9) u in \<open>simp_all add: pr fr\<close>)
qed

lemma own_cpu_step:
  assumes "own_ok H (pgs s)" "cpu_routine cfg i s = ok (e, t)"
  shows "own_ok H (pgs t)"
  using assms own_run [OF assms(1)]
  by (auto simp: cpu_routine_def cpu_get_def set_cpu_def Let_def split: cpu_pc.splits option.splits if_splits)

lemma own_ld_step:
  assumes "own_ok H (pgs s)" "clean_tables fr" "ld_routine files fr cfg s = ok (e, t)"
  shows "own_ok H (pgs t)"
  using assms own_new_mm [OF assms(1)]
  by (auto simp: ld_routine_def set_ld_def Let_def init_mm_def clean_tables_def split: ld_pc.splits option.splits if_splits)

lemma own_os_step: "os_step files fr cfg s e t \<Longrightarrow> clean_tables fr \<Longrightarrow> own_ok H (pgs s) \<Longrightarrow> own_ok H (pgs t)"
  by (cases rule: os_step.cases) (auto dest: own_cpu_step own_ld_step)

definition mem_init :: "fresh \<Rightarrow> config \<Rightarrow> os \<Rightarrow> bool" where
  "mem_init fr cfg s \<longleftrightarrow> boot fr cfg = ok s \<and> memory_ok cfg \<and> clean_tables fr"

interpretation osm: traced_system "os_step files fr cfg" "mem_init fr cfg"
  "\<lambda>tr s. clean_tables fr \<and> own_ok {} (pgs s)"
  for files fr cfg
  by unfold_locales (auto simp: mem_init_def dest: boot_own own_os_step)

section \<open>Progress\<close>

text \<open>A thread whose device works and that has not ended can take its next step, or faults.\<close>

definition faulting :: "(string \<Rightarrow> string option) \<Rightarrow> fresh \<Rightarrow> config \<Rightarrow> os \<Rightarrow> bool" where
  "faulting files fr cfg s \<longleftrightarrow> (\<exists>i < nat (num_cpus cfg). cpu_enabled i s \<and> (\<exists>x. cpu_routine cfg i s = Inl x)) \<or>
     ld_enabled cfg s \<and> (\<exists>x. ld_routine files fr cfg s = Inl x)"

lemma thread_goes_on:
  assumes "ld_enabled cfg s \<or> (\<exists>i < nat (num_cpus cfg). cpu_enabled i s)"
  shows "faulting files fr cfg s \<or> (\<exists>e t. os_step files fr cfg s e t \<and> e \<noteq> OTimer Spurious)"
  using assms
proof
  assume l: "ld_enabled cfg s"
  show ?thesis
  proof (cases "ld_routine files fr cfg s")
    case (Inr y)
    then obtain e t where r: "ld_routine files fr cfg s = ok (e, t)" by (cases y) simp
    have "e \<noteq> OTimer Spurious" using r by (auto simp: ld_routine_def Let_def split: ld_pc.splits option.splits if_splits)
    with os_step.ld [OF l r] show ?thesis by blast
  qed (use l in \<open>auto simp: faulting_def\<close>)
next
  assume "\<exists>i < nat (num_cpus cfg). cpu_enabled i s"
  then obtain i where i: "i < nat (num_cpus cfg)" "cpu_enabled i s" by blast
  show ?thesis
  proof (cases "cpu_routine cfg i s")
    case (Inr y)
    then obtain e t where r: "cpu_routine cfg i s = ok (e, t)" by (cases y) simp
    have "e \<noteq> OTimer Spurious" using r by (auto simp: cpu_routine_def cpu_get_def Let_def split: cpu_pc.splits option.splits if_splits)
    with os_step.cpu [OF i r] show ?thesis by blast
  qed (use i in \<open>auto simp: faulting_def\<close>)
qed

lemma working_enabled:
  assumes "link_inv cfg tr s" "d \<in> set (dev_list (tms s))" "dpc (tms s) d = Working"
  shows "ld_enabled cfg s \<or> (\<exists>i < nat (num_cpus cfg). cpu_enabled i s)"
proof -
  have "d < nat (num_cpus cfg) \<or> d = ld_dev cfg" using link_invD(5) [OF assms(1)] assms(2) by (auto simp: ld_dev_def split: if_splits)
  then show ?thesis
    using link_invD(1) [OF assms(1), of d] link_invD(2) [OF assms(1)] assms(3) by (auto simp: dev_link_def cpu_enabled_def ld_enabled_def)
qed

lemma detached_ended:
  assumes "link_inv cfg tr s" "\<forall>d \<in> set (dev_list (tms s)). dpc (tms s) d = Detached" "mainpc s = MJoin"
  shows "threads_ended cfg s"
  using link_invD(1) [OF assms(1)] link_invD(2) [OF assms(1)] link_invD(5) [OF assms(1)] assms(2,3)
  by (auto simp: dev_link_def threads_ended_def ld_dev_def)

lemma resting_goes_on:
  assumes "link_inv cfg tr s" "at_rest (tms s)" "mainpc s \<noteq> MEnd" "\<not> (ld_enabled cfg s \<or> (\<exists>i < nat (num_cpus cfg). cpu_enabled i s))"
  shows "\<exists>e t. os_step files fr cfg s e t \<and> e \<noteq> OTimer Spurious"
proof -
  have x: "tpc (tms s) = TExit" using assms(2,4) working_enabled [OF assms(1)] by (auto simp: at_rest_def)
  show ?thesis
  proof (cases "mainpc s")
    case MJoin
    have "\<not> timer_stop (tms s)" using link_invD(4) [OF assms(1)] MJoin by simp
    then have "\<forall>d \<in> set (dev_list (tms s)). dpc (tms s) d = Detached"
      using x link_timer_inv [OF assms(1)] by (auto simp: timer_inv_def pc_inv_def dev_inv_def)
    with os_step.join [OF MJoin] detached_ended [OF assms(1) _ MJoin] show ?thesis by (fastforce simp: threads_ended_def)
  next
    case MStop
    from os_step.finish [OF this x] show ?thesis by blast
  qed (use assms(3) in simp)
qed

section \<open>Properties\<close>

text \<open>
  C4. Processes are isolated in every run of the simulator with one CPU, whatever their programs do (overlapping
  or freed regions, refused requests, swapping) and however the CPU interleaves with the loader and the
  timer: no two pages, of one process or of two, are mapped to the same frame of RAM, and a mapped frame
  lies inside RAM and is never on the list of free frames. The conditions are: one CPU, so that no
  instruction runs inside another one (a step of the model is a whole instruction; ALLOC evicts and
  reuses pages without a lock, so this does not carry over to several CPUs); page tables that come from
  \<open>malloc\<close> without a present bit (\<open>init_mm\<close> does not clear them); RAM of 512 bytes to 2 MB and a first
  swap device of 512 bytes at least.
\<close>

theorem os_memory_isolation:
  assumes "boot fr cfg = ok s0" "num_cpus cfg = 1" "clean_tables fr" "memory_ok cfg" "steps (os_step files fr cfg) s0 tr s"
  shows "(\<forall>P a Q b. present (pgs s) (P, a) \<and> present (pgs s) (Q, b) \<and> frame_of (pgs s) (P, a) = frame_of (pgs s) (Q, b) \<longrightarrow> P = Q \<and> a = b) \<and>
    (\<forall>P a. present (pgs s) (P, a) \<longrightarrow> frame_in (mram (pgs s)) (frame_of (pgs s) (P, a)) \<and>
       frame_of (pgs s) (P, a) \<notin> set (free_fp_list (mram (pgs s))))"
proof -
  have "mem_init fr cfg s0" using assms(1,3,4) by (simp add: mem_init_def)
  then have o: "own_ok {} (pgs s)" using osm.inv_run [OF assms(5)] by simp
  show ?thesis
    using own_okD(6) [OF o] own_okD(7) [OF o] unfolding used_frame_def by blast
qed

text \<open>
  C14. No deadlock: in every state a run reaches, \<open>main\<close> has ended, or a step other than a spurious wakeup is
  possible, or the next step of a thread that may go on faults. In particular the threads never all
  wait in the barrier, and \<open>main\<close> never waits for the timer forever.
\<close>

theorem os_no_deadlock:
  assumes "os_init fr cfg s0" "steps (os_step files fr cfg) s0 tr s" "mainpc s \<noteq> MEnd"
  shows "(\<exists>e t. os_step files fr cfg s e t \<and> e \<noteq> OTimer Spurious) \<or>
    (\<exists>i < nat (num_cpus cfg). cpu_enabled i s \<and> (\<exists>x. cpu_routine cfg i s = Inl x)) \<or>
    (ld_enabled cfg s \<and> (\<exists>x. ld_routine files fr cfg s = Inl x))"
proof -
  have "os_inv fr cfg tr s" by (rule sim.inv_run [OF assms(2,1)])
  then have l: "link_inv cfg tr s" by (simp add: os_inv_def)
  have "faulting files fr cfg s \<or> (\<exists>e t. os_step files fr cfg s e t \<and> e \<noteq> OTimer Spurious)"
  proof (cases "at_rest (tms s)")
    case True
    then show ?thesis using thread_goes_on [of cfg s files fr] resting_goes_on [OF l _ assms(3), of files fr] by blast
  next
    case False
    from quiet_step_enabled [OF link_timer_inv [OF l] this] obtain e t where "quiet e" "timer_step (tms s) e t" by blast
    moreover have "e \<noteq> Spurious" using \<open>quiet e\<close> by (auto simp: quiet_def)
    ultimately show ?thesis using os_step.timer [of s e t] by blast
  qed
  then show ?thesis unfolding faulting_def by blast
qed

section \<open>Witnesses\<close>

text \<open>One process that allocates a page of the stack.\<close>

definition files_mem :: "string \<Rightarrow> string option" where
  "files_mem path = Some ''1 1 alloc 100 0''"

lemma sched_mem_run:
  "\<exists>s0 tr s. os_init fresh_ex cfg_ex s0 \<and> steps (os_step files_mem fresh_ex cfg_ex) s0 tr s \<and> present (pgs s) (1, 0)"
  by (rule oplay_reaches [where ms = "take 7 sched_ex", OF _ fresh_ex_ok]) (code_simp, simp add: config_ok_def cfg_ex_def)

theorem os_memory_isolation_witness:
  "\<exists>s0 tr s. boot fresh_ex cfg_ex = ok s0 \<and> steps (os_step files_mem fresh_ex cfg_ex) s0 tr s \<and> present (pgs s) (1, 0) \<and>
     frame_in (mram (pgs s)) (frame_of (pgs s) (1, 0)) \<and> (\<forall>Q b. present (pgs s) (Q, b) \<and> frame_of (pgs s) (Q, b) = frame_of (pgs s) (1, 0) \<longrightarrow> Q = 1)"
proof -
  obtain s0 tr s where r: "os_init fresh_ex cfg_ex s0" "steps (os_step files_mem fresh_ex cfg_ex) s0 tr s" "present (pgs s) (1, 0)"
    using sched_mem_run by blast
  have m: "boot fresh_ex cfg_ex = ok s0" using r(1) by (simp add: os_init_def)
  have "num_cpus cfg_ex = 1" "clean_tables fresh_ex" "memory_ok cfg_ex"
    by (simp_all add: memory_ok_def clean_tables_def fresh_ex_def cfg_ex_def)
  from os_memory_isolation [OF m this r(2)] m r(2,3) show ?thesis
    by (intro exI [of _ s0] exI [of _ tr] exI [of _ s]) blast
qed

theorem os_no_deadlock_witness:
  "\<exists>s0 tr s. steps (os_step files_ex fresh_ex cfg_ex) s0 tr s \<and> cpu_pc (cpus s 0) = CEnd \<and> mainpc s \<noteq> MEnd \<and>
     ((\<exists>e t. os_step files_ex fresh_ex cfg_ex s e t \<and> e \<noteq> OTimer Spurious) \<or>
      (\<exists>i < nat (num_cpus cfg_ex). cpu_enabled i s \<and> (\<exists>x. cpu_routine cfg_ex i s = Inl x)) \<or>
      (ld_enabled cfg_ex s \<and> (\<exists>x. ld_routine files_ex fresh_ex cfg_ex s = Inl x)))"
proof -
  have "\<exists>s0 tr s. os_init fresh_ex cfg_ex s0 \<and> steps (os_step files_ex fresh_ex cfg_ex) s0 tr s \<and> cpu_pc (cpus s 0) = CEnd \<and> mainpc s \<noteq> MEnd"
    by (rule oplay_reaches [where ms = sched_ex, OF _ fresh_ex_ok]) (code_simp, simp add: config_ok_def cfg_ex_def)
  then obtain s0 tr s where r: "os_init fresh_ex cfg_ex s0" "steps (os_step files_ex fresh_ex cfg_ex) s0 tr s"
    "cpu_pc (cpus s 0) = CEnd" "mainpc s \<noteq> MEnd" by blast
  from os_no_deadlock [OF r(1,2,4)] r(2-4) show ?thesis by blast
qed

end
