(* ===== verification/Shapes.thy ===== *)
theory Shapes
  imports Os_Mem
begin

text \<open>
  The shape of memory maps. \<open>init_mm\<close> links two areas, the stack and the heap; every later operation finds
  an area by walking the list and a free region by walking the list of its area, and trusts the area
  number kept in a region. Every instruction keeps the shape of a map, so in every run each walk finds
  its area and the ends of the areas stay on page boundaries.
\<close>

section \<open>Well-formed maps\<close>

text \<open>An area: the regions of its free list carry its number and the list is never empty.\<close>

definition vma_shaped :: "vm_area_struct \<Rightarrow> bool" where
  "vma_shaped v \<longleftrightarrow> vm_freerg_list v \<noteq> [] \<and> (\<forall>rg \<in> set (vm_freerg_list v). vmaid rg = vm_id v)"

text \<open>The areas \<open>vma0\<close>, \<open>vma1\<close>, their ends and the symbol table; \<open>ht\<close> is the start of the heap.\<close>

definition mm_shaped :: "int \<Rightarrow> mm_struct \<Rightarrow> bool" where
  "mm_shaped ht mm \<longleftrightarrow> map vm_id (mmap mm) = [0, 1] \<and> map vm_start (mmap mm) = [0, ht] \<and> (\<forall>v \<in> set (mmap mm). vma_shaped v) \<and>
     (\<forall>v \<in> set (mmap mm). vm_end v = vm_start v \<or> 256 dvd vm_end v) \<and> (\<forall>i. vmaid (symrgtbl mm i) \<in> {0, 1})"

lemma mm_shapedD:
  assumes "mm_shaped ht mm"
  shows "map vm_id (mmap mm) = [0, 1]" "map vm_start (mmap mm) = [0, ht]" "\<And>v. v \<in> set (mmap mm) \<Longrightarrow> vma_shaped v"
    "\<And>v. v \<in> set (mmap mm) \<Longrightarrow> vm_end v = vm_start v \<or> 256 dvd vm_end v" "\<And>i. vmaid (symrgtbl mm i) \<in> {0, 1}"
  using assms by (simp_all add: mm_shaped_def)

lemma mm_shaped_cong: "mm_shaped ht mm \<Longrightarrow> mmap mm' = mmap mm \<Longrightarrow> symrgtbl mm' = symrgtbl mm \<Longrightarrow> mm_shaped ht mm'"
  by (simp add: mm_shaped_def)

lemma mm_shaped_vma:
  assumes "mm_shaped ht mm" "get_vma_by_num mm vid = Some v" "0 \<le> vid"
  shows "v \<in> set (mmap mm)" "vma_shaped v" "vm_id v = vid" "vid \<in> {0, 1}"
proof -
  have v: "nat vid < length (mmap mm)" "v = mmap mm ! nat vid" using assms(2) by (auto simp: get_vma_by_num_eq split: if_splits)
  have l: "length (mmap mm) = 2" "map vm_id (mmap mm) = [0, 1]"
    using assms(1) by (auto simp: mm_shaped_def map_eq_Cons_conv)
  show m: "v \<in> set (mmap mm)" using v by simp
  then show "vma_shaped v" using assms(1) by (simp add: mm_shaped_def)
  show i: "vid \<in> {0, 1}" using v(1) l(1) assms(3) by auto
  have "vm_id v = map vm_id (mmap mm) ! nat vid" using v by simp
  with l(2) i show "vm_id v = vid" by auto
qed

lemma mm_shaped_found:
  assumes "mm_shaped ht mm" "vid \<in> {0, 1}"
  shows "\<exists>v. get_vma_by_num mm vid = Some v \<and> vm_id v = vid \<and> vm_start v = (if vid = 0 then 0 else ht) \<and> vma_shaped v \<and>
    (vm_end v = vm_start v \<or> 256 dvd vm_end v)"
proof -
  obtain v0 v1 where "mmap mm = [v0, v1]" "vm_id v0 = 0" "vm_id v1 = 1" "vm_start v0 = 0" "vm_start v1 = ht"
    using assms(1) by (auto simp: mm_shaped_def map_eq_Cons_conv)
  with assms show ?thesis by (auto simp: mm_shaped_def get_vma_by_num_eq)
qed

lemma set_vma_shaped:
  assumes "mm_shaped ht mm" "get_vma_by_num mm vid = Some v" "vma_shaped w" "vm_id w = vm_id v" "vm_start w = vm_start v"
    and "vm_end w = vm_end v \<or> 256 dvd vm_end w"
  shows "mm_shaped ht (set_vma mm vid w)"
proof -
  let ?l = "(mmap mm)[nat vid := w]"
  have v: "nat vid < length (mmap mm)" "v = mmap mm ! nat vid" "v \<in> set (mmap mm)"
    using assms(2) by (auto simp: get_vma_by_num_eq split: if_splits)
  have "map vm_id ?l = map vm_id (mmap mm)" "map vm_start ?l = map vm_start (mmap mm)"
    using assms(4,5) v by (simp_all add: map_update list_update_same_conv)
  moreover have "vma_shaped u \<and> (vm_end u = vm_start u \<or> 256 dvd vm_end u)" if "u \<in> set ?l" for u
  proof -
    have "u = w \<or> u \<in> set (mmap mm)" using that set_update_subset_insert [of "mmap mm" "nat vid" w] by blast
    moreover have "vm_end w = vm_start w \<or> 256 dvd vm_end w" using assms(5,6) mm_shapedD(4) [OF assms(1) v(3)] by auto
    ultimately show ?thesis using assms(3) mm_shapedD(3,4) [OF assms(1)] by blast
  qed
  ultimately show ?thesis using mm_shapedD(1,2,5) [OF assms(1)] unfolding set_vma_def mm_shaped_def by simp
qed

lemma set_symrg_shaped:
  assumes "set_symrg mm i rg = ok mm'" "mm_shaped ht mm" "vmaid rg \<in> {0, 1}"
  shows "mm_shaped ht mm'"
proof -
  have "mm' = mm\<lparr>symrgtbl := (symrgtbl mm)(i := rg)\<rparr>" using assms(1) by (auto simp: set_symrg_def)
  moreover have "vmaid (((symrgtbl mm)(i := rg)) j) \<in> {0, 1}" for j using mm_shapedD(5) [OF assms(2)] assms(3) by simp
  ultimately show ?thesis using mm_shapedD(1-4) [OF assms(2)] by (simp add: mm_shaped_def [of ht "_\<lparr>symrgtbl := _\<rparr>"])
qed

text \<open>What \<open>init_mm\<close> builds. It enlists the first region on a list pointer it did not set, in front of whatever
  is there.\<close>

lemma init_mm_shaped:
  assumes "\<forall>rg \<in> set fr0. vmaid rg = 0" "\<forall>rg \<in> set fr1. vmaid rg = 1" "\<forall>i. vmaid (symrgtbl mm i) \<in> {0, 1}"
  shows "mm_shaped (u32 (vmem - 1)) (init_mm pgd0 fr0 fr1 mm vmem)"
  using assms by (simp add: init_mm_def mm_shaped_def vma_shaped_def init_vm_rg_def enlist_vm_rg_node_def Let_def)

section \<open>Regions\<close>

text \<open>The search for a free region keeps the area number of every node and never empties the list.\<close>

lemma free_scan_shaped:
  assumes "free_scan fits slack block left nr bef rest = Some r" "\<forall>rg. vmaid (left rg) = vmaid rg"
    and "\<forall>rg \<in> set bef. vmaid rg = vid" "\<forall>rg \<in> set rest. vmaid rg = vid"
  shows "(\<forall>rg \<in> set (snd r). vmaid rg = vid) \<and> (bef \<noteq> [] \<or> rest \<noteq> [] \<longrightarrow> snd r \<noteq> [])"
  using assms
proof (induction rule: free_scan_induct)
  case (step scan fits slack block left nr bef rest r)
  note IH = step(1) [OF _ step(3)]
  show ?case
  proof (cases rest)
    case Nil
    with step show ?thesis by auto
  next
    case (Cons rg nxt)
    then have rg: "vmaid rg = vid" "\<forall>x \<in> set nxt. vmaid x = vid" using step(5) by simp_all
    show ?thesis
    proof (cases "fits rg")
      case True
      obtain rest1 where r1: "scan fits slack block left (block rg) bef rest1 = Some r" "\<forall>x \<in> set rest1. vmaid x = vid" "rest1 \<noteq> []"
        using step(2,3) rg Cons True by (auto split: if_splits list.splits)
      from IH [OF r1(1) step(4) r1(2)] r1(3) show ?thesis by simp
    next
      case False
      with step(2) Cons have "scan fits slack block left nr (rg # bef) nxt = Some r" by simp
      from IH [OF this] step(4) rg show ?thesis by simp
    qed
  qed
qed

lemma get_free_shaped:
  assumes "get_free_vmrg_area mm vid sz = ok (r, nr, mm')" "mm_shaped ht mm" "vid \<in> {0, 1}"
  shows "mm_shaped ht mm'"
proof -
  obtain v where v: "get_vma_by_num mm vid = Some v" using assms(1) by (auto simp: get_free_vmrg_area_def)
  have t: "vma_shaped v" using mm_shaped_vma(2) [OF assms(2) v] assms(3) by auto
  then have "vm_freerg_list v \<noteq> []" by (simp add: vma_shaped_def)
  with assms(1) v obtain rgs where s: "free_scan (rg_fits vid sz) (rg_slack vid sz) (rg_block vid sz) (rg_left vid sz) (u64 (- 1), u64 (- 1)) []
      (vm_freerg_list v) = Some (nr, rgs)" "mm' = set_vma mm vid (v\<lparr>vm_freerg_list := rgs\<rparr>)"
    by (auto simp: get_free_vmrg_area_def Let_def)
  have "(\<forall>rg \<in> set rgs. vmaid rg = vm_id v) \<and> rgs \<noteq> []"
    using free_scan_shaped [OF s(1), of "vm_id v"] t by (simp add: vma_shaped_def rg_left_def)
  with set_vma_shaped [OF assms(2) v, of "v\<lparr>vm_freerg_list := rgs\<rparr>"] s(2) show ?thesis by (simp add: vma_shaped_def)
qed

lemma enlist_shaped:
  assumes "enlist_vm_freerg_list mm vid rg = ok (r, mm')" "mm_shaped ht mm" "vmaid rg = vid" "0 \<le> vid"
  shows "mm_shaped ht mm'"
proof -
  obtain v where v: "get_vma_by_num mm vid = Some v" using assms(1) by (auto simp: enlist_vm_freerg_list_def)
  let ?w = "v\<lparr>vm_freerg_list := rg # vm_freerg_list v\<rparr>"
  have "vma_shaped ?w" using mm_shaped_vma(2,3) [OF assms(2) v assms(4)] assms(3) by (simp add: vma_shaped_def)
  then have "mm_shaped ht (set_vma mm vid ?w)" by (intro set_vma_shaped [OF assms(2) v]) simp_all
  moreover have "mm' = mm \<or> mm' = set_vma mm vid ?w" using assms(1) v by (auto simp: enlist_vm_freerg_list_def split: if_splits)
  ultimately show ?thesis using assms(2) by blast
qed

section \<open>Instructions\<close>

lemma keeps_maps: "(\<And>P. keeps P st st') \<Longrightarrow> mmap (mm_of st' q) = mmap (mm_of st q) \<and> symrgtbl (mm_of st' q) = symrgtbl (mm_of st q)"
  unfolding keeps_def by (metis add.commute less_irrefl zless_add1_eq)

lemma keeps_shaped: "(\<And>P. keeps P st st') \<Longrightarrow> mm_shaped ht (mm_of st q) \<Longrightarrow> mm_shaped ht (mm_of st' q)"
  using keeps_maps [of st st' q] mm_shaped_cong by blast

lemma set_mm_of [simp]: "mm_of (set_mm P mm st) P = mm"
  by (simp add: set_mm_def)

text \<open>Frames are found or the run faults, so the mapping of new pages never reports a failure.\<close>

lemma alloc_pages_ret: "alloc_pages_range P n fs st = ok (r, fs', st') \<Longrightarrow> r = 0"
  by (induction n arbitrary: fs st) (auto split: if_splits)

lemma vm_map_ram_ret: "vm_map_ram P vid a n st = ok (r, st') \<Longrightarrow> r = 0"
  by (auto simp: vm_map_ram_def dest: alloc_pages_ret split: if_splits)

lemma vm_map_ram_shaped: "vm_map_ram P vid a n st = ok (r, st') \<Longrightarrow> mm_shaped ht (mm_of st q) \<Longrightarrow> mm_shaped ht (mm_of st' q)"
  by (rule keeps_shaped) (auto intro: keeps_vm_map_ram)

lemma align_dvd [simp]: "256 dvd PAGING_PAGE_ALIGNSZ x" "256 dvd u64 (PAGING_PAGE_ALIGNSZ x - PAGING_PAGESZ)"
proof -
  have u: "256 dvd y \<Longrightarrow> 256 dvd u64 y" for y by (simp add: u64_def dvd_mod)
  show a: "256 dvd PAGING_PAGE_ALIGNSZ x" unfolding PAGING_PAGE_ALIGNSZ_def by (rule u) (simp add: PAGING_PAGESZ_def)
  show "256 dvd u64 (PAGING_PAGE_ALIGNSZ x - PAGING_PAGESZ)" by (rule u) (use a in \<open>simp add: PAGING_PAGESZ_def\<close>)
qed

lemma set_end_shaped:
  assumes "mm_shaped ht mm" "get_vma_by_num mm vid = Some v" "0 \<le> vid"
  shows "256 dvd e \<Longrightarrow> mm_shaped ht (set_vma mm vid (v\<lparr>vm_end := e\<rparr>))" "mm_shaped ht (set_vma mm vid (v\<lparr>sbrk := e\<rparr>))"
  by (rule set_vma_shaped [OF assms(1,2)]; use mm_shaped_vma(2) [OF assms] in \<open>simp add: vma_shaped_def\<close>)+

lemma inc_vma_limit_shaped:
  assumes "inc_vma_limit P vid sz st = ok (r, st')" "mm_shaped ht (mm_of st P)" "0 \<le> vid"
  shows "mm_shaped ht (mm_of st' P)"
proof -
  obtain v where v: "get_vma_by_num (mm_of st P) vid = Some v" using assms(1) by (auto simp: inc_vma_limit_def)
  let ?e = "if vid = 0 then PAGING_PAGE_ALIGNSZ (u64 (sbrk v + sz)) else u64 (PAGING_PAGE_ALIGNSZ (u64 (sbrk v - sz)) - PAGING_PAGESZ)"
  let ?st = "set_mm P (set_vma (mm_of st P) vid (v\<lparr>vm_end := ?e\<rparr>)) st"
  have e: "mm_shaped ht (mm_of ?st P)" using set_end_shaped(1) [OF assms(2) v assms(3), of ?e] by simp
  have no: "\<not> q < 0" if "vm_map_ram P vid a n st1 = ok (q, st2)" for a n st1 q st2 using vm_map_ram_ret [OF that] by simp
  have "st' = st \<or> (\<exists>a n q. vm_map_ram P vid a n ?st = ok (q, st'))"
    using assms(1) v no by (fastforce simp: inc_vma_limit_def Let_def split: if_splits)
  then show ?thesis using assms(2) vm_map_ram_shaped [OF _ e] by blast
qed

lemma brk_symrg_shaped:
  assumes "set_symrg (set_vma mm vid (v\<lparr>sbrk := brk\<rparr>)) rgid \<lparr>vmaid = vid, rg_start = a, rg_end = b\<rparr> = ok mm'"
    and "get_vma_by_num mm vid = Some v" "mm_shaped ht mm" "vid \<in> {0, 1}"
  shows "mm_shaped ht mm'"
  by (rule set_symrg_shaped [OF assms(1) set_end_shaped(2) [OF assms(3,2)]]) (use assms(4) in auto)

lemma alloc_at_brk_shaped:
  assumes "alloc_at_brk P vid rgid sz st = ok (r, a, st')" "mm_shaped ht (mm_of st P)" "vid \<in> {0, 1}"
  shows "mm_shaped ht (mm_of st' P)"
proof -
  have "0 \<le> vid" using assms(3) by auto
  have limit: "mm_shaped ht (mm_of st1 P)" if "inc_vma_limit P vid sz st = ok (x, st1)" for x st1
    by (rule inc_vma_limit_shaped [OF that assms(2) \<open>0 \<le> vid\<close>])
  have mark: "mm_shaped ht mm" if "set_symrg (set_vma (mm_of st1 P) vid (v\<lparr>sbrk := brk\<rparr>)) rgid \<lparr>vmaid = vid, rg_start = c, rg_end = b\<rparr> = ok mm"
    "get_vma_by_num (mm_of st1 P) vid = Some v" "mm_shaped ht (mm_of st1 P)" for st1 v brk c b mm
    by (rule brk_symrg_shaped [OF that assms(3)])
  show ?thesis using assms(1,2) limit mark by (fastforce simp: alloc_at_brk_def Let_def split: if_splits prod.splits)
qed

lemma do_alloc_shaped:
  assumes "do_alloc P vid rgid sz st = ok (r, a, st')" "mm_shaped ht (mm_of st P)" "vid \<in> {0, 1}"
  shows "mm_shaped ht (mm_of st' P)"
proof -
  obtain found rg mm where g: "get_free_vmrg_area (mm_of st P) vid sz = ok (found, rg, mm)"
    using assms(1) by (auto simp: do_alloc_def)
  note t = get_free_shaped [OF g assms(2,3)]
  show ?thesis
  proof (cases "found = 0")
    case True
    with assms(1) g obtain mm2 where m: "set_symrg mm rgid \<lparr>vmaid = vid, rg_start = fst rg, rg_end = snd rg\<rparr> = ok mm2"
      "realloc_pages P (region_pages vid rg) (set_mm P mm2 (set_mm P mm st)) = ok (r, st')"
      by (auto simp: do_alloc_def Let_def)
    have "mm_shaped ht mm2" using set_symrg_shaped [OF m(1) t] assms(3) by simp
    then show ?thesis using keeps_shaped [OF keeps_realloc_pages [OF m(2)], of ht P] by simp
  next
    case False
    with assms(1) g have "alloc_at_brk P vid rgid sz (set_mm P mm st) = ok (r, a, st')" by (simp add: do_alloc_def)
    from alloc_at_brk_shaped [OF this _ assms(3)] t show ?thesis by simp
  qed
qed

lemma do_free_shaped:
  assumes "do_free P rgid st = ok (r, st')" "mm_shaped ht (mm_of st P)"
  shows "mm_shaped ht (mm_of st' P)"
proof (cases "st' = st")
  case False
  obtain i rg as st1 mm x mm' where z: "symrg_at (mm_of st P) i = ok rg" "zero_loop P (vmaid rg) as st = ok st1"
    "set_symrg (mm_of st1 P) i (rg\<lparr>rg_start := 0, rg_end := 0\<rparr>) = ok mm"
    "enlist_vm_freerg_list mm (vmaid rg) \<lparr>vmaid = vmaid rg, rg_start = rg_start rg, rg_end = rg_end rg\<rparr> = ok (x, mm')" "st' = set_mm P mm' st1"
    using assms(1) False by (auto simp: do_free_def Let_def split: if_splits)
  have rg: "vmaid rg \<in> {0, 1}" using z(1) assms(2) by (auto simp: symrg_at_def mm_shaped_def)
  have "mm_shaped ht (mm_of st1 P)" using keeps_shaped [OF keeps_zero_loop [OF z(2)] assms(2)] .
  then have "mm_shaped ht mm" using set_symrg_shaped [OF z(3)] rg by simp
  then show ?thesis using enlist_shaped [OF z(4)] rg z(5) by auto
qed (use assms in simp)

lemma exec_shaped:
  assumes "exec ins p st = ok (r, st')" "mm_shaped ht (mm_of st q)"
  shows "mm_shaped ht (mm_of st' q)"
proof (cases "q = pid p")
  case True
  have r: "mm_shaped ht (mm_of st' q)" if "do_read (pid p) i off st = ok (a, d, st')" for i off a d
    using keeps_shaped [OF keeps_do_read [OF that] assms(2)] .
  have w: "mm_shaped ht (mm_of st' q)" if "do_write (pid p) i off v st = ok (a, st')" for i off v a
    using keeps_shaped [OF keeps_do_write [OF that] assms(2)] .
  show ?thesis using assms r w unfolding True
    by (cases "opcode ins") (auto simp: exec_def pgalloc_def pgmalloc_def pgfree_data_def pgread_def pgwrite_def
      dest: do_alloc_shaped do_free_shaped)
next
  case False
  with keeps_exec [OF assms(1)] mm_shaped_cong [OF assms(2)] show ?thesis by (simp add: keeps_def)
qed

lemma run_shaped: "run p st = ok (r, p', st') \<Longrightarrow> mm_shaped ht (mm_of st q) \<Longrightarrow> mm_shaped ht (mm_of st' q)"
  by (auto simp: run_def Let_def split: if_splits dest: exec_shaped)

section \<open>Runs\<close>

text \<open>What \<open>malloc\<close> leaves in a new map: an area number in every symbol, and on the list pointer of a new area
  only nodes of that area (a NULL pointer, for one).\<close>

definition fresh_shaped :: "fresh \<Rightarrow> bool" where
  "fresh_shaped fr \<longleftrightarrow> (\<forall>i j. vmaid (symrgtbl (fr_mm fr i) j) \<in> {0, 1}) \<and>
     (\<forall>i. (\<forall>rg \<in> set (fr_rg fr i 0). vmaid rg = 0) \<and> (\<forall>rg \<in> set (fr_rg fr i 1). vmaid rg = 1))"

definition heap_top :: "config \<Rightarrow> int" where
  "heap_top cfg = u32 (u32 (cfg_vmemsz cfg) - 1)"

definition shape_inv :: "config \<Rightarrow> os_event list \<Rightarrow> os \<Rightarrow> bool" where
  "shape_inv cfg tr s \<longleftrightarrow> (\<forall>k \<in> set (loads tr). mm_shaped (heap_top cfg) (mm_of (pgs s) k))"

lemma shape_inv_cpu:
  assumes "shape_inv cfg tr s" "cpu_routine cfg i s = ok (e, t)"
  shows "shape_inv cfg (tr @ [e]) t"
proof -
  have "loads (tr @ [e]) = loads tr"
    using assms(2) by (auto simp: cpu_routine_def cpu_get_def Let_def split: cpu_pc.splits option.splits if_splits)
  moreover have "mm_shaped (heap_top cfg) (mm_of (pgs t) k)" if "mm_shaped (heap_top cfg) (mm_of (pgs s) k)" for k
    using assms(2) that run_shaped [OF _ that]
    by (auto simp: cpu_routine_def cpu_get_def set_cpu_def Let_def split: cpu_pc.splits option.splits if_splits)
  ultimately show ?thesis using assms(1) by (simp add: shape_inv_def)
qed

lemma shape_inv_ld:
  assumes "shape_inv cfg tr s" "ld_routine files fr cfg s = ok (e, t)" "fresh_shaped fr"
  shows "shape_inv cfg (tr @ [e]) t"
proof -
  let ?i = "ld_i (ldr s)"
  let ?mm = "init_mm (fr_pgd fr ?i) (fr_rg fr ?i 0) (fr_rg fr ?i 1) (fr_mm fr ?i) (u32 (cfg_vmemsz cfg))"
  have m: "mm_shaped (heap_top cfg) ?mm" unfolding heap_top_def using assms(3) by (intro init_mm_shaped) (simp_all add: fresh_shaped_def)
  have "(\<forall>p. e \<noteq> OLoad p) \<and> pgs t = pgs s \<or> (\<exists>p. e = OLoad p \<and> pgs t = set_mm (pid p) ?mm (pgs s))"
    using assms(2) by (auto simp: ld_routine_def set_ld_def Let_def split: ld_pc.splits option.splits if_splits)
  then show ?thesis
  proof (elim disjE conjE exE)
    assume "\<forall>p. e \<noteq> OLoad p" "pgs t = pgs s"
    with assms(1) show ?thesis by (auto simp: shape_inv_def split: os_event.splits)
  next
    fix p assume "e = OLoad p" "pgs t = set_mm (pid p) ?mm (pgs s)"
    with assms(1) m show ?thesis by (auto simp: shape_inv_def set_mm_def)
  qed
qed

lemma shape_inv_step:
  assumes "shape_inv cfg tr s" "os_step files fr cfg s e t" "fresh_shaped fr"
  shows "shape_inv cfg (tr @ [e]) t"
  using assms(2)
proof cases
  case cpu
  then show ?thesis using shape_inv_cpu [OF assms(1)] by blast
next
  case ld
  then show ?thesis using shape_inv_ld [OF assms(1) _ assms(3)] by blast
qed (use assms(1) in \<open>auto simp: shape_inv_def\<close>)

interpretation shp: traced_system "os_step files fr cfg" "\<lambda>s. boot fr cfg = ok s \<and> fresh_shaped fr"
  "\<lambda>tr s. shape_inv cfg tr s \<and> fresh_shaped fr"
  for files fr cfg
  by unfold_locales (auto simp: shape_inv_def [of _ "[]"] dest: shape_inv_step)

section \<open>Properties\<close>

text \<open>
  C15. Every memory map keeps the shape that \<open>init_mm\<close> gives it. In every run of the simulator, for every loaded
  process and for the area numbers 0 and 1, \<open>get_vma_by_num\<close> finds an area with that number (never NULL),
  whose start is still 0 for the stack and \<open>vmemsz - 1\<close> for the heap, whose end is still its start or
  lies on a page boundary, and whose free list has a node and holds only nodes of that area; every
  symbol carries the number of one of the two areas, so the area READ, WRITE and FREE look up exists.
  Hypotheses: the \<open>malloc\<close>ed symbol table holds only the area numbers 0 and 1, and the list pointer of a new
  area, which \<open>init_mm\<close> does not set, leads to no node of another area.
\<close>

theorem os_maps_well_formed:
  assumes "boot fr cfg = ok s0" "steps (os_step files fr cfg) s0 tr s" "fresh_shaped fr" "k \<in> set (loads tr)"
  shows "(\<forall>vid \<in> {0, 1}. \<exists>v. get_vma_by_num (mm_of (pgs s) k) vid = Some v \<and> vm_id v = vid \<and>
      vm_start v = (if vid = 0 then 0 else u32 (u32 (cfg_vmemsz cfg) - 1)) \<and> (vm_end v = vm_start v \<or> 256 dvd vm_end v) \<and>
      vm_freerg_list v \<noteq> [] \<and> (\<forall>rg \<in> set (vm_freerg_list v). vmaid rg = vid)) \<and>
    (\<forall>i. vmaid (symrgtbl (mm_of (pgs s) k) i) \<in> {0, 1})"
proof -
  have "shape_inv cfg tr s" using shp.inv_run [OF assms(2)] assms(1,3) by simp
  then have m: "mm_shaped (heap_top cfg) (mm_of (pgs s) k)" using assms(4) by (simp add: shape_inv_def)
  then have "\<forall>i. vmaid (symrgtbl (mm_of (pgs s) k) i) \<in> {0, 1}" by (simp add: mm_shaped_def)
  with mm_shaped_found [OF m] show ?thesis unfolding vma_shaped_def heap_top_def by metis
qed

section \<open>Witness\<close>

theorem os_maps_well_formed_witness:
  "\<exists>s0 tr s v. steps (os_step files_mem fresh_ex cfg_ex) s0 tr s \<and> present (pgs s) (1, 0) \<and>
     get_vma_by_num (mm_of (pgs s) 1) 0 = Some v \<and> (vm_end v = vm_start v \<or> 256 dvd vm_end v) \<and> vm_freerg_list v \<noteq> []"
proof -
  have "\<exists>s0 tr s. os_init fresh_ex cfg_ex s0 \<and> steps (os_step files_mem fresh_ex cfg_ex) s0 tr s \<and> present (pgs s) (1, 0) \<and> 1 \<in> set (loads tr)"
    by (rule oplay_reaches [where ms = "take 7 sched_ex", OF _ fresh_ex_ok]) (code_simp, simp add: config_ok_def cfg_ex_def)
  then obtain s0 tr s where r: "os_init fresh_ex cfg_ex s0" "steps (os_step files_mem fresh_ex cfg_ex) s0 tr s" "present (pgs s) (1, 0)" "1 \<in> set (loads tr)"
    by blast
  have "boot fresh_ex cfg_ex = ok s0" "fresh_shaped fresh_ex" using r(1) by (simp_all add: os_init_def fresh_shaped_def fresh_ex_def)
  from os_maps_well_formed [OF this(1) r(2) this(2) r(4)] r(2,3) show ?thesis by blast
qed

end
