(* ===== verification/Races.thy ===== *)
theory Races
  imports Isolation Traces
begin

text \<open>
  Two CPUs inside memory instructions at the same time. \<open>pg_setval\<close> and \<open>pg_getval\<close> of \<open>src/mm-vm.c\<close> hold the lock
  \<open>MEM_in_use\<close> only inside \<open>pg_getpage\<close>: the access to the frame it returned and the update of the LRU
  list come after the unlock, each under a lock of its own. An access is therefore three steps: checks
  and \<open>pg_getpage\<close>, the device, the LRU list. Here steps of several READ and WRITE instructions
  interleave in any order.
\<close>

section \<open>Accesses in steps\<close>

datatype acc_kind = Rd | Wr byte

datatype acc_pc =
    APage
  | ADevice int int
  | AUse int
  | ADone int

record acc_th =
  acc_pid :: int
  acc_rg :: int
  acc_off :: int
  acc_kind :: acc_kind
  acc_pc :: acc_pc
  acc_data :: "byte option"

text \<open>The next step: \<open>__read\<close> or \<open>__write\<close> up to the return of \<open>pg_getpage\<close>; \<open>MEMPHY_read\<close> or \<open>MEMPHY_write\<close> at the
  physical address; \<open>update_LRU_lst\<close>. A page fault that fails leaves out the device.\<close>

definition acc_step :: "acc_th \<Rightarrow> paging \<Rightarrow> (acc_th \<times> paging) res" where
  "acc_step t st =
     (case acc_pc t of
        APage \<Rightarrow>
          bindR (rg_access (acc_pid t) (acc_rg t) (acc_off t) st) (\<lambda>acc.
          case acc of
            None \<Rightarrow> ok (t\<lparr>acc_pc := ADone (- 1)\<rparr>, st)
          | Some (vid, addr) \<Rightarrow>
              bindR (pg_getpage (acc_pid t) (PAGING_PGN (s32 addr)) st) (\<lambda>(r, fpn, st).
              if r \<noteq> 0 then ok (t\<lparr>acc_pc := AUse addr\<rparr>, st)
              else
                bindR (from_opt Uninitialised fpn) (\<lambda>fpn.
                ok (t\<lparr>acc_pc := ADevice (phyaddr_of vid fpn (PAGING_OFFST (s32 addr))) addr\<rparr>, st))))
      | ADevice a addr \<Rightarrow>
          (case acc_kind t of
             Rd \<Rightarrow>
               bindR (MEMPHY_read (mram st) a) (\<lambda>(_, data, mp).
               ok (t\<lparr>acc_pc := AUse addr, acc_data := data\<rparr>, st\<lparr>mram := mp\<rparr>))
           | Wr v \<Rightarrow>
               bindR (MEMPHY_write (mram st) a v) (\<lambda>(_, mp).
               ok (t\<lparr>acc_pc := AUse addr\<rparr>, st\<lparr>mram := mp\<rparr>)))
      | AUse addr \<Rightarrow>
          bindR (pte_at (acc_pid t, PAGING_PGN addr) st) (\<lambda>w.
          bindR (lru_use w st) (\<lambda>st. ok (t\<lparr>acc_pc := ADone 0\<rparr>, st)))
      | ADone r \<Rightarrow> ok (t, st))"

definition acc_begin :: "int \<Rightarrow> acc_kind \<Rightarrow> int \<Rightarrow> int \<Rightarrow> acc_th" where
  "acc_begin P k rgid off = \<lparr>acc_pid = P, acc_rg = rgid, acc_off = off, acc_kind = k, acc_pc = APage, acc_data = None\<rparr>"

text \<open>CPUs: CPU \<open>i\<close> makes the next step of its access.\<close>

record acc_sys =
  acc_cpus :: "nat \<Rightarrow> acc_th"
  acc_mem :: paging

definition sys_step :: "nat \<Rightarrow> acc_sys \<Rightarrow> acc_sys res" where
  "sys_step i s = bindR (acc_step (acc_cpus s i) (acc_mem s)) (\<lambda>(t, st). ok (s\<lparr>acc_cpus := (acc_cpus s)(i := t), acc_mem := st\<rparr>))"

inductive acc_sys_step :: "acc_sys \<Rightarrow> nat \<Rightarrow> acc_sys \<Rightarrow> bool" where
  cpu: "sys_step i s = ok t \<Longrightarrow> acc_sys_step s i t"

fun sys_play :: "nat list \<Rightarrow> acc_sys \<Rightarrow> acc_sys res" where
  "sys_play [] s = ok s"
| "sys_play (i # is) s = bindR (sys_step i s) (sys_play is)"

section \<open>Without interruption\<close>

definition acc_run :: "acc_th \<Rightarrow> paging \<Rightarrow> (acc_th \<times> paging) res" where
  "acc_run t st = bindR (acc_step t st) (\<lambda>(t, st). bindR (acc_step t st) (\<lambda>(t, st). acc_step t st))"

lemma phyaddr_of_area: "phyaddr_of (if vid = 0 then 0 else 1) f off = phyaddr_of vid f off"
  by (simp add: phyaddr_of_def)

lemma acc_run_write:
  "acc_run (acc_begin P (Wr v) rgid off) st =
     bindR (do_write P rgid off v st) (\<lambda>(r, st). ok ((acc_begin P (Wr v) rgid off)\<lparr>acc_pc := ADone r\<rparr>, st))"
  unfolding acc_run_def do_write_def pg_setval_def phyaddr_of_area Let_def
  by (auto simp: acc_step_def acc_begin_def bindR_def from_opt_def guardR_def split: sum.splits option.splits prod.splits)

lemma acc_run_read:
  "acc_run (acc_begin P Rd rgid off) st =
     bindR (do_read P rgid off st) (\<lambda>(r, d, st). ok ((acc_begin P Rd rgid off)\<lparr>acc_pc := ADone r, acc_data := d\<rparr>, st))"
  unfolding acc_run_def do_read_def pg_getval_def Let_def
  by (auto simp: acc_step_def acc_begin_def bindR_def from_opt_def guardR_def split: sum.splits option.splits prod.splits)

section \<open>Ownership in every interleaving\<close>

lemma own_acc_step: "acc_step t st = ok (t', st') \<Longrightarrow> own_ok H st \<Longrightarrow> own_ok H st'"
  by (cases "acc_pc t")
    (auto simp: acc_step_def own_ram_io dest: use_own [rotated] split: option.splits acc_kind.splits if_splits, (blast intro: own_getpage)+)

lemma own_sys_step: "acc_sys_step s i t \<Longrightarrow> own_ok {} (acc_mem s) \<Longrightarrow> own_ok {} (acc_mem t)"
  by (auto simp: acc_sys_step.simps sys_step_def dest: own_acc_step)

interpretation acc: traced_system acc_sys_step "\<lambda>s. own_ok {} (acc_mem s)" "\<lambda>tr s. own_ok {} (acc_mem s)"
  by unfold_locales (auto dest: own_sys_step)

text \<open>The device step of a write changes the frame it names and nothing else.\<close>

lemma device_step_local:
  assumes "acc_step t st = ok (t', st')" "acc_pc t = ADevice a addr" "devices_ok st"
  shows "pte_of st' = pte_of st \<and> (\<forall>f i. f \<noteq> a div 256 \<and> 0 \<le> i \<and> i < 256 \<longrightarrow> frame_bytes (mram st') f i = frame_bytes (mram st) f i)"
proof (cases "acc_kind t")
  case Rd
  with assms ram_read_own [of st a] show ?thesis by (auto simp: acc_step_def)
next
  case (Wr v)
  then obtain r mp where w: "MEMPHY_write (mram st) a v = ok (r, mp)" "st' = st\<lparr>mram := mp\<rparr>"
    using assms(1,2) by (auto simp: acc_step_def)
  have "in_storage (mram st) a" using w(1) assms(3) by (auto simp: MEMPHY_write_def devices_ok_def ready_def)
  then have "storage mp = (storage (mram st))(a := v)" using w(1) assms(3) by (auto simp: devices_ok_def MEMPHY_write_ready)
  moreover have "f * 256 + i \<noteq> a" if "f \<noteq> a div 256" "0 \<le> i" "i < 256" for f i using that by auto
  ultimately show ?thesis by (simp add: w(2) frame_bytes_def)
qed

section \<open>A write that lands elsewhere\<close>

text \<open>The first step of an access inside a region, when \<open>pg_getpage\<close> returns a frame.\<close>

lemma page_step:
  assumes "region_at st P rgid vid s e" "0 \<le> off" "off \<le> \<bar>e - s\<bar>" "pg_getpage P (PAGING_PGN (addr_at vid s off)) st = ok (0, Some f, st')"
  shows "acc_step (acc_begin P k rgid off) st =
    ok ((acc_begin P k rgid off)\<lparr>acc_pc := ADevice (phyaddr_of vid f (PAGING_OFFST (addr_at vid s off))) (addr_at vid s off)\<rparr>, st')"
  using rg_access_inside [OF assms(1-3)] assms(4) by (simp add: acc_step_def acc_begin_def)

text \<open>Process \<open>P\<close> writes to its only page in memory, process \<open>Q\<close> reads from a page in swap, RAM is full.\<close>

definition race_setup :: "paging \<Rightarrow> int \<Rightarrow> int \<Rightarrow> int \<Rightarrow> bool" where
  "race_setup st P a g \<longleftrightarrow> map_ok {} st \<and> \<not> lock_vm st \<and> mapped st P a \<and> free_fp_list (mram st) = [] \<and> (\<exists>gs. free_fp_list (mswp st) = g # gs) \<and>
     lru_es st = [\<lparr>e_pte = (P, PAGING_PGN a), e_fpn = frame_of st (P, PAGING_PGN a), e_pgn = PAGING_PGN a\<rparr>]"

lemma race_getpage:
  assumes "race_setup st P a g" "\<not> mapped st Q b" "frame_in (mswp st) (frame_of st (Q, PAGING_PGN b))"
  defines "f \<equiv> frame_of st (P, PAGING_PGN a)"
  obtains st' where "pg_getpage Q (PAGING_PGN b) st = ok (0, Some f, st')" "map_ok {} st'" "\<not> mapped st' P a" "mapped st' Q b"
    "frame_of st' (Q, PAGING_PGN b) = f" "same_maps st st'" "PAGING_SWPOFF (pte_of st' (P, PAGING_PGN a)) = g mod 2097152"
    "\<And>i. 0 \<le> i \<Longrightarrow> i < 256 \<Longrightarrow> frame_bytes (mswp st') g i = frame_bytes (mram st) f i"
    "\<And>i. 0 \<le> i \<Longrightarrow> i < 256 \<Longrightarrow> frame_of st (Q, PAGING_PGN b) \<noteq> g \<Longrightarrow>
       frame_bytes (mram st') f i = frame_bytes (mswp st) (frame_of st (Q, PAGING_PGN b)) i"
proof -
  let ?p = "(P, PAGING_PGN a)" and ?q = "(Q, PAGING_PGN b)"
  obtain gs where S: "map_ok {} st" "\<not> lock_vm st" "mapped st P a" "free_fp_list (mram st) = []" "free_fp_list (mswp st) = g # gs"
    "lru_es st = [\<lparr>e_pte = ?p, e_fpn = f, e_pgn = PAGING_PGN a\<rparr>]" using assms(1) by (auto simp: race_setup_def f_def)
  have t: "in_table ?q" by (simp add: in_table_def)
  have ne: "?q \<noteq> ?p" using S(3) assms(2) by auto
  from getpage_evict [OF S(1,2) assms(2) t S(4,6,5) assms(3)] obtain st' where
    st': "pg_getpage Q (PAGING_PGN b) st = ok (0, Some f, st')" "map_ok {} st'" "same_maps st st'"
      "pte_of st' = (pte_of st)(?p := pte_set_swap (pte_of st ?p) 0 g, ?q := pte_set_fpn (pte_of st ?q) f)"
      "mram st' = copy_frame (copy_frame (mram st) f (mswp st) g) (frame_of st ?q) (mram st) f"
      "mswp st' = (copy_frame (mram st) f (mswp st) g)\<lparr>free_fp_list := frame_of st ?q # gs\<rparr>"
      "present st' ?q" "frame_of st' ?q = f" by auto
  have "\<not> mapped st' P a" using ne by (auto simp: present_def st'(4))
  moreover have "frame_bytes (mram st') f i = frame_bytes (mswp st) (frame_of st ?q) i" if "0 \<le> i" "i < 256" "frame_of st ?q \<noteq> g" for i
    using that by (simp add: st'(5) frame_bytes_copy_frame)
  moreover have "PAGING_SWPOFF (pte_of st' ?p) = g mod 2097152" using ne by (auto simp: st'(4) SWPOFF_pte_set_swap)
  moreover have "frame_bytes (mswp st') g i = frame_bytes (mram st) f i" if "0 \<le> i" "i < 256" for i
    using that frame_bytes_copy_frame [of i "mram st" f "mswp st" g g] by (simp add: st'(6) frame_bytes_def)
  ultimately show thesis using that st' by blast
qed

lemma race_hit:
  assumes "race_setup st P a g"
  obtains st' where "pg_getpage P (PAGING_PGN a) st = ok (0, Some (frame_of st (P, PAGING_PGN a)), st')" "race_setup st' P a g"
    "same_maps st st'" "pte_of st' = pte_of st" "mswp st' = mswp st" "mram st' = mram st"
proof -
  have S: "map_ok {} st" "\<not> lock_vm st" "mapped st P a" using assms by (simp_all add: race_setup_def)
  obtain st' where st': "pg_getpage P (PAGING_PGN a) st = ok (0, Some (frame_of st (P, PAGING_PGN a)), st')" "map_ok {} st'" "\<not> lock_vm st'"
    "same_maps st st'" "pte_of st' = pte_of st" "mram st' = mram st" "mswp st' = mswp st"
    "lru_es st' = insert_page \<lparr>e_pte = (P, PAGING_PGN a), e_fpn = frame_of st (P, PAGING_PGN a), e_pgn = PAGING_PGN a\<rparr> (lru_es st)"
    using getpage_present [OF S] by blast
  have "race_setup st' P a g" using assms st' present_cong [OF st'(5)] by (simp add: race_setup_def insert_page_def touch_def extract_Cons_code)
  with that st' show thesis by blast
qed

text \<open>Reading and writing the byte that a page holds now.\<close>

lemma device_steps:
  assumes "map_ok {} st" "mapped st Q b" "x = phys st vid Q b"
  shows "acc_pc t = ADevice x y \<Longrightarrow> acc_kind t = Wr v \<Longrightarrow> \<exists>st'. acc_step t st = ok (t\<lparr>acc_pc := AUse y\<rparr>, st') \<and> map_ok {} st' \<and>
      pte_of st' = pte_of st \<and> mswp st' = mswp st \<and> storage (mram st') x = v"
    "acc_pc t = ADevice x y \<Longrightarrow> acc_kind t = Rd \<Longrightarrow> acc_step t st = ok (t\<lparr>acc_pc := AUse y, acc_data := Some (storage (mram st) x)\<rparr>, st)"
proof -
  have i: "in_storage (mram st) x" "ready (mram st)" using phys_inside [OF assms(1,2), of vid] map_okD(1) [OF assms(1)] assms(3) by (simp_all add: devices_ok_def)
  show "\<exists>st'. acc_step t st = ok (t\<lparr>acc_pc := AUse y\<rparr>, st') \<and> map_ok {} st' \<and> pte_of st' = pte_of st \<and> mswp st' = mswp st \<and>
      storage (mram st') x = v" if "acc_pc t = ADevice x y" "acc_kind t = Wr v"
    using that i map_ok_write [OF assms(1)] by (simp add: acc_step_def MEMPHY_write_ready)
  show "acc_step t st = ok (t\<lparr>acc_pc := AUse y, acc_data := Some (storage (mram st) x)\<rparr>, st)" if "acc_pc t = ADevice x y" "acc_kind t = Rd"
    using that i by (simp add: acc_step_def MEMPHY_read_ready)
qed

definition two_cpus :: "acc_th \<Rightarrow> acc_th \<Rightarrow> paging \<Rightarrow> acc_sys" where
  "two_cpus t u st = \<lparr>acc_cpus = (\<lambda>i. if i = 0 then t else u), acc_mem = st\<rparr>"

section \<open>Properties\<close>

text \<open>
  C9. In every interleaving of the steps of any number of READ and WRITE instructions no two pages share a frame, no
  mapped frame is free, and the next device step of a CPU changes no page but the one that owns the
  frame at that moment.
\<close>

theorem accesses_keep_isolation:
  assumes "own_ok {} (acc_mem s0)" "steps acc_sys_step s0 tr s"
  shows "(\<forall>r r'. present (acc_mem s) r \<and> present (acc_mem s) r' \<and> frame_of (acc_mem s) r = frame_of (acc_mem s) r' \<longrightarrow> r = r') \<and>
    (\<forall>r. present (acc_mem s) r \<longrightarrow> used_frame (acc_mem s) (frame_of (acc_mem s) r)) \<and>
    (\<forall>i t a addr. acc_sys_step s i t \<and> acc_pc (acc_cpus s i) = ADevice a addr \<longrightarrow>
      (\<forall>r k. present (acc_mem s) r \<and> frame_of (acc_mem s) r \<noteq> a div 256 \<and> 0 \<le> k \<and> k < 256 \<longrightarrow>
        present (acc_mem t) r \<and> page_byte (acc_mem t) r k = page_byte (acc_mem s) r k))"
proof -
  have o: "own_ok {} (acc_mem s)" by (rule acc.inv_run [OF assms(2,1)])
  have "present (acc_mem t) r \<and> page_byte (acc_mem t) r k = page_byte (acc_mem s) r k"
    if "acc_sys_step s i t" "acc_pc (acc_cpus s i) = ADevice a addr" "present (acc_mem s) r" "frame_of (acc_mem s) r \<noteq> a div 256" "0 \<le> k" "k < 256"
    for i t a addr r k
  proof -
    have "\<exists>u. acc_step (acc_cpus s i) (acc_mem s) = ok (u, acc_mem t)" using that(1) by (auto simp: acc_sys_step.simps sys_step_def)
    then obtain u where "acc_step (acc_cpus s i) (acc_mem s) = ok (u, acc_mem t)" by blast
    note d = device_step_local [OF this that(2) own_okD(1) [OF o]]
    show ?thesis using d that(3-) present_cong [OF conjunct1 [OF d]] by (simp add: page_byte_def)
  qed
  with own_okD(6) [OF o] own_okD(7) [OF o] show ?thesis by blast
qed

text \<open>
  C29. A write can land in the page of another process. RAM is full, the LRU list holds only the page of \<open>P\<close> that \<open>P\<close> is
  about to write to, and \<open>Q\<close> is about to read from a page that is not in RAM, at the same cell of its
  page; the slot the fault of \<open>Q\<close> loads is inside the swap device and is not \<open>g\<close>, the first free one. When
  the fault of \<open>Q\<close> comes between \<open>pg_getpage\<close> and \<open>MEMPHY_write\<close> of \<open>P\<close>, \<open>Q\<close> takes over the frame and reads
  the byte that \<open>P\<close> wrote, while the page of \<open>P\<close> is out of RAM, its entry names swap slot \<open>g\<close>, and that
  slot holds all 256 bytes the page had before: the write is lost to \<open>P\<close>. When \<open>Q\<close> runs alone it reads
  its own byte from swap.
\<close>

theorem write_race:
  assumes "race_setup st P (addr_at va sa oa) g" "region_at st P ra va sa ea" "0 \<le> oa" "oa \<le> \<bar>ea - sa\<bar>"
    and "region_at st Q rb vb sb eb" "0 \<le> ob" "ob \<le> \<bar>eb - sb\<bar>" "\<not> mapped st Q (addr_at vb sb ob)"
    and "frame_in (mswp st) (frame_of st (Q, PAGING_PGN (addr_at vb sb ob)))" "frame_of st (Q, PAGING_PGN (addr_at vb sb ob)) \<noteq> g"
    and "cell_of va (PAGING_OFFST (addr_at va sa oa)) = cell_of vb (PAGING_OFFST (addr_at vb sb ob))"
  shows "(\<exists>s. sys_play [0, 1, 0, 1] (two_cpus (acc_begin P (Wr v) ra oa) (acc_begin Q Rd rb ob) st) = ok s \<and>
      acc_data (acc_cpus s 1) = Some v \<and> \<not> mapped (acc_mem s) P (addr_at va sa oa) \<and>
      PAGING_SWPOFF (pte_of (acc_mem s) (P, PAGING_PGN (addr_at va sa oa))) = g mod 2097152 \<and>
      (\<forall>i. 0 \<le> i \<and> i < 256 \<longrightarrow> frame_bytes (mswp (acc_mem s)) g i = page_byte st (P, PAGING_PGN (addr_at va sa oa)) i)) \<and>
    (\<exists>s. sys_play [1, 1] (two_cpus (acc_begin P (Wr v) ra oa) (acc_begin Q Rd rb ob) st) = ok s \<and>
      acc_data (acc_cpus s 1) = Some (frame_bytes (mswp st) (frame_of st (Q, PAGING_PGN (addr_at vb sb ob))) (cell_of vb (PAGING_OFFST (addr_at vb sb ob)))))"
proof -
  let ?a = "addr_at va sa oa" and ?b = "addr_at vb sb ob" and ?A = "acc_begin P (Wr v) ra oa" and ?B = "acc_begin Q Rd rb ob"
  let ?f = "frame_of st (P, PAGING_PGN ?a)" and ?x = "phyaddr_of vb (frame_of st (P, PAGING_PGN ?a)) (PAGING_OFFST ?b)"
  let ?A1 = "?A\<lparr>acc_pc := ADevice ?x ?a\<rparr>" and ?B1 = "?B\<lparr>acc_pc := ADevice ?x ?b\<rparr>"
  have x: "phyaddr_of va ?f (PAGING_OFFST ?a) = ?x" using assms(11) by (simp add: phyaddr_of_eq)
  have kinds: "acc_kind ?A1 = Wr v" "acc_pc ?A1 = ADevice ?x ?a" "acc_kind ?B1 = Rd" "acc_pc ?B1 = ADevice ?x ?b" by (simp_all add: acc_begin_def)
  obtain st1 where 1: "pg_getpage P (PAGING_PGN ?a) st = ok (0, Some ?f, st1)" "race_setup st1 P ?a g" "same_maps st st1" "pte_of st1 = pte_of st"
    "mswp st1 = mswp st" "mram st1 = mram st" using race_hit [OF assms(1)] by metis
  note p = present_cong [OF 1(4)]
  have A: "acc_step ?A st = ok (?A1, st1)" using page_step [OF assms(2-4) 1(1)] unfolding x .
  obtain st2 where 2: "pg_getpage Q (PAGING_PGN ?b) st1 = ok (0, Some ?f, st2)" "map_ok {} st2" "\<not> mapped st2 P ?a" "mapped st2 Q ?b"
    "frame_of st2 (Q, PAGING_PGN ?b) = ?f" "PAGING_SWPOFF (pte_of st2 (P, PAGING_PGN ?a)) = g mod 2097152"
    "\<And>i. 0 \<le> i \<Longrightarrow> i < 256 \<Longrightarrow> frame_bytes (mswp st2) g i = frame_bytes (mram st) ?f i"
    using race_getpage [OF 1(2), of Q ?b] assms(8,9) p 1(5,6) by metis
  have B: "acc_step ?B st1 = ok (?B1, st2)" using page_step [OF _ assms(6,7) 2(1)] assms(5) region_at_same_maps [OF 1(3)] by simp
  have "?x = phys st2 vb Q ?b" by (simp add: phys_def 2(5))
  from device_steps(1) [OF 2(2,4) this kinds(2,1)] obtain st3 where 3: "acc_step ?A1 st2 = ok (?A1\<lparr>acc_pc := AUse ?a\<rparr>, st3)" "map_ok {} st3"
    "pte_of st3 = pte_of st2" "mswp st3 = mswp st2" "storage (mram st3) ?x = v" by blast
  note q = present_cong [OF 3(3)]
  have "mapped st3 Q ?b" "?x = phys st3 vb Q ?b" using 2(4,5) q by (simp_all add: phys_def)
  from device_steps(2) [OF 3(2) this kinds(4,3)] 3(5) have B2: "acc_step ?B1 st3 = ok (?B1\<lparr>acc_pc := AUse ?b, acc_data := Some v\<rparr>, st3)" by simp
  have first: "\<exists>s. sys_play [0, 1, 0, 1] (two_cpus ?A ?B st) = ok s \<and> acc_data (acc_cpus s 1) = Some v \<and> \<not> mapped (acc_mem s) P ?a \<and>
      PAGING_SWPOFF (pte_of (acc_mem s) (P, PAGING_PGN ?a)) = g mod 2097152 \<and>
      (\<forall>i. 0 \<le> i \<and> i < 256 \<longrightarrow> frame_bytes (mswp (acc_mem s)) g i = page_byte st (P, PAGING_PGN ?a) i)"
    using 2(3,6,7) q by (simp add: sys_step_def two_cpus_def A B 3(1,3,4) B2 page_byte_def)
  obtain st4 where 4: "pg_getpage Q (PAGING_PGN ?b) st = ok (0, Some ?f, st4)" "map_ok {} st4" "mapped st4 Q ?b" "frame_of st4 (Q, PAGING_PGN ?b) = ?f"
    "frame_bytes (mram st4) ?f (cell_of vb (PAGING_OFFST ?b)) = frame_bytes (mswp st) (frame_of st (Q, PAGING_PGN ?b)) (cell_of vb (PAGING_OFFST ?b))"
    using race_getpage [OF assms(1,8,9)] assms(10) cell_of_bounds [of "PAGING_OFFST ?b" vb] by (metis PAGING_OFFST_bounds)
  have C: "acc_step ?B st = ok (?B1, st4)" using page_step [OF assms(5-7) 4(1)] .
  have "?x = phys st4 vb Q ?b" by (simp add: phys_def 4(4))
  from device_steps(2) [OF 4(2,3) this kinds(4,3)] 4(5)
  have "\<exists>s. sys_play [1, 1] (two_cpus ?A ?B st) = ok s \<and> acc_data (acc_cpus s 1) =
      Some (frame_bytes (mswp st) (frame_of st (Q, PAGING_PGN ?b)) (cell_of vb (PAGING_OFFST ?b)))"
    by (simp add: sys_step_def two_cpus_def C frame_bytes_def phyaddr_of_eq)
  with first show ?thesis by blast
qed

section \<open>Witnesses\<close>

text \<open>Processes 1 and 2 with the region \<open>[10, 99]\<close> each; the page of process 1 is in memory, that of process 2 in swap.\<close>

definition with_region :: "int \<Rightarrow> paging \<Rightarrow> paging" where
  "with_region P st = set_mm P ((mm_of st P)\<lparr>symrgtbl := (\<lambda>_. rg_ex 10 99)\<rparr>) st"

lemma with_region_simps [simp]:
  "map_ok H (with_region P st) = map_ok H st" "present (with_region P st) = present st" "frame_of (with_region P st) = frame_of st"
  "lru (with_region P st) = lru st" "lock_vm (with_region P st) = lock_vm st" "mram (with_region P st) = mram st" "mswp (with_region P st) = mswp st"
  unfolding with_region_def by (simp_all add: set_mm_areas)

definition st_race :: paging where
  "st_race = with_region 2 (with_region 1 (st_ex [] [1]))"

lemma st_race_facts:
  "map_ok {} st_race" "present st_race r \<longleftrightarrow> r = (1, 0)" "frame_of st_race r = 0" "lru st_race = lru1" "\<not> lock_vm st_race"
  "free_fp_list (mram st_race) = []" "free_fp_list (mswp st_race) = [1]" "frame_in (mswp st_race) 0" "mswp st_race = mswp (st_ex [] [1])"
  using st_ex_ok [of "[]" "[1]"] unfolding st_race_def by (simp_all add: st_ex_lru)

lemma st_race_regions: "region_at st_race 1 0 0 10 99" "region_at st_race 2 0 0 10 99"
  by (simp_all add: region_at_def st_race_def with_region_def set_mm_def rg_ex_def get_vma_by_num_eq st_ex_def mm_ex_def)

lemma st_race_setup: "race_setup st_race 1 30 1"
  by (simp add: race_setup_def st_race_facts PAGING_PGN_eq lru1_ok)

theorem write_race_witness:
  "(\<exists>s. sys_play [0, 1, 0, 1] (two_cpus (acc_begin 1 (Wr 7) 0 20) (acc_begin 2 Rd 0 20) st_race) = ok s \<and> acc_data (acc_cpus s 1) = Some 7 \<and>
      frame_bytes (mswp (acc_mem s)) 1 30 = page_byte st_race (1, 0) 30) \<and>
   (\<exists>s. sys_play [1, 1] (two_cpus (acc_begin 1 (Wr 7) 0 20) (acc_begin 2 Rd 0 20) st_race) = ok s \<and> acc_data (acc_cpus s 1) = Some 0)"
proof -
  have "addr_at 0 10 20 = 30" "PAGING_PGN 30 = 0" "PAGING_OFFST 30 = 30" "frame_bytes (mswp st_race) 0 30 = 0"
    by (simp_all add: addr_at_def PAGING_PGN_eq PAGING_OFFST_eq st_race_facts(9) st_ex_def dev512_def frame_bytes_def)
  with write_race [of st_race 1 0 10 20 1 0 99 2 0 0 10 99 20 7] st_race_setup st_race_regions show ?thesis
    by (auto simp: st_race_facts cell_of_def simp del: sys_play.simps)
qed

theorem accesses_keep_isolation_witness:
  "\<exists>s0 s. own_ok {} (acc_mem s0) \<and> steps acc_sys_step s0 [0] s \<and> acc_pc (acc_cpus s 0) \<noteq> APage \<and>
     (\<forall>r r'. present (acc_mem s) r \<and> present (acc_mem s) r' \<and> frame_of (acc_mem s) r = frame_of (acc_mem s) r' \<longrightarrow> r = r')"
proof -
  let ?A = "acc_begin 1 (Wr 7) 0 20" and ?s = "two_cpus (acc_begin 1 (Wr 7) 0 20) (acc_begin 2 Rd 0 20) st_race"
  have o: "own_ok {} (acc_mem ?s)" by (simp add: two_cpus_def map_ok_own st_race_facts(1))
  have a: "addr_at 0 10 20 = 30" by (simp add: addr_at_def)
  obtain st1 where "pg_getpage 1 (PAGING_PGN 30) st_race = ok (0, Some (frame_of st_race (1, PAGING_PGN 30)), st1)"
    using race_hit [OF st_race_setup] by metis
  from page_step [OF st_race_regions(1), of 20 _ st1, unfolded a, OF _ _ this] obtain t where t: "acc_step ?A st_race = ok (t, st1)" "acc_pc t \<noteq> APage" by force
  then have "acc_sys_step ?s 0 (?s\<lparr>acc_cpus := (acc_cpus ?s)(0 := t), acc_mem := st1\<rparr>)"
    by (intro acc_sys_step.cpu) (simp add: sys_step_def two_cpus_def)
  from steps.later [of acc_sys_step, OF steps.start this] have r: "steps acc_sys_step ?s [0] (?s\<lparr>acc_cpus := (acc_cpus ?s)(0 := t), acc_mem := st1\<rparr>)" by simp
  from conjunct1 [OF accesses_keep_isolation [OF o r]] o r t(2) show ?thesis
    by (intro exI [of _ ?s] exI [of _ "?s\<lparr>acc_cpus := (acc_cpus ?s)(0 := t), acc_mem := st1\<rparr>"] conjI) (assumption | simp)+
qed

end
