(* ===== verification/Sched_Single.thy ===== *)
theory Sched_Single
  imports Sched
begin

text \<open>
  The scheduler of \<open>src/sched.c\<close> without \<open>MLQ_SCHED\<close>: one ready queue and one run queue. Its \<open>get_proc\<close> is the
  unfinished stub of the source. The names carry the prefix \<open>sq_\<close>; \<open>init_slot\<close>, which names an array
  that this variant does not declare, has no part in it.
\<close>

section \<open>Operations\<close>

record 'p sq_sched =
  sq_ready_queue :: "'p queue_t"
  sq_run_queue :: "'p queue_t"

definition sq_queue_empty :: "'p sq_sched \<Rightarrow> int" where
  "sq_queue_empty s = (if empty (sq_ready_queue s) \<and> empty (sq_run_queue s) then 1 else 0)"

definition sq_init_scheduler :: "'p sq_sched \<Rightarrow> 'p sq_sched" where
  "sq_init_scheduler s = s\<lparr>sq_ready_queue := (sq_ready_queue s)\<lparr>qsize := 0\<rparr>, sq_run_queue := (sq_run_queue s)\<lparr>qsize := 0\<rparr>\<rparr>"

definition sq_get_proc :: "'p sq_sched \<Rightarrow> ('p option \<times> 'p sq_sched) res" where
  "sq_get_proc s = ok (None, s)"

definition sq_put_proc :: "'p sq_sched \<Rightarrow> 'p \<Rightarrow> 'p sq_sched res" where
  "sq_put_proc s p = bindR (enqueue (sq_run_queue s) p) (\<lambda>q. ok (s\<lparr>sq_run_queue := q\<rparr>))"

definition sq_add_proc :: "'p sq_sched \<Rightarrow> 'p \<Rightarrow> 'p sq_sched res" where
  "sq_add_proc s p = bindR (enqueue (sq_ready_queue s) p) (\<lambda>q. ok (s\<lparr>sq_ready_queue := q\<rparr>))"

section \<open>Sequences of calls\<close>

datatype 'p sq_op = SGet | SPut 'p | SAdd 'p

fun sq_run :: "'p sq_sched \<Rightarrow> 'p sq_op list \<Rightarrow> ('p option list \<times> 'p sq_sched) res" where
  "sq_run s [] = ok ([], s)"
| "sq_run s (SGet # ops) = bindR (sq_get_proc s) (\<lambda>(r, s). bindR (sq_run s ops) (\<lambda>(rs, s). ok (r # rs, s)))"
| "sq_run s (SPut p # ops) = bindR (sq_put_proc s p) (\<lambda>s. sq_run s ops)"
| "sq_run s (SAdd p # ops) = bindR (sq_add_proc s p) (\<lambda>s. sq_run s ops)"

definition added :: "'p sq_op list \<Rightarrow> 'p list" where
  "added ops = concat (map (\<lambda>x. case x of SAdd p \<Rightarrow> [p] | _ \<Rightarrow> []) ops)"

definition put_back :: "'p sq_op list \<Rightarrow> 'p list" where
  "put_back ops = concat (map (\<lambda>x. case x of SPut p \<Rightarrow> [p] | _ \<Rightarrow> []) ops)"

lemma calls_simps [simp]:
  "added [] = []" "added (SGet # ops) = added ops" "added (SPut p # ops) = added ops" "added (SAdd p # ops) = p # added ops"
  "put_back [] = []" "put_back (SGet # ops) = put_back ops" "put_back (SPut p # ops) = p # put_back ops" "put_back (SAdd p # ops) = put_back ops"
  by (simp_all add: added_def put_back_def)

definition sq_ok :: "'p sq_sched \<Rightarrow> bool" where
  "sq_ok s \<longleftrightarrow> queue_ok (sq_ready_queue s) \<and> queue_ok (sq_run_queue s)"

text \<open>The outcome of a sequence: both queues only grow, and one call too many ends the program.\<close>

definition sq_outcome :: "'p sq_sched \<Rightarrow> 'p sq_op list \<Rightarrow> ('p option list \<times> 'p sq_sched) res \<Rightarrow> bool" where
  "sq_outcome s ops r \<longleftrightarrow>
     (if qsize (sq_ready_queue s) + length (added ops) \<le> MAX_QUEUE_SIZE \<and> qsize (sq_run_queue s) + length (put_back ops) \<le> MAX_QUEUE_SIZE
      then \<exists>rs s'. r = ok (rs, s') \<and> set rs \<subseteq> {None} \<and> queue_list (sq_ready_queue s') = queue_list (sq_ready_queue s) @ added ops \<and>
             queue_list (sq_run_queue s') = queue_list (sq_run_queue s) @ put_back ops
      else r = Inl (Exit 1))"

lemma enqueue_cases:
  assumes "queue_ok q"
  obtains (full) "qsize q = MAX_QUEUE_SIZE" "enqueue q p = Inl (Exit 1)"
  | (room) q' where "enqueue q p = ok q'" "queue_ok q'" "queue_list q' = queue_list q @ [p]" "qsize q' = Suc (qsize q)"
proof (cases "qsize q = MAX_QUEUE_SIZE")
  case True
  then show thesis using full pq.enq_full [OF assms] by simp
next
  case False
  then have "length (queue_list q) < MAX_QUEUE_SIZE" using assms by (simp add: queue_ok_def)
  from pq.enq_ok [OF assms this, of p] obtain q' where q': "enqueue q p = ok q'" "queue_ok q'" "queue_list q' = queue_list q @ [p]" by blast
  have "length (queue_list q') = Suc (length (queue_list q))" by (simp only: q'(3)) simp
  then show thesis using room [OF q'] by simp
qed

lemma sq_run_outcome: "sq_ok s \<Longrightarrow> sq_outcome s ops (sq_run s ops)"
proof (induction s ops rule: sq_run.induct)
  case (2 s ops)
  then have "sq_outcome s ops (sq_run s ops)" by (simp add: sq_get_proc_def)
  then show ?case by (auto simp: sq_outcome_def sq_get_proc_def)
next
  case (3 s p ops)
  have "queue_ok (sq_run_queue s)" using 3(2) by (simp add: sq_ok_def)
  then show ?case
  proof (cases rule: enqueue_cases [of _ p])
    case (room q)
    have "sq_outcome (s\<lparr>sq_run_queue := q\<rparr>) ops (sq_run (s\<lparr>sq_run_queue := q\<rparr>) ops)"
      using 3 room by (simp add: sq_put_proc_def sq_ok_def)
    then show ?thesis using room by (auto simp: sq_outcome_def sq_put_proc_def)
  qed (simp add: sq_outcome_def sq_put_proc_def)
next
  case (4 s p ops)
  have "queue_ok (sq_ready_queue s)" using 4(2) by (simp add: sq_ok_def)
  then show ?case
  proof (cases rule: enqueue_cases [of _ p])
    case (room q)
    have "sq_outcome (s\<lparr>sq_ready_queue := q\<rparr>) ops (sq_run (s\<lparr>sq_ready_queue := q\<rparr>) ops)"
      using 4 room by (simp add: sq_add_proc_def sq_ok_def)
    then show ?thesis using room by (auto simp: sq_outcome_def sq_add_proc_def)
  qed (simp add: sq_outcome_def sq_add_proc_def)
qed (simp add: sq_outcome_def sq_ok_def queue_ok_def)

section \<open>Properties\<close>

text \<open>
  C34. Without \<open>MLQ_SCHED\<close> nothing is ever scheduled. After \<open>init_scheduler\<close>, whatever sequence of calls follows,
  every \<open>get_proc\<close> returns NULL, the added processes stay in the ready queue and those put back in
  the run queue, in order; and the eleventh call that adds to one of them ends the program.
\<close>

theorem single_queue_never_schedules:
  "if length (added ops) \<le> MAX_QUEUE_SIZE \<and> length (put_back ops) \<le> MAX_QUEUE_SIZE
   then \<exists>rs s'. sq_run (sq_init_scheduler s) ops = ok (rs, s') \<and> set rs \<subseteq> {None} \<and>
     queue_list (sq_ready_queue s') = added ops \<and> queue_list (sq_run_queue s') = put_back ops \<and>
     sq_queue_empty s' = (if added ops = [] \<and> put_back ops = [] then 1 else 0)
   else sq_run (sq_init_scheduler s) ops = Inl (Exit 1)"
proof -
  let ?s = "sq_init_scheduler s" and ?c = "length (added ops) \<le> MAX_QUEUE_SIZE \<and> length (put_back ops) \<le> MAX_QUEUE_SIZE"
  have i: "sq_ok ?s" "queue_list (sq_ready_queue ?s) = []" "queue_list (sq_run_queue ?s) = []" "qsize (sq_ready_queue ?s) = 0" "qsize (sq_run_queue ?s) = 0"
    by (simp_all add: sq_init_scheduler_def sq_ok_def queue_ok_def queue_list_def)
  have "sq_outcome ?s ops (sq_run ?s ops)" using i(1) by (rule sq_run_outcome)
  then have o: "if ?c then \<exists>rs s'. sq_run ?s ops = ok (rs, s') \<and> set rs \<subseteq> {None} \<and> queue_list (sq_ready_queue s') = added ops \<and>
      queue_list (sq_run_queue s') = put_back ops else sq_run ?s ops = Inl (Exit 1)"
    unfolding sq_outcome_def i by (simp only: append_Nil add_0)
  show ?thesis
  proof (cases ?c)
    case True
    with o obtain rs s' where r: "sq_run ?s ops = ok (rs, s')" "set rs \<subseteq> {None}" "queue_list (sq_ready_queue s') = added ops"
      "queue_list (sq_run_queue s') = put_back ops" by auto
    have "sq_queue_empty s' = (if added ops = [] \<and> put_back ops = [] then 1 else 0)"
      by (simp add: sq_queue_empty_def empty_iff r(3,4))
    with r show ?thesis unfolding if_P [OF True] by blast
  next
    case False
    with o show ?thesis unfolding if_not_P [OF False] by simp
  qed
qed

section \<open>Witness\<close>

definition sq_ex :: "int sq_sched" where
  "sq_ex = \<lparr>sq_ready_queue = \<lparr>proc = (\<lambda>_. 0), qsize = 5\<rparr>, sq_run_queue = \<lparr>proc = (\<lambda>_. 0), qsize = 5\<rparr>\<rparr>"

theorem single_queue_never_schedules_witness:
  "\<exists>rs s'. sq_run (sq_init_scheduler sq_ex) [SAdd 7, SGet, SPut 8, SGet] = ok (rs, s') \<and> set rs \<subseteq> {None} \<and>
     queue_list (sq_ready_queue s') = [7] \<and> queue_list (sq_run_queue s') = [8]"
  using single_queue_never_schedules [of "[SAdd 7, SGet, SPut 8, SGet]" sq_ex] by (auto simp add: MAX_QUEUE_SIZE_def simp del: sq_run.simps)

end
