(* ===== verification/Layout.thy ===== *)
theory Layout
  imports Pte
begin

text \<open>
  The rest of the macros of \<open>include/bitops.h\<close> and \<open>include/mm.h\<close>, which no function of the program uses: what they
  compute, and how they fit the layout of entries and addresses that the program does use.
\<close>

section \<open>Macros\<close>

definition BITS_PER_BYTE :: nat where
  "BITS_PER_BYTE = 8"

definition BIT_ULL :: "nat \<Rightarrow> 64 word" where
  "BIT_ULL nr = push_bit nr 1"

definition BIT_MASK :: "nat \<Rightarrow> 64 word" where
  "BIT_MASK nr = push_bit (nr mod BITS_PER_LONG) 1"

definition BIT_WORD :: "nat \<Rightarrow> nat" where
  "BIT_WORD nr = nr div BITS_PER_LONG"

text \<open>\<open>sizeof(long)\<close> is 8.\<close>

definition BITS_TO_LONGS :: "int \<Rightarrow> int" where
  "BITS_TO_LONGS nr = DIV_ROUND_UP nr (int BITS_PER_BYTE * 8)"

definition EXTRACT_NBITS :: "32 word \<Rightarrow> nat \<Rightarrow> nat \<Rightarrow> int" where
  "EXTRACT_NBITS nr h l = uint (drop_bit l (nr AND GENMASK h l))"

definition PAGING_MEMRAMSZ :: "32 word" where "PAGING_MEMRAMSZ = BIT 10"
definition PAGING_MEMSWPSZ :: "32 word" where "PAGING_MEMSWPSZ = BIT 14"
definition PAGING_SWPFPN_OFFSET :: nat where "PAGING_SWPFPN_OFFSET = 5"
definition PAGING_SBRK_INIT_SZ :: int where "PAGING_SBRK_INIT_SZ = PAGING_PAGESZ"
definition PAGING_PTE_RESERVE_MASK :: "32 word" where "PAGING_PTE_RESERVE_MASK = BIT 29"
definition PAGING_PTE_EMPTY01_MASK :: "32 word" where "PAGING_PTE_EMPTY01_MASK = BIT 14"
definition PAGING_PTE_EMPTY02_MASK :: "32 word" where "PAGING_PTE_EMPTY02_MASK = BIT 13"
definition PAGING_PTE_USRNUM_LOBIT :: nat where "PAGING_PTE_USRNUM_LOBIT = 15"
definition PAGING_PTE_USRNUM_HIBIT :: nat where "PAGING_PTE_USRNUM_HIBIT = 27"

definition PAGING_PTE_SET_PRESENT :: "32 word \<Rightarrow> 32 word" where
  "PAGING_PTE_SET_PRESENT pte = pte OR PAGING_PTE_PRESENT_MASK"

definition PAGING_PTE_USRNUM_MASK :: "32 word" where
  "PAGING_PTE_USRNUM_MASK = GENMASK PAGING_PTE_USRNUM_HIBIT PAGING_PTE_USRNUM_LOBIT"

definition PAGING_PTE_OFFST :: "32 word \<Rightarrow> int" where
  "PAGING_PTE_OFFST pte = GETVAL pte PAGING_OFFST_MASK PAGING_ADDR_OFFST_LOBIT"

definition PAGING_PTE_PGN :: "32 word \<Rightarrow> int" where
  "PAGING_PTE_PGN pte = GETVAL pte PAGING_PGN_MASK PAGING_ADDR_PGN_LOBIT"

definition PAGING_PTE_SWP :: "32 word \<Rightarrow> int" where
  "PAGING_PTE_SWP pte = GETVAL pte PAGING_PTE_SWPOFF_MASK PAGING_SWPFPN_OFFSET"

definition PAGING_PTE_SWPOFF :: "32 word \<Rightarrow> int" where
  "PAGING_PTE_SWPOFF pte = GETVAL pte PAGING_PTE_SWPOFF_MASK PAGING_PTE_SWPOFF_LOBIT"

definition PAGING_ADDR_FPN_HIBIT :: nat where "PAGING_ADDR_FPN_HIBIT = NBITS PAGING_MEMRAMSZ - 1"
definition PAGING_SWP_LOBIT :: nat where "PAGING_SWP_LOBIT = NBITS (word_of_int PAGING_PAGESZ)"
definition PAGING_SWP_HIBIT :: nat where "PAGING_SWP_HIBIT = NBITS PAGING_MEMSWPSZ - 1"

definition PAGING_FPN_MASK :: "32 word" where
  "PAGING_FPN_MASK = GENMASK PAGING_ADDR_FPN_HIBIT PAGING_ADDR_FPN_LOBIT"

definition PAGING_SWP_MASK :: "32 word" where
  "PAGING_SWP_MASK = GENMASK PAGING_SWP_HIBIT PAGING_SWP_LOBIT"

definition PAGING_FPN :: "int \<Rightarrow> int" where
  "PAGING_FPN x = GETVAL (word_of_int x) PAGING_FPN_MASK PAGING_ADDR_FPN_LOBIT"

section \<open>What they compute\<close>

lemma EXTRACT_NBITS_eq: "l \<le> h \<Longrightarrow> h < 32 \<Longrightarrow> EXTRACT_NBITS nr h l = take_bit (h - l + 1) (drop_bit l (uint nr))"
  using GETVAL_GENMASK [of h l nr] unfolding EXTRACT_NBITS_def GETVAL_def by blast

lemma NBITS_sizes [simp]: "NBITS PAGING_MEMRAMSZ = 10" "NBITS PAGING_MEMSWPSZ = 14"
  by (simp_all add: PAGING_MEMRAMSZ_def PAGING_MEMSWPSZ_def BIT_def NBITS_def NBITS32_def NBITS16_def NBITS8_def NBITS4_def NBITS2_def)

lemma PAGING_PTE_SWP_eq: "PAGING_PTE_SWP = PAGING_SWPOFF" "PAGING_PTE_SWPOFF = PAGING_SWPOFF"
  by (simp_all add: PAGING_PTE_SWP_def PAGING_PTE_SWPOFF_def PAGING_SWPOFF_def PAGING_SWPFPN_OFFSET_def layout_defs fun_eq_iff)

lemma PAGING_FPN_eq: "PAGING_FPN x = x div 256 mod 4"
proof -
  have "PAGING_FPN x = take_bit 2 (drop_bit 8 (take_bit 32 x))"
    by (simp add: PAGING_FPN_def PAGING_FPN_MASK_def PAGING_ADDR_FPN_HIBIT_def PAGING_ADDR_FPN_LOBIT_def GETVAL_GENMASK uint_word_of_int_eq)
      (simp only: Suc_1 [symmetric] One_nat_def)
  also have "\<dots> = take_bit 2 (drop_bit 8 x)" by (rule bit_eqI) (auto simp: bit_simps)
  finally show ?thesis by (simp add: take_bit_eq_mod drop_bit_eq_div)
qed

end
