(* ===== verification/Fifo.thy ===== *)
theory Fifo
  imports Alloc
begin

text \<open>
  The FIFO build: the code that \<open>src/mm-vm.c\<close> and \<open>src/mm.c\<close> compile when \<open>LRU\<close> is not defined in
  \<open>include/os-cfg.h\<close>. Each process has its own list \<open>fifo_pgn\<close> of mapped pages, the newest first, and
  a process only evicts its own pages. The LRU list stays empty in this build.
\<close>

section \<open>Operations\<close>

definition set_fifo :: "int \<Rightarrow> int list \<Rightarrow> paging \<Rightarrow> paging" where
  "set_fifo pid ps st = set_mm pid ((mm_of st pid)\<lparr>fifo_pgn := ps\<rparr>) st"

text \<open>
  Eviction of the oldest page: \<open>pg_getpage\<close> records the swap frame number in the entry
  (\<open>scale = 1\<close>), \<open>alloc_pages_range\<close> that number times the page size. When the active swap device is
  full, the code follows \<open>caller->mswp[i]\<close>, which is not a device (\<open>main\<close> casts an array of
  structures to an array of pointers). The return value -1 says that the process has no page.
\<close>

definition fifo_evict :: "int \<Rightarrow> int \<Rightarrow> paging \<Rightarrow> (int \<times> int option \<times> paging) res" where
  "fifo_evict pid scale st =
     (case find_victim_page (mm_of st pid) of (r, vicpgn, mm) \<Rightarrow>
      if r < 0 then ok (- 1, None, st)
      else
        let st = set_mm pid mm st in
        bindR (from_opt Uninitialised vicpgn) (\<lambda>vicpgn.
        bindR (pte_at (pid, vicpgn) st) (\<lambda>vicpte.
        let vicfpn = PAGING_PTE_FPN vicpte in
        bindR (swp_get st) (\<lambda>(r, swpfpn, st).
        if r < 0 then Inl WildPointer
        else
          bindR (from_opt Uninitialised swpfpn) (\<lambda>swpfpn.
          bindR (cp_out vicfpn swpfpn st) (\<lambda>st.
          bindR (upd_pte (pid, vicpgn) (\<lambda>w. pte_set_swap w index_of_active_mswp (s32 (swpfpn * scale))) st) (\<lambda>st.
          ok (0, Some vicfpn, st))))))))"

text \<open>The swap device is \<open>&caller->mswp[swptyp]\<close>: the active device for 0, otherwise an address inside it.\<close>

definition fifo_load :: "int \<Rightarrow> int \<Rightarrow> int \<Rightarrow> int \<Rightarrow> int \<Rightarrow> paging \<Rightarrow> paging res" where
  "fifo_load pid pg swptyp swpoff vicfpn st =
     guardR (swptyp = 0) WildPointer
       (bindR (cp_in swpoff vicfpn st) (\<lambda>st.
        bindR (swp_put swpoff st) (\<lambda>st.
        bindR (upd_pte (pid, pg) (\<lambda>w. pte_set_fpn w vicfpn) st) (\<lambda>st.
        ok (set_fifo pid (enlist_pgn_node (fifo_pgn (mm_of st pid)) pg) st)))))"

text \<open>\<open>pg_getpage\<close>. When no victim is found it returns with \<open>MEM_in_use\<close> still locked.\<close>

definition pg_getpage_fifo :: "int \<Rightarrow> int \<Rightarrow> paging \<Rightarrow> (int \<times> int option \<times> paging) res" where
  "pg_getpage_fifo pid pg st =
     bindR (MEM_lock st) (\<lambda>st.
     bindR (pte_at (pid, pg) st) (\<lambda>pte.
     if \<not> PAGING_PTE_PAGE_PRESENT pte then
       let swpoff = PAGING_SWPOFF pte; swptyp = PAGING_SWPTYP pte in
       bindR (ram_get st) (\<lambda>(r, vicfpn, st).
       bindR (if r < 0 then fifo_evict pid 1 st else ok (0, vicfpn, st)) (\<lambda>(ret, vicfpn, st).
       if ret < 0 then ok (- 1, None, st)
       else
         bindR (from_opt Uninitialised vicfpn) (\<lambda>vicfpn.
         bindR (fifo_load pid pg swptyp swpoff vicfpn st) (\<lambda>st.
         ok (0, Some (PAGING_PTE_FPN (pte_set_fpn pte vicfpn)), MEM_unlock st)))))
     else ok (0, Some (PAGING_PTE_FPN pte), MEM_unlock st)))"

fun alloc_pages_range_fifo :: "int \<Rightarrow> nat \<Rightarrow> int list \<Rightarrow> paging \<Rightarrow> (int \<times> int list \<times> paging) res" where
  "alloc_pages_range_fifo pid 0 frm_lst st = ok (0, frm_lst, st)"
| "alloc_pages_range_fifo pid (Suc n) frm_lst st =
     bindR (ram_get st) (\<lambda>(r, fpn, st).
     bindR (if r < 0 then fifo_evict pid PAGING_PAGESZ st else ok (0, fpn, st)) (\<lambda>(ret, fpn, st).
     if ret < 0 then ok (- 1, frm_lst, st)
     else
       bindR (from_opt Uninitialised fpn) (\<lambda>fpn.
       alloc_pages_range_fifo pid n (fpn # frm_lst) st)))"

fun vmap_loop_fifo :: "int \<Rightarrow> int \<Rightarrow> int \<Rightarrow> nat \<Rightarrow> int list \<Rightarrow> paging \<Rightarrow> (int \<times> paging) res" where
  "vmap_loop_fifo pid vid pg 0 fps st = ok (0, st)"
| "vmap_loop_fifo pid vid pg (Suc pgit) fps st =
     (case fps of
        [] \<Rightarrow> ok (- 1, st)
      | fp # fps \<Rightarrow>
          let p = (if vid = 0 then pg + int pgit else pg - int pgit) in
          bindR (upd_pte (pid, p) (\<lambda>w. pte_set_fpn w fp) st) (\<lambda>st.
          vmap_loop_fifo pid vid pg pgit fps
            (set_fifo pid (enlist_pgn_node (fifo_pgn (mm_of st pid)) p) st)))"

section \<open>The invariant\<close>

definition fifo_of :: "paging \<Rightarrow> int \<Rightarrow> int list" where
  "fifo_of st p = fifo_pgn (mm_of st p)"

text \<open>Frames are private and the list of a process holds its pages in RAM, each once.\<close>

definition fifo_ok :: "int set \<Rightarrow> paging \<Rightarrow> bool" where
  "fifo_ok H st \<longleftrightarrow> map_ok H st \<and> lru_es st = [] \<and>
     (\<forall>p. distinct (fifo_of st p) \<and> set (fifo_of st p) = {g. present st (p, g)})"

lemma fifo_of_update [simp]:
  "fifo_of (st\<lparr>mram := x\<rparr>) = fifo_of st" "fifo_of (st\<lparr>mswp := y\<rparr>) = fifo_of st"
  "fifo_of (st\<lparr>lock_vm := b\<rparr>) = fifo_of st" "fifo_of (st\<lparr>lock_mm := b\<rparr>) = fifo_of st"
  "fifo_of (set_pte r w st) = fifo_of st" "fifo_of (set_fifo p ps st) = (fifo_of st)(p := ps)"
  "fifo_of (MEM_unlock st) = fifo_of st"
  by (auto simp: fifo_of_def fun_eq_iff set_pte_def set_mm_def set_fifo_def MEM_unlock_def)

lemma set_fifo_simps [simp]:
  "mram (set_fifo p ps st) = mram st" "mswp (set_fifo p ps st) = mswp st" "lru (set_fifo p ps st) = lru st"
  "vmemsz (set_fifo p ps st) = vmemsz st" "lock_vm (set_fifo p ps st) = lock_vm st"
  "lock_mm (set_fifo p ps st) = lock_mm st" "pte_of (set_fifo p ps st) = pte_of st"
  "same_maps st' (set_fifo p ps st) = same_maps st' st"
  by (auto simp: set_fifo_def set_mm_def pte_of_def fun_eq_iff same_maps_def)

lemma set_fifo_obs [simp]:
  "present (set_fifo p ps st) = present st" "frame_of (set_fifo p ps st) = frame_of st"
  by (simp_all add: present_def frame_of_def fun_eq_iff)

lemma set_fifo_devices [simp]: "devices_ok (set_fifo p ps st) = devices_ok st"
  by (simp add: devices_ok_def)

lemma set_fifo_map_ok [simp]: "map_ok H (set_fifo p ps st) = map_ok H st"
  by (simp add: map_ok_def entry_ok_def used_frame_def)

lemma fifo_okD:
  assumes "fifo_ok H st"
  shows "map_ok H st" "devices_ok st" "lru_es st = []" "distinct (fifo_of st p)"
    "g \<in> set (fifo_of st p) \<longleftrightarrow> present st (p, g)"
  using assms map_okD(1) by (auto simp: fifo_ok_def)

lemma fifo_okI:
  assumes "map_ok H st" "lru_es st = []" "\<And>p. distinct (fifo_of st p)"
    "\<And>p g. g \<in> set (fifo_of st p) \<longleftrightarrow> present st (p, g)"
  shows "fifo_ok H st"
  using assms by (auto simp: fifo_ok_def)

lemma fifo_ok_locks [simp]:
  "fifo_ok H (st\<lparr>lock_vm := b\<rparr>) = fifo_ok H st" "fifo_ok H (MEM_unlock st) = fifo_ok H st"
  by (simp_all add: fifo_ok_def)

lemma fifo_ok_ram_get:
  assumes "fifo_ok H st" "free_fp_list (mram st) = f # fs"
  shows "fifo_ok (insert f H) (st\<lparr>mram := (mram st)\<lparr>free_fp_list := fs\<rparr>\<rparr>)" "f \<notin> H" "frame_in (mram st) f"
  using map_ok_ram_get [OF fifo_okD(1) [OF assms(1)] assms(2)] fifo_okD [OF assms(1)]
  by (auto intro!: fifo_okI)

section \<open>Eviction and loading\<close>

lemma find_victim_of: "fifo_of st pid = ps @ [v] \<Longrightarrow>
    find_victim_page (mm_of st pid) = (0, Some v, (mm_of st pid)\<lparr>fifo_pgn := ps\<rparr>)"
  by (simp add: fifo_of_def find_victim_snoc)

lemma fifo_victim:
  assumes "fifo_ok H st" "fifo_of st pid = ps @ [v]"
  shows "present st (pid, v)" "in_table (pid, v)" "v \<notin> set ps" "frame_in (mram st) (frame_of st (pid, v))"
    "frame_of st (pid, v) \<notin> H"
proof -
  have "v \<in> set (fifo_of st pid)" using assms(2) by simp
  then show p: "present st (pid, v)" using fifo_okD(5) [OF assms(1)] by simp
  then show "in_table (pid, v)" by (simp add: present_def)
  show "v \<notin> set ps" using fifo_okD(4) [OF assms(1), of pid] assms(2) by simp
  show "frame_in (mram st) (frame_of st (pid, v))"
    using map_okD(5) [OF fifo_okD(1) [OF assms(1)] p] by (simp add: used_frame_def)
  show "frame_of st (pid, v) \<notin> H" using map_okD(8) [OF fifo_okD(1) [OF assms(1)] _ p] by blast
qed

lemma fifo_evict_ok:
  fixes st pid v
  defines "f \<equiv> frame_of st (pid, v)"
  assumes "fifo_ok H st" "fifo_of st pid = ps @ [v]" "free_fp_list (mswp st) = g # gs"
  shows "\<exists>st'. fifo_evict pid sc st = ok (0, Some f, st') \<and> fifo_ok (insert f H) st' \<and>
    fifo_of st' = (fifo_of st)(pid := ps) \<and> same_maps st st' \<and> lock_vm st' = lock_vm st \<and>
    pte_of st' = (pte_of st)((pid, v) := pte_set_swap (pte_of st (pid, v)) 0 (s32 (g * sc))) \<and>
    mram st' = mram st \<and> mswp st' = (copy_frame (mram st) f (mswp st) g)\<lparr>free_fp_list := gs\<rparr>"
proof -
  note I = fifo_okD [OF assms(2)]
  note V = fifo_victim [OF assms(2,3)]
  let ?st1 = "set_fifo pid ps st"
  let ?st2 = "?st1\<lparr>mswp := (mswp st)\<lparr>free_fp_list := gs\<rparr>\<rparr>"
  let ?st3 = "?st2\<lparr>mswp := copy_frame (mram ?st2) f (mswp ?st2) g\<rparr>"
  let ?st4 = "set_pte (pid, v) (pte_set_swap (pte_of ?st3 (pid, v)) 0 (s32 (g * sc))) ?st3"
  have m1: "map_ok H ?st1" using I(1) by simp
  have m2: "map_ok H ?st2" "frame_in (mswp st) g" using map_ok_swp_get [OF m1, of g gs] assms(4) by simp_all
  have m3: "map_ok H ?st3" using m2(1) by (rule map_ok_cp_out)
  have m4: "map_ok (insert f H) ?st4" using map_ok_set_swap [OF m3, of "(pid, v)"] V(1) I(3) by (simp add: f_def)
  have out: "cp_out f g ?st2 = ok ?st3"
    using cp_out_eq [OF map_okD(1) [OF m2(1)], of f g] V(4) m2(2) by (simp add: f_def)
  have get: "swp_get ?st1 = ok (0, Some g, ?st2)" using map_okD(1) [OF m1] assms(4) by (simp add: swp_get_eq)
  have run: "fifo_evict pid sc st = ok (0, Some f, ?st4)"
    using get out V(2)
    by (simp add: fifo_evict_def find_victim_of [OF assms(3)] set_fifo_def [symmetric] pte_at_eq upd_pte_eq
        f_def frame_of_def index_of_active_mswp_def Let_def)
  have pr: "present ?st4 x \<longleftrightarrow> present st x \<and> x \<noteq> (pid, v)" for x by (auto simp: present_set_pte)
  have "fifo_ok (insert f H) ?st4"
  proof (rule fifo_okI [OF m4])
    show "distinct (fifo_of ?st4 p)" for p using I(4) [of p] I(4) [of pid] assms(3) by simp
    show "x \<in> set (fifo_of ?st4 p) \<longleftrightarrow> present ?st4 (p, x)" for p x
      unfolding pr using I(5) [of x p] assms(3) V(3) by auto
  qed (use I(3) in simp)
  with run show ?thesis by (intro exI [of _ ?st4]) (simp add: pte_of_set_pte fun_eq_iff)
qed

lemma fifo_load_ok:
  assumes "fifo_ok (insert f H) st" "f \<notin> H" "\<not> present st (pid, pg)" "in_table (pid, pg)" "frame_in (mswp st) k"
  shows "\<exists>st'. fifo_load pid pg 0 k f st = ok st' \<and> fifo_ok H st' \<and> present st' (pid, pg) \<and> frame_of st' (pid, pg) = f \<and>
    fifo_of st' = (fifo_of st)(pid := pg # fifo_of st pid) \<and> same_maps st st' \<and> lock_vm st' = lock_vm st \<and>
    pte_of st' = (pte_of st)((pid, pg) := pte_set_fpn (pte_of st (pid, pg)) f) \<and>
    mram st' = copy_frame (mswp st) k (mram st) f \<and>
    mswp st' = (mswp st)\<lparr>free_fp_list := k # free_fp_list (mswp st)\<rparr>"
proof -
  note I = fifo_okD [OF assms(1)]
  have f: "frame_in (mram st) f" using map_okD(7) [OF I(1), of f] by (simp add: used_frame_def)
  let ?st1 = "st\<lparr>mram := copy_frame (mswp st) k (mram st) f\<rparr>"
  let ?st2 = "?st1\<lparr>mswp := (mswp ?st1)\<lparr>free_fp_list := k # free_fp_list (mswp ?st1)\<rparr>\<rparr>"
  let ?st3 = "set_pte (pid, pg) (pte_set_fpn (pte_of ?st2 (pid, pg)) f) ?st2"
  let ?st4 = "set_fifo pid (pg # fifo_of st pid) ?st3"
  have m1: "map_ok (insert f H) ?st1" using I(1) by (rule map_ok_cp_in)
  have m2: "map_ok (insert f H) ?st2" using map_ok_swp_put [OF m1, of k] assms(5) by simp
  have m3: "map_ok H ?st3" "present ?st3 (pid, pg)" "frame_of ?st3 (pid, pg) = f"
    using map_ok_set_fpn [OF m2 assms(2), of "(pid, pg)"] assms(3,4) by simp_all
  have pr: "present ?st3 x \<longleftrightarrow> x = (pid, pg) \<or> present st x" for x using assms(4) by (simp add: present_set_pte)
  have mm: "fifo_pgn (mm_of ?st3 pid) = fifo_of st pid" using fifo_of_def [of ?st3 pid] by simp
  have run: "fifo_load pid pg 0 k f st = ok ?st4"
    using cp_in_eq [OF I(2) f assms(5)] swp_put_eq [OF map_okD(1) [OF m1], of k] assms(4) mm
    by (simp add: fifo_load_def upd_pte_eq enlist_pgn_node_def)
  have "fifo_ok H ?st4"
  proof (rule fifo_okI)
    show "distinct (fifo_of ?st4 p)" for p using I(4) [of p] I(4) [of pid] I(5) [of pg pid] assms(3) by simp
    show "x \<in> set (fifo_of ?st4 p) \<longleftrightarrow> present ?st4 (p, x)" for p x
      using I(5) [of x p] assms(4) by (auto simp: present_set_pte)
  qed (use m3 I(3) in simp_all)
  with run m3 show ?thesis by (intro exI [of _ ?st4]) (simp add: pte_of_set_pte fun_eq_iff)
qed


section \<open>Page faults\<close>

lemma getpage_fifo_evict:
  fixes st pid pg v g
  defines "r \<equiv> (pid, pg)" and "f \<equiv> frame_of st (pid, v)" and "k \<equiv> PAGING_SWPOFF (pte_of st (pid, pg))"
  assumes "fifo_ok H st" "\<not> lock_vm st" "\<not> present st (pid, pg)" "in_table (pid, pg)" "free_fp_list (mram st) = []"
    and "fifo_of st pid = ps @ [v]" "free_fp_list (mswp st) = g # gs"
    and "PAGING_SWPTYP (pte_of st (pid, pg)) = 0" "frame_in (mswp st) (PAGING_SWPOFF (pte_of st (pid, pg)))"
  shows "\<exists>st'. pg_getpage_fifo pid pg st = ok (0, Some f, st') \<and> fifo_ok H st' \<and> \<not> lock_vm st' \<and> same_maps st st' \<and>
    present st' r \<and> frame_of st' r = f \<and> fifo_of st' = (fifo_of st)(pid := pg # ps) \<and>
    pte_of st' = (pte_of st)((pid, v) := pte_set_swap (pte_of st (pid, v)) 0 (s32 g), r := pte_set_fpn (pte_of st r) f) \<and>
    mram st' = copy_frame (copy_frame (mram st) f (mswp st) g) k (mram st) f \<and>
    mswp st' = (copy_frame (mram st) f (mswp st) g)\<lparr>free_fp_list := k # gs\<rparr>"
proof -
  let ?st0 = "st\<lparr>lock_vm := True\<rparr>"
  have m0: "fifo_ok H ?st0" "fifo_of ?st0 pid = ps @ [v]" "free_fp_list (mswp ?st0) = g # gs" using assms by simp_all
  note V = fifo_victim [OF m0(1,2)]
  have rv: "pg \<noteq> v" using V(1) assms(6) by auto
  obtain st1 where e: "fifo_evict pid 1 ?st0 = ok (0, Some f, st1)" "fifo_ok (insert f H) st1"
    "fifo_of st1 = (fifo_of st)(pid := ps)" "same_maps st st1" "lock_vm st1"
    "pte_of st1 = (pte_of st)((pid, v) := pte_set_swap (pte_of st (pid, v)) 0 (s32 g))"
    "mram st1 = mram st" "mswp st1 = (copy_frame (mram st) f (mswp st) g)\<lparr>free_fp_list := gs\<rparr>"
    using fifo_evict_ok [OF m0, of 1] by (auto simp: f_def same_maps_def)
  have pr: "\<not> present st1 (pid, pg)" "f \<notin> H" using assms(6) V(5) rv by (simp_all add: present_def e(6) f_def)
  obtain st2 where l: "fifo_load pid pg 0 k f st1 = ok st2" "fifo_ok H st2" "present st2 r" "frame_of st2 r = f"
    "fifo_of st2 = (fifo_of st1)(pid := pg # fifo_of st1 pid)" "same_maps st1 st2"
    "pte_of st2 = (pte_of st1)(r := pte_set_fpn (pte_of st1 r) f)"
    "mram st2 = copy_frame (mswp st1) k (mram st1) f" "mswp st2 = (mswp st1)\<lparr>free_fp_list := k # free_fp_list (mswp st1)\<rparr>"
    using fifo_load_ok [OF e(2) pr(2,1) assms(7), of k] assms(12) e(8) by (auto simp: r_def k_def)
  have f: "PAGING_PTE_FPN (pte_set_fpn w f) = f" for w
    using used_frame_bound [OF fifo_okD(2) [OF m0(1)], of f] map_okD(5) [OF fifo_okD(1) [OF m0(1)] V(1)]
    by (simp add: f_def)
  have "pg_getpage_fifo pid pg st = ok (0, Some f, MEM_unlock st2)"
    using assms(5-8,11) fifo_okD(2) [OF m0(1)] e(1) l(1) f
    by (simp add: pg_getpage_fifo_def MEM_lock_def pte_at_eq present_def ram_get_eq k_def)
  moreover have "same_maps st st2" using e(4) l(6) by (rule same_maps_trans)
  ultimately show ?thesis using l rv
    by (intro exI [of _ "MEM_unlock st2"]) (simp add: e r_def fun_eq_iff)
qed

lemma s32_slot: "s32 g mod 2097152 = g mod 2097152"
proof -
  have "s32 g = g - 2097152 * (2048 * ((g + 2147483648) div 4294967296))"
    unfolding s32_def minus_div_mult_eq_mod [symmetric] by simp
  then show ?thesis by (metis mod_mult_self4 add.commute diff_add_cancel)
qed

section \<open>New pages\<close>

lemma fifo_snocE:
  assumes "xs \<noteq> []" obtains ys y where "xs = ys @ [y]"
  using assms by (cases xs rule: rev_cases) auto

lemma alloc_fifo_frame:
  assumes "fifo_ok H st" "alloc_pages_range_fifo pid (Suc n) fs st = ok (0, fs', st')"
  shows "\<exists>f st1. alloc_pages_range_fifo pid n (f # fs) st1 = ok (0, fs', st') \<and> fifo_ok (insert f H) st1 \<and> f \<notin> H \<and>
    same_maps st st1 \<and> lock_vm st1 = lock_vm st \<and> (\<forall>x. present st1 x \<longrightarrow> present st x) \<and>
    (\<exists>vs. fifo_of st pid = fifo_of st1 pid @ vs)"
proof (cases "free_fp_list (mram st)")
  case (Cons f rest)
  let ?st = "st\<lparr>mram := (mram st)\<lparr>free_fp_list := rest\<rparr>\<rparr>"
  have "alloc_pages_range_fifo pid n (f # fs) ?st = ok (0, fs', st')"
    using assms(2) Cons fifo_okD(2) [OF assms(1)] by (simp add: ram_get_eq)
  with fifo_ok_ram_get [OF assms(1) Cons] show ?thesis by (intro exI [of _ f] exI [of _ ?st]) simp
next
  case Nil
  obtain ret fo st1 where e: "fifo_evict pid PAGING_PAGESZ st = ok (ret, fo, st1)" "\<not> ret < 0"
    using assms(2) Nil fifo_okD(2) [OF assms(1)] by (auto simp: ram_get_eq split: if_splits)
  have "fifo_of st pid \<noteq> []" using e by (auto simp: fifo_evict_def find_victim_page_def fifo_of_def)
  then obtain ps v where ps: "fifo_of st pid = ps @ [v]" by (rule fifo_snocE)
  have "free_fp_list (mswp st) \<noteq> []"
  proof
    assume "free_fp_list (mswp st) = []"
    then have "swp_get (set_fifo pid ps st) = ok (- 1, None, set_fifo pid ps st)"
      using fifo_okD(2) [OF assms(1)] by (simp add: swp_get_eq)
    with e(1) show False
      using fifo_victim(2) [OF assms(1) ps]
      by (simp add: fifo_evict_def find_victim_of [OF ps] set_fifo_def [symmetric] pte_at_eq Let_def)
  qed
  then obtain g gs where "free_fp_list (mswp st) = g # gs" by (cases "free_fp_list (mswp st)") auto
  note E = fifo_evict_ok [OF assms(1) ps this, of PAGING_PAGESZ]
  let ?f = "frame_of st (pid, v)"
  have r: "fo = Some ?f" "ret = 0" "fifo_ok (insert ?f H) st1" "fifo_of st1 pid = ps" "same_maps st st1" "lock_vm st1 = lock_vm st"
    "pte_of st1 = (pte_of st)((pid, v) := pte_set_swap (pte_of st (pid, v)) 0 (s32 (g * PAGING_PAGESZ)))"
    using E e(1) by auto
  have "alloc_pages_range_fifo pid n (?f # fs) st1 = ok (0, fs', st')"
    using assms(2) Nil fifo_okD(2) [OF assms(1)] e(1) r(1,2) by (simp add: ram_get_eq)
  moreover have "present st1 x \<longrightarrow> present st x" for x by (simp add: present_def r(7))
  ultimately show ?thesis
    using r(3-6) fifo_victim(5) [OF assms(1) ps] ps by (intro exI [of _ ?f] exI [of _ st1]) simp
qed

lemma alloc_fifo_inv:
  assumes "fifo_ok H st" "alloc_pages_range_fifo pid n fs st = ok (0, fs', st')"
  shows "\<exists>new vs. fs' = new @ fs \<and> length new = n \<and> distinct new \<and> set new \<inter> H = {} \<and> fifo_ok (H \<union> set new) st' \<and>
    same_maps st st' \<and> lock_vm st' = lock_vm st \<and> (\<forall>x. present st' x \<longrightarrow> present st x) \<and> fifo_of st pid = fifo_of st' pid @ vs"
  using assms
proof (induction n arbitrary: H fs st)
  case 0
  then show ?case by simp
next
  case (Suc n)
  obtain f st1 us where 1: "alloc_pages_range_fifo pid n (f # fs) st1 = ok (0, fs', st')" "fifo_ok (insert f H) st1" "f \<notin> H"
    "same_maps st st1" "lock_vm st1 = lock_vm st" "\<forall>x. present st1 x \<longrightarrow> present st x" "fifo_of st pid = fifo_of st1 pid @ us"
    using alloc_fifo_frame [OF Suc.prems] by metis
  obtain new vs where new: "fs' = new @ f # fs" "length new = n" "distinct new" "set new \<inter> insert f H = {}"
    "fifo_ok (insert f H \<union> set new) st'" "same_maps st1 st'" "lock_vm st' = lock_vm st1"
    "\<forall>x. present st' x \<longrightarrow> present st1 x" "fifo_of st1 pid = fifo_of st' pid @ vs"
    using Suc.IH [OF 1(2,1)] by metis
  have "same_maps st st'" using 1(4) new(6) by (rule same_maps_trans)
  with new 1 show ?case by (intro exI [of _ "new @ [f]"] exI [of _ "vs @ us"]) simp
qed

lemma vmap_fifo_ok:
  assumes "fifo_ok (H \<union> set fps) st" "distinct fps" "set fps \<inter> H = {}" "length fps = n"
    and "\<forall>k < n. in_table (pid, page_seq vid pg k) \<and> \<not> present st (pid, page_seq vid pg k)"
  shows "\<exists>st'. vmap_loop_fifo pid vid pg n fps st = ok (0, st') \<and> fifo_ok H st' \<and> same_maps st st' \<and>
    lock_vm st' = lock_vm st \<and> mram st' = mram st \<and>
    fifo_of st' pid = map (page_seq vid pg) [0..<n] @ fifo_of st pid"
  using assms
proof (induction n arbitrary: fps st)
  case 0
  then show ?case by simp
next
  case (Suc n)
  obtain f fs where fps: "fps = f # fs" using Suc.prems(4) by (cases fps) auto
  note I = fifo_okD [OF Suc.prems(1)]
  let ?p = "page_seq vid pg n"
  let ?st1 = "set_pte (pid, ?p) (pte_set_fpn (pte_of st (pid, ?p)) f) st"
  let ?st2 = "set_fifo pid (?p # fifo_of st pid) ?st1"
  have p: "in_table (pid, ?p)" "\<not> present st (pid, ?p)" using Suc.prems(5) by simp_all
  have m0: "map_ok (insert f (H \<union> set fs)) st" "f \<notin> H \<union> set fs" using I(1) Suc.prems(2,3) fps by auto
  note m1 = map_ok_set_fpn [OF m0 p(2,1)]
  have pr: "present ?st2 x \<longleftrightarrow> x = (pid, ?p) \<or> present st x" for x using p(1) by (auto simp: present_set_pte)
  have ok2: "fifo_ok (H \<union> set fs) ?st2"
  proof (rule fifo_okI)
    show "distinct (fifo_of ?st2 q)" for q using I(4) [of q] I(4) [of pid] I(5) [of ?p pid] p(2) by simp
    show "x \<in> set (fifo_of ?st2 q) \<longleftrightarrow> present ?st2 (q, x)" for q x using I(5) [of x q] pr by auto
  qed (use m1 I(3) in simp_all)
  have "\<exists>st'. vmap_loop_fifo pid vid pg n fs ?st2 = ok (0, st') \<and> fifo_ok H st' \<and> same_maps ?st2 st' \<and>
    lock_vm st' = lock_vm ?st2 \<and> mram st' = mram ?st2 \<and>
    fifo_of st' pid = map (page_seq vid pg) [0..<n] @ fifo_of ?st2 pid"
    by (rule Suc.IH [OF ok2]) (use Suc.prems fps pr in auto)
  then obtain st' where st': "vmap_loop_fifo pid vid pg n fs ?st2 = ok (0, st')" "fifo_ok H st'" "same_maps ?st2 st'"
    "lock_vm st' = lock_vm ?st2" "mram st' = mram ?st2" "fifo_of st' pid = map (page_seq vid pg) [0..<n] @ fifo_of ?st2 pid"
    by metis
  have mm: "fifo_pgn (mm_of ?st1 pid) = fifo_of st pid" using fifo_of_def [of ?st1 pid] by simp
  have "vmap_loop_fifo pid vid pg (Suc n) fps st = ok (0, st')"
    using fps p(1) st'(1) mm by (simp add: upd_pte_eq page_seq_def enlist_pgn_node_def)
  moreover have "same_maps st ?st2" by simp
  then have "same_maps st st'" using st'(3) by (rule same_maps_trans)
  ultimately show ?case using st'(2,4-6) by (intro exI [of _ st']) simp
qed


section \<open>Properties\<close>

text \<open>
  C23. The FIFO build, a page fault with RAM full and room in swap: the victim is the page of the process
  that has been in RAM longest; it is written to the free swap frame \<open>g\<close>, its entry names that
  frame, and the faulting page is read from the swap frame its own entry names and becomes the
  newest page of the process. Every other page in RAM keeps frame and content, and the list of each
  process still holds exactly its pages in RAM.
\<close>

theorem fifo_page_fault:
  assumes "fifo_ok H st" "\<not> lock_vm st" "\<not> present st (pid, pg)" "in_table (pid, pg)" "free_fp_list (mram st) = []"
    and "fifo_of st pid = ps @ [v]" "free_fp_list (mswp st) = g # gs"
    and "PAGING_SWPTYP (pte_of st (pid, pg)) = 0" "frame_in (mswp st) (PAGING_SWPOFF (pte_of st (pid, pg)))"
  shows "\<exists>st'. pg_getpage_fifo pid pg st = ok (0, Some (frame_of st (pid, v)), st') \<and> fifo_ok H st' \<and> \<not> lock_vm st' \<and>
    fifo_of st' = (fifo_of st)(pid := pg # ps) \<and>
    present st' (pid, pg) \<and> frame_of st' (pid, pg) = frame_of st (pid, v) \<and>
    \<not> present st' (pid, v) \<and> PAGING_SWPTYP (pte_of st' (pid, v)) = 0 \<and> PAGING_SWPOFF (pte_of st' (pid, v)) = g mod 2097152 \<and>
    (\<forall>i. 0 \<le> i \<and> i < 256 \<longrightarrow>
       frame_bytes (mswp st') g i = page_byte st (pid, v) i \<and>
       page_byte st' (pid, pg) i =
         (if PAGING_SWPOFF (pte_of st (pid, pg)) = g then page_byte st (pid, v) i
          else frame_bytes (mswp st) (PAGING_SWPOFF (pte_of st (pid, pg))) i)) \<and>
    others_kept (pid, v) st st'"
proof -
  let ?v = "(pid, v)" and ?r = "(pid, pg)" and ?k = "PAGING_SWPOFF (pte_of st (pid, pg))"
  let ?f = "frame_of st ?v"
  have v: "present st ?v" using fifo_victim(1) [OF assms(1,6)] .
  then have rv: "pg \<noteq> v" using assms(3) by auto
  obtain st' where st': "pg_getpage_fifo pid pg st = ok (0, Some ?f, st')" "fifo_ok H st'" "\<not> lock_vm st'"
    "present st' ?r" "frame_of st' ?r = ?f" "fifo_of st' = (fifo_of st)(pid := pg # ps)"
    "pte_of st' = (pte_of st)(?v := pte_set_swap (pte_of st ?v) 0 (s32 g), ?r := pte_set_fpn (pte_of st ?r) ?f)"
    "mram st' = copy_frame (copy_frame (mram st) ?f (mswp st) g) ?k (mram st) ?f"
    "mswp st' = (copy_frame (mram st) ?f (mswp st) g)\<lparr>free_fp_list := ?k # gs\<rparr>"
    using getpage_fifo_evict [OF assms] by metis
  have out: "frame_bytes (mswp st') g i = page_byte st ?v i" if "0 \<le> i" "i < 256" for i
    using frame_bytes_copy_frame [OF that, of "mram st" ?f "mswp st" g g] by (simp add: st'(9) page_byte_def frame_bytes_def)
  have inn: "page_byte st' ?r i = (if ?k = g then page_byte st ?v i else frame_bytes (mswp st) ?k i)"
    if "0 \<le> i" "i < 256" for i
    using that by (simp add: page_byte_def st'(5,8) frame_bytes_copy_frame)
  have others: "others_kept ?v st st'"
  proof (rule others_keptI)
    show "pte_of st' x = pte_of st x" if "present st x" "x \<noteq> ?v" for x
      using that assms(3) by (auto simp: st'(7))
    show "frame_bytes (mram st') (frame_of st x) i = frame_bytes (mram st) (frame_of st x) i"
      if "present st x" "x \<noteq> ?v" "0 \<le> i" "i < 256" for x i
      using map_okD(6) [OF fifo_okD(1) [OF assms(1)] that(1) v] that by (auto simp: st'(8) frame_bytes_copy_frame)
  qed
  have "pte_of st' ?v = pte_set_swap (pte_of st ?v) 0 (s32 g)" using rv by (simp add: st'(7))
  then have gone: "\<not> present st' ?v" "PAGING_SWPTYP (pte_of st' ?v) = 0" "PAGING_SWPOFF (pte_of st' ?v) = g mod 2097152"
    by (simp_all add: present_def SWPOFF_pte_set_swap SWPTYP_pte_set_swap s32_slot)
  from st'(1-6) gone out inn others show ?thesis by (intro exI [of _ st']) simp
qed

text \<open>
  C22. In the FIFO build a page survives swapping: when the fault of another page evicts page \<open>v\<close> and a later
  fault brings it back, RAM being full both times, it has its 256 bytes again. (The swap frame must
  be below the width of the entry's field and not in use by the page that is loaded.)
\<close>

theorem fifo_swap_roundtrip:
  assumes "fifo_ok H st" "\<not> lock_vm st" "\<not> present st (pid, pg)" "in_table (pid, pg)" "free_fp_list (mram st) = []"
    and "fifo_of st pid = ps @ [v]" "free_fp_list (mswp st) = g # gs"
    and "PAGING_SWPTYP (pte_of st (pid, pg)) = 0" "frame_in (mswp st) (PAGING_SWPOFF (pte_of st (pid, pg)))"
    and "g < 2097152" "PAGING_SWPOFF (pte_of st (pid, pg)) \<noteq> g"
  shows "\<exists>f1 st1 f2 st2. pg_getpage_fifo pid pg st = ok (0, Some f1, st1) \<and> pg_getpage_fifo pid v st1 = ok (0, Some f2, st2) \<and>
    fifo_ok H st2 \<and> present st2 (pid, v) \<and> (\<forall>i. 0 \<le> i \<and> i < 256 \<longrightarrow> page_byte st2 (pid, v) i = page_byte st (pid, v) i)"
proof -
  let ?v = "(pid, v)" and ?r = "(pid, pg)" and ?k = "PAGING_SWPOFF (pte_of st (pid, pg))"
  let ?f = "frame_of st ?v"
  have V: "in_table ?v" "present st ?v" using fifo_victim [OF assms(1,6)] by simp_all
  then have rv: "pg \<noteq> v" using assms(3) by auto
  obtain st1 where st1: "pg_getpage_fifo pid pg st = ok (0, Some ?f, st1)" "fifo_ok H st1" "\<not> lock_vm st1"
    "fifo_of st1 = (fifo_of st)(pid := pg # ps)"
    "pte_of st1 = (pte_of st)(?v := pte_set_swap (pte_of st ?v) 0 (s32 g), ?r := pte_set_fpn (pte_of st ?r) ?f)"
    "mram st1 = copy_frame (copy_frame (mram st) ?f (mswp st) g) ?k (mram st) ?f"
    "mswp st1 = (copy_frame (mram st) ?f (mswp st) g)\<lparr>free_fp_list := ?k # gs\<rparr>"
    using getpage_fifo_evict [OF assms(1-9)] by metis
  have g: "0 \<le> g" "frame_in (mswp st) g"
    using map_ok_swp_get(2) [OF fifo_okD(1) [OF assms(1)] assms(7)] by (simp_all add: frame_in_def)
  have w: "pte_of st1 ?v = pte_set_swap (pte_of st ?v) 0 (s32 g)" using rv by (simp add: st1(5))
  have pre: "\<not> present st1 ?v" "PAGING_SWPTYP (pte_of st1 ?v) = 0" "PAGING_SWPOFF (pte_of st1 ?v) = g"
    using w g(1) assms(10) by (simp_all add: present_def SWPTYP_pte_set_swap SWPOFF_pte_set_swap s32_slot)
  obtain ps' u where u: "fifo_of st1 pid = ps' @ [u]" by (rule fifo_snocE [of "fifo_of st1 pid"]) (simp add: st1(4))
  have full: "free_fp_list (mram st1) = []" "free_fp_list (mswp st1) = ?k # gs" "frame_in (mswp st1) g"
    using assms(5) g(2) by (simp_all add: st1(6,7))
  obtain st2 where st2: "pg_getpage_fifo pid v st1 = ok (0, Some (frame_of st1 (pid, u)), st2)" "fifo_ok H st2" "present st2 ?v"
    "frame_of st2 ?v = frame_of st1 (pid, u)"
    "mram st2 = copy_frame (copy_frame (mram st1) (frame_of st1 (pid, u)) (mswp st1) ?k) g (mram st1) (frame_of st1 (pid, u))"
    using getpage_fifo_evict [OF st1(2,3) pre(1) V(1) full(1) u full(2) pre(2)] full(3) unfolding pre(3) by blast
  have "page_byte st2 ?v i = page_byte st ?v i" if i: "0 \<le> i" "i < 256" for i
  proof -
    have "page_byte st2 ?v i = frame_bytes (mswp st1) g i"
      using i assms(11) by (simp add: page_byte_def st2(4,5) frame_bytes_copy_frame)
    also have "\<dots> = frame_bytes (copy_frame (mram st) ?f (mswp st) g) g i" by (simp add: st1(7) frame_bytes_def)
    also have "\<dots> = page_byte st ?v i" using i by (simp add: frame_bytes_copy_frame page_byte_def)
    finally show ?thesis .
  qed
  with st1(1) st2(1-3) show ?thesis by blast
qed

text \<open>
  C30. New pages in the FIFO build: when \<open>alloc_pages_range\<close> finds \<open>n\<close> frames, mapping them to \<open>n\<close> unmapped pages of
  the table succeeds, frames stay private, and the new pages become the newest of the process, in
  front of what is left of its older pages (evictions take the oldest ones).
\<close>

theorem fifo_new_pages:
  assumes "fifo_ok {} st" "alloc_pages_range_fifo pid n [] st = ok (0, fps, st1)"
    and "\<forall>k < n. in_table (pid, page_seq vid pg k) \<and> \<not> present st (pid, page_seq vid pg k)"
  shows "\<exists>st2 old vs. length fps = n \<and> vmap_loop_fifo pid vid pg n fps st1 = ok (0, st2) \<and> fifo_ok {} st2 \<and> same_maps st st2 \<and>
    fifo_of st2 pid = map (page_seq vid pg) [0..<n] @ old \<and> fifo_of st pid = old @ vs"
proof -
  obtain vs where a: "length fps = n" "distinct fps" "fifo_ok ({} \<union> set fps) st1" "same_maps st st1"
    "\<forall>x. present st1 x \<longrightarrow> present st x" "fifo_of st pid = fifo_of st1 pid @ vs"
    using alloc_fifo_inv [OF assms(1,2)] by auto
  have "\<forall>k < n. in_table (pid, page_seq vid pg k) \<and> \<not> present st1 (pid, page_seq vid pg k)"
    using assms(3) a(5) by blast
  from vmap_fifo_ok [OF a(3,2) _ a(1) this]
  obtain st2 where "vmap_loop_fifo pid vid pg n fps st1 = ok (0, st2)" "fifo_ok {} st2" "same_maps st1 st2"
    "fifo_of st2 pid = map (page_seq vid pg) [0..<n] @ fifo_of st1 pid" by auto
  with a(1,6) same_maps_trans [OF a(4)] show ?thesis by blast
qed

text \<open>
  The two evictions of the FIFO build disagree: \<open>alloc_pages_range\<close> writes the victim to swap frame \<open>g\<close> but
  records \<open>256 * g\<close> in its entry (mod the width of the field), the frame a later fault then asks
  for; the page comes back right only from frame 0.
\<close>

theorem fifo_alloc_wrong_slot:
  assumes "fifo_ok H st" "free_fp_list (mram st) = []" "fifo_of st pid = ps @ [v]" "free_fp_list (mswp st) = g # gs"
  shows "\<exists>st'. alloc_pages_range_fifo pid 1 [] st = ok (0, [frame_of st (pid, v)], st') \<and> \<not> present st' (pid, v) \<and>
    (\<forall>i. 0 \<le> i \<and> i < 256 \<longrightarrow> frame_bytes (mswp st') g i = page_byte st (pid, v) i) \<and>
    PAGING_SWPOFF (pte_of st' (pid, v)) = 256 * g mod 2097152"
proof -
  let ?f = "frame_of st (pid, v)"
  obtain st' where e: "fifo_evict pid PAGING_PAGESZ st = ok (0, Some ?f, st')"
    "pte_of st' = (pte_of st)((pid, v) := pte_set_swap (pte_of st (pid, v)) 0 (s32 (g * PAGING_PAGESZ)))"
    "mswp st' = (copy_frame (mram st) ?f (mswp st) g)\<lparr>free_fp_list := gs\<rparr>"
    using fifo_evict_ok [OF assms(1,3,4)] by metis
  have run: "alloc_pages_range_fifo pid 1 [] st = ok (0, [?f], st')"
    using e(1) assms(2) fifo_okD(2) [OF assms(1)] by (simp add: ram_get_eq)
  have "frame_bytes (mswp st') g i = page_byte st (pid, v) i" if "0 \<le> i" "i < 256" for i
    using frame_bytes_copy_frame [OF that, of "mram st" ?f "mswp st" g g] by (simp add: e(3) page_byte_def frame_bytes_def)
  then show ?thesis using run
    by (simp add: e(2) present_def SWPOFF_pte_set_swap s32_slot PAGING_PAGESZ_def mult.commute)
qed

text \<open>
  A fault of a process that has no page in RAM, with RAM full, returns -1 and leaves \<open>MEM_in_use\<close> locked:
  every later call of \<open>pg_getpage\<close>, by any process and for any page, waits for ever.
\<close>

theorem fifo_lock_leak:
  assumes "devices_ok st" "\<not> lock_vm st" "\<not> present st (pid, pg)" "in_table (pid, pg)" "free_fp_list (mram st) = []"
    and "fifo_of st pid = []"
  shows "\<exists>st'. pg_getpage_fifo pid pg st = ok (- 1, None, st') \<and> (\<forall>q g. pg_getpage_fifo q g st' = Inl Diverges)"
proof -
  let ?st = "st\<lparr>lock_vm := True\<rparr>"
  have "fifo_pgn (mm_of st pid) = []" using assms(6) by (simp add: fifo_of_def)
  then have "fifo_evict pid 1 ?st = ok (- 1, None, ?st)" by (simp add: fifo_evict_def find_victim_page_def)
  moreover have "devices_ok ?st" using assms(1) by (simp add: devices_ok_def)
  ultimately have "pg_getpage_fifo pid pg st = ok (- 1, None, ?st)"
    using assms(2-5) by (simp add: pg_getpage_fifo_def MEM_lock_def pte_at_eq present_def ram_get_eq Let_def)
  then show ?thesis by (intro exI [of _ ?st]) (simp add: pg_getpage_fifo_def MEM_lock_def)
qed

section \<open>Witnesses\<close>

text \<open>As \<open>st_ex\<close>: process 1 has its page 0 in RAM.\<close>

definition st_fifo :: "int list \<Rightarrow> int list \<Rightarrow> paging" where
  "st_fifo rf sf = set_fifo 1 [0] ((st_ex rf sf)\<lparr>lru := lru0\<rparr>)"

lemma st_fifo_simps [simp]:
  "free_fp_list (mram (st_fifo rf sf)) = rf" "free_fp_list (mswp (st_fifo rf sf)) = sf" "\<not> lock_vm (st_fifo rf sf)"
  "frame_in (mswp (st_fifo rf sf)) 0" "present (st_fifo rf sf) r \<longleftrightarrow> r = (1, 0)" "frame_of (st_fifo rf sf) r = 0"
  "fifo_of (st_fifo rf sf) p = (if p = 1 then [0] else [])"
  "lru_es (st_fifo rf sf) = []" "PAGING_SWPTYP (pte_of (st_fifo rf sf) (p, 1)) = 0" "PAGING_SWPOFF (pte_of (st_fifo rf sf) (p, 1)) = 0"
  by (simp_all add: st_fifo_def st_ex_pte SWPTYP_pte_set_swap SWPOFF_pte_set_swap lru0_ok)
    (simp add: fifo_of_def st_ex_def mm_ex_def)

lemma st_fifo_ok: "rf = [] \<or> rf = [1] \<Longrightarrow> \<forall>g \<in> set sf. g = 0 \<or> g = 1 \<Longrightarrow> fifo_ok {} (st_fifo rf sf)"
proof (rule fifo_okI)
  assume "rf = [] \<or> rf = [1]" "\<forall>g \<in> set sf. g = 0 \<or> g = 1"
  then have "map_ok {} (st_ex rf sf)" by (rule st_ex_ok)
  from map_ok_lru [OF this, of lru0] show "map_ok {} (st_fifo rf sf)" by (simp add: st_fifo_def lru0_ok)
qed auto


theorem fifo_page_fault_witness:
  "\<exists>st'. pg_getpage_fifo 1 1 (st_fifo [] [1]) = ok (0, Some 0, st') \<and> fifo_of st' 1 = [1] \<and> \<not> present st' (1, 0) \<and>
     PAGING_SWPOFF (pte_of st' (1, 0)) = 1"
proof -
  have "fifo_ok {} (st_fifo [] [1])" by (rule st_fifo_ok) simp_all
  from fifo_page_fault [OF this, of 1 1 "[]" 0 1 "[]"] show ?thesis by auto
qed

theorem fifo_swap_roundtrip_witness:
  "\<exists>f1 st1 f2 st2. pg_getpage_fifo 1 1 (st_fifo [] [1]) = ok (0, Some f1, st1) \<and>
     pg_getpage_fifo 1 0 st1 = ok (0, Some f2, st2) \<and> page_byte st2 (1, 0) 7 = page_byte (st_fifo [] [1]) (1, 0) 7"
proof -
  have "fifo_ok {} (st_fifo [] [1])" by (rule st_fifo_ok) simp_all
  from fifo_swap_roundtrip [OF this, of 1 1 "[]" 0 1 "[]"]
  obtain f1 st1 f2 st2 where "pg_getpage_fifo 1 1 (st_fifo [] [1]) = ok (0, Some f1, st1)"
    "pg_getpage_fifo 1 0 st1 = ok (0, Some f2, st2)"
    "\<forall>i. 0 \<le> i \<and> i < 256 \<longrightarrow> page_byte st2 (1, 0) i = page_byte (st_fifo [] [1]) (1, 0) i" by auto
  then show ?thesis by auto
qed

theorem fifo_new_pages_witness:
  "\<exists>st1 st2. alloc_pages_range_fifo 1 1 [] (st_fifo [1] []) = ok (0, [1], st1) \<and>
     vmap_loop_fifo 1 0 1 1 [1] st1 = ok (0, st2) \<and> hd (fifo_of st2 1) = 1"
proof -
  have I: "fifo_ok {} (st_fifo [1] [])" by (rule st_fifo_ok) simp_all
  obtain st1 where a: "alloc_pages_range_fifo 1 1 [] (st_fifo [1] []) = ok (0, [1], st1)"
    using fifo_okD(2) [OF I] by (simp add: ram_get_eq)
  have "\<forall>k < 1. in_table (1, page_seq 0 1 k) \<and> \<not> present (st_fifo [1] []) (1, page_seq 0 1 k)"
    by (simp add: page_seq_def)
  from fifo_new_pages [OF I a this] a show ?thesis by (auto simp: page_seq_def)
qed

theorem fifo_alloc_wrong_slot_witness:
  "\<exists>st'. alloc_pages_range_fifo 1 1 [] (st_fifo [] [1]) = ok (0, [0], st') \<and> PAGING_SWPOFF (pte_of st' (1, 0)) = 256"
proof -
  have "fifo_ok {} (st_fifo [] [1])" by (rule st_fifo_ok) simp_all
  from fifo_alloc_wrong_slot [OF this, of 1 "[]" 0 1 "[]"] show ?thesis by auto
qed

theorem fifo_lock_leak_witness:
  "\<exists>st'. pg_getpage_fifo 2 1 (st_fifo [] []) = ok (- 1, None, st') \<and> pg_getpage_fifo 1 0 st' = Inl Diverges"
proof -
  have "fifo_ok {} (st_fifo [] [])" by (rule st_fifo_ok) simp_all
  from fifo_lock_leak [OF fifo_okD(2) [OF this], of 2 1] show ?thesis by (auto simp: in_table_def PAGING_MAX_PGN_eq)
qed

end
