(* ===== verification/Report.thy ===== *)
theory Report
  imports Cpu
begin

text \<open>
  The status reports that \<open>__alloc\<close> and \<open>__free\<close> of \<open>src/mm-vm.c\<close> print when \<open>RAM_STATUS_DUMP\<close> is defined: the
  regions in the symbol table, the free regions of all areas, the area concerned, the frame counts
  of RAM and the pages of the LRU list. A report is the list of the numbers of its lines.
\<close>

section \<open>Reports\<close>

definition alloc_rows :: "mm_struct \<Rightarrow> (int \<times> int \<times> int \<times> int) list" where
  "alloc_rows mm =
     map (\<lambda>it. (it, rg_start (symrgtbl mm it), rg_end (symrgtbl mm it), vmaid (symrgtbl mm it)))
       (filter (\<lambda>it. \<not> (rg_start (symrgtbl mm it) = 0 \<and> rg_end (symrgtbl mm it) = 0)) [0..PAGING_MAX_SYMTBL_SZ - 1])"

definition free_row :: "vm_rg_struct \<Rightarrow> int \<times> int \<times> int \<times> int" where
  "free_row temp =
     (if vmaid temp = 0 then (rg_start temp, rg_end temp, 0, u64 (rg_end temp - rg_start temp + 1))
      else (rg_start temp, rg_end temp, 1, u64 (rg_start temp - rg_end temp + 1)))"

definition free_rows :: "mm_struct \<Rightarrow> (int \<times> int \<times> int \<times> int) list" where
  "free_rows mm =
     concat (map (\<lambda>vma. map free_row (filter (\<lambda>temp. rg_start temp \<noteq> rg_end temp) (vm_freerg_list vma))) (mmap mm))"

record alloc_report =
  rep_alloc :: "(int \<times> int \<times> int \<times> int) list"
  rep_free :: "(int \<times> int \<times> int \<times> int) list"
  rep_vma :: "int \<times> int \<times> int \<times> int"
  rep_ram :: "int \<times> int"
  rep_lru :: "int list"

definition print_alloc :: "int \<Rightarrow> int \<Rightarrow> paging \<Rightarrow> alloc_report res" where
  "print_alloc P vid st =
     bindR (from_opt NullDeref (get_vma_by_num (mm_of st P) vid)) (\<lambda>cur_vma.
     ok \<lparr>rep_alloc = alloc_rows (mm_of st P), rep_free = free_rows (mm_of st P),
         rep_vma = (vm_id cur_vma, vm_start cur_vma, vm_end cur_vma, sbrk cur_vma),
         rep_ram = RAM_dump (mram st), rep_lru = print_LRU_page (lru st)\<rparr>)"

text \<open>The same report is printed where a free region is reused; FREE prints the two lists of regions.\<close>

definition print_found :: "int \<Rightarrow> int \<Rightarrow> paging \<Rightarrow> alloc_report res" where
  "print_found P vid st = print_alloc P vid st"

definition print_free :: "int \<Rightarrow> paging \<Rightarrow> (int \<times> int \<times> int \<times> int) list \<times> (int \<times> int \<times> int \<times> int) list" where
  "print_free P st = (alloc_rows (mm_of st P), free_rows (mm_of st P))"

section \<open>Facts\<close>

lemma filter_upd_rows:
  assumes "rg_start rg = 0" "rg_end rg = 0"
  shows "alloc_rows (mm\<lparr>symrgtbl := (symrgtbl mm)(i := rg)\<rparr>) = filter (\<lambda>row. fst row \<noteq> i) (alloc_rows mm)"
proof -
  have "filter (\<lambda>it. \<not> (rg_start (((symrgtbl mm)(i := rg)) it) = 0 \<and> rg_end (((symrgtbl mm)(i := rg)) it) = 0)) xs =
    filter (\<lambda>it. it \<noteq> i \<and> \<not> (rg_start (symrgtbl mm it) = 0 \<and> rg_end (symrgtbl mm it) = 0)) xs" for xs
    using assms by (intro filter_cong) auto
  then show ?thesis
    by (auto simp: alloc_rows_def filter_map o_def conj_commute intro!: map_cong)
qed

lemma mset_concat_update:
  assumes "i < length xs" "mset (f y) = add_mset r (mset (f (xs ! i)))"
  shows "mset (concat (map f (xs[i := y]))) = add_mset r (mset (concat (map f xs)))"
  using assms
proof (induction xs arbitrary: i)
  case (Cons x xs)
  then show ?case by (cases i) auto
qed simp

lemma free_rows_enlist:
  assumes "get_vma_by_num mm vid = Some v" "rg_start rg \<noteq> rg_end rg"
  shows "mset (free_rows (set_vma mm vid (v\<lparr>vm_freerg_list := rg # vm_freerg_list v\<rparr>))) =
    add_mset (free_row rg) (mset (free_rows mm))"
  using assms unfolding free_rows_def set_vma_def
  by (auto simp: get_vma_by_num_eq split: if_splits intro!: mset_concat_update)


text \<open>What FREE does to the areas and the symbol table of the process.\<close>

lemma free_maps:
  assumes "do_free P rgid st = ok (0, st')" "symrgtbl (mm_of st P) rgid = \<lparr>vmaid = vid, rg_start = s, rg_end = e\<rparr>"
    and "vid = 0 \<and> s < e \<or> vid = 1 \<and> e < s"
  shows "\<exists>mm v. get_vma_by_num mm vid = Some v \<and> mmap mm = mmap (mm_of st P) \<and>
    symrgtbl mm = (symrgtbl (mm_of st P))(rgid := \<lparr>vmaid = vid, rg_start = 0, rg_end = 0\<rparr>) \<and>
    mm_of st' P = set_vma mm vid (v\<lparr>vm_freerg_list := \<lparr>vmaid = vid, rg_start = s, rg_end = e\<rparr> # vm_freerg_list v\<rparr>)"
proof -
  obtain st1 mm mm' where z: "zero_loop P vid [s..e - 1] st = ok st1"
    "set_symrg (mm_of st1 P) rgid \<lparr>vmaid = vid, rg_start = 0, rg_end = 0\<rparr> = ok mm"
    "\<exists>r. enlist_vm_freerg_list mm vid \<lparr>vmaid = vid, rg_start = s, rg_end = e\<rparr> = ok (r, mm')" "st' = set_mm P mm' st1"
    using assms by (auto simp: do_free_def get_symrg_byid_def symrg_at_def Let_def split: if_splits)
  have k: "mmap (mm_of st1 P) = mmap (mm_of st P)" "symrgtbl (mm_of st1 P) = symrgtbl (mm_of st P)"
    using keeps_zero_loop [OF z(1), of "P + 1"] by (simp_all add: keeps_def)
  from z(2) have mm: "mm = (mm_of st1 P)\<lparr>symrgtbl := (symrgtbl (mm_of st1 P))(rgid := \<lparr>vmaid = vid, rg_start = 0, rg_end = 0\<rparr>)\<rparr>"
    by (auto simp: set_symrg_def)
  from z(3) assms(3) obtain v where "get_vma_by_num mm vid = Some v"
    "mm' = set_vma mm vid (v\<lparr>vm_freerg_list := \<lparr>vmaid = vid, rg_start = s, rg_end = e\<rparr> # vm_freerg_list v\<rparr>)"
    by (auto simp: enlist_vm_freerg_list_def split: if_splits)
  with z(4) k mm show ?thesis by (intro exI [of _ mm] exI [of _ v]) (simp add: set_mm_def)
qed

lemma rows_cong:
  "symrgtbl mm = symrgtbl mm' \<Longrightarrow> alloc_rows mm = alloc_rows mm'" "mmap mm = mmap mm' \<Longrightarrow> free_rows mm = free_rows mm'"
  by (simp_all add: alloc_rows_def free_rows_def)

text \<open>
  C35. The report of FREE: a region \<open>[s, e]\<close> of the stack or of the heap that FREE releases is no longer listed
  as allocated, all other allocated regions are listed as before, and the free regions listed are
  the ones before and the released region, with its number of bytes as free space.
\<close>

theorem report_after_free:
  assumes "pgfree_data P rgid st = ok (0, st')" "0 \<le> rgid" "rgid < 30"
    and "symrgtbl (mm_of st P) rgid = \<lparr>vmaid = vid, rg_start = s, rg_end = e\<rparr>"
    and "vid = 0 \<and> s < e \<or> vid = 1 \<and> e < s" "0 \<le> s" "0 \<le> e" "s < 4294967296" "e < 4294967296"
  shows "fst (print_free P st') = filter (\<lambda>row. fst row \<noteq> rgid) (fst (print_free P st)) \<and>
    mset (snd (print_free P st')) = add_mset (s, e, vid, \<bar>e - s\<bar> + 1) (mset (snd (print_free P st)))"
proof -
  let ?rg = "\<lparr>vmaid = vid, rg_start = s, rg_end = e\<rparr>"
  have "do_free P rgid st = ok (0, st')" using assms(1-3) by (simp add: pgfree_data_def s32_id)
  from free_maps [OF this assms(4,5)] obtain mm v where v: "get_vma_by_num mm vid = Some v" "mmap mm = mmap (mm_of st P)"
    "symrgtbl mm = (symrgtbl (mm_of st P))(rgid := \<lparr>vmaid = vid, rg_start = 0, rg_end = 0\<rparr>)"
    "mm_of st' P = set_vma mm vid (v\<lparr>vm_freerg_list := ?rg # vm_freerg_list v\<rparr>)" by metis
  let ?mm = "(mm_of st P)\<lparr>symrgtbl := (symrgtbl (mm_of st P))(rgid := \<lparr>vmaid = vid, rg_start = 0, rg_end = 0\<rparr>)\<rparr>"
  have "alloc_rows (mm_of st' P) = alloc_rows ?mm" by (rule rows_cong) (simp add: v(3,4) set_vma_def)
  also have "\<dots> = filter (\<lambda>row. fst row \<noteq> rgid) (alloc_rows (mm_of st P))" by (rule filter_upd_rows) simp_all
  finally have a: "alloc_rows (mm_of st' P) = filter (\<lambda>row. fst row \<noteq> rgid) (alloc_rows (mm_of st P))" .
  have "free_row ?rg = (s, e, vid, \<bar>e - s\<bar> + 1)" using assms(5-9) by (auto simp: free_row_def u64_id)
  moreover have "s \<noteq> e" using assms(5) by auto
  ultimately have "mset (free_rows (mm_of st' P)) = add_mset (s, e, vid, \<bar>e - s\<bar> + 1) (mset (free_rows mm))"
    using free_rows_enlist [OF v(1), of ?rg] v(4) by simp
  with a rows_cong(2) [OF v(2)] show ?thesis by (simp add: print_free_def)
qed

text \<open>
  The counts of \<open>RAM_dump\<close>: the frames it calls mapped are those that hold a page or are held for one,
  when every frame of RAM that is not free is in use.
\<close>

theorem report_frames:
  assumes "devices_ok st" "maxsz (mram st) = 256 * int n"
  shows "RAM_dump (mram st) = (int (card {f. used_frame st f}), int (length (free_fp_list (mram st))))"
proof -
  have fr: "distinct (free_fp_list (mram st))" "set (free_fp_list (mram st)) \<subseteq> {0..<int n}"
    using assms by (auto simp: devices_ok_def frames_ok_def frame_in_def)
  have "{f. used_frame st f} = {0..<int n} - set (free_fp_list (mram st))"
    using assms(2) by (auto simp: used_frame_def frame_in_def)
  then have "card {f. used_frame st f} = n - length (free_fp_list (mram st))"
    using fr by (simp add: card_Diff_subset distinct_card)
  moreover have "length (free_fp_list (mram st)) \<le> n"
    using card_mono [OF _ fr(2)] fr(1) by (simp add: distinct_card)
  moreover have "maxsz (mram st) sdiv PAGING_PAGESZ = int n"
    using assms(2) by (simp add: sdiv_pos PAGING_PAGESZ_def)
  ultimately show ?thesis by (simp add: RAM_dump_def free_count_eq of_nat_diff Let_def)
qed

section \<open>Witnesses\<close>

theorem report_after_free_witness:
  "\<exists>st'. pgfree_data 1 0 st_rg = ok (0, st') \<and> (10, 99, 0, 90) \<in> set (snd (print_free 1 st'))"
proof -
  have "\<forall>a. 10 \<le> a \<and> a \<le> 99 \<longrightarrow> mapped st_rg 1 a" by (auto simp: st_rg_ok(3) PAGING_PGN_eq)
  then have m: "\<forall>a \<in> set [10..98]. mapped st_rg 1 a \<and> s32 a = a" by (auto intro!: s32_id)
  obtain st1 where z: "zero_loop 1 0 [10..98] st_rg = ok st1" using zero_loop_mapped [OF st_rg_ok(1,2) m] by metis
  have k: "mmap (mm_of st1 1) = mmap (mm_of st_rg 1)" using keeps_zero_loop [OF z, of 2] by (simp add: keeps_def)
  have rg: "symrgtbl (mm_of st_rg 1) 0 = \<lparr>vmaid = 0, rg_start = 10, rg_end = 99\<rparr>"
    using st_rg_regions(1) by (simp add: region_at_def)
  then obtain st' where f: "pgfree_data 1 0 st_rg = ok (0, st')"
    using z k st_rg_area
    by (auto simp: pgfree_data_def do_free_def s32_id get_symrg_byid_def symrg_at_def set_symrg_def
        PAGING_MAX_SYMTBL_SZ_def enlist_vm_freerg_list_def get_vma_by_num_eq Let_def split: if_splits)
  have "mset (snd (print_free 1 st')) = add_mset (10, 99, 0, 90) (mset (snd (print_free 1 st_rg)))"
    using report_after_free [OF f _ _ rg] by simp
  with f show ?thesis unfolding set_mset_mset [symmetric] by (auto simp del: set_mset_mset)
qed


theorem report_frames_witness: "RAM_dump (mram (st_ex [1] [])) = (1, 1)"
proof -
  have d: "devices_ok (st_ex [1] [])" using map_okD(1) st_ex_ok [of "[1]" "[]"] by auto
  have "{f. used_frame (st_ex [1] []) f} = {0}"
    by (auto simp: used_frame_def frame_in_def st_ex_def dev512_def)
  with report_frames [OF d, of 2] show ?thesis by (simp add: st_ex_def dev512_def)
qed

end
