(* ===== verification/Mem_Test.thy ===== *)
theory Mem_Test
  imports Loader
begin

text \<open>
  The stand-alone test program of \<open>src/paging.c\<close> (target \<open>mem\<close> of the Makefile): it loads the same process
  description twice, runs the two processes in turn, one instruction each, as often as the second
  one has instructions, and dumps the legacy memory. The program never initialises the memory map
  of the processes: the paging state \<open>st\<close> is arbitrary. The legacy memory consists of static arrays,
  which start as zeros.
\<close>

fun mem_test_loop :: "nat \<Rightarrow> pcb_t \<Rightarrow> pcb_t \<Rightarrow> paging \<Rightarrow> (pcb_t \<times> pcb_t \<times> paging) res" where
  "mem_test_loop 0 ld pr st = ok (ld, pr, st)"
| "mem_test_loop (Suc n) ld pr st =
     bindR (run pr st) (\<lambda>(_, pr, st).
     bindR (run ld st) (\<lambda>(_, ld, st).
     mem_test_loop n ld pr st))"

definition mem0 :: mem where
  "mem0 = \<lparr>ram = (\<lambda>_. 0), mem_stat = (\<lambda>_. \<lparr>ms_proc = 0, ms_index = 0, ms_next = 0\<rparr>)\<rparr>"

definition mem_test_main ::
  "(string \<Rightarrow> string option) \<Rightarrow> pcb_t \<times> (nat \<Rightarrow> inst_t) \<Rightarrow> pcb_t \<times> (nat \<Rightarrow> inst_t) \<Rightarrow> paging \<Rightarrow>
   (pcb_t \<times> pcb_t \<times> paging \<times> (int \<times> int \<times> int \<times> mem_stat_t \<times> (int \<times> byte) list) list) res" where
  "mem_test_main files fr1 fr2 st =
     bindR (load files (fst fr1) (snd fr1) 1 ''input/p0'') (\<lambda>(ld, avail_pid).
     bindR (load files (fst fr2) (snd fr2) avail_pid ''input/p0'') (\<lambda>(pr, _).
     bindR (mem_test_loop (nat (code_size (code pr))) ld pr st) (\<lambda>(ld, pr, st).
     ok (ld, pr, st, dump mem0))))"

section \<open>Facts\<close>

lemma run_moves:
  assumes "run p st = ok (stat, p', st')" "0 \<le> pc p" "code_size (code p) < 4294967296"
  shows "code p' = code p \<and> pid p' = pid p \<and> pc p' = (if pc p < code_size (code p) then pc p + 1 else pc p)"
  using assms by (auto simp: run_def Let_def u32_id split: if_splits)

lemma mem_test_loop_pc:
  assumes "mem_test_loop n ld pr st = ok (ld', pr', st')" "0 \<le> pc ld" "0 \<le> pc pr"
    and "code_size (code ld) < 4294967296" "code_size (code pr) < 4294967296"
    and "pc ld + int n = code_size (code ld)" "pc pr + int n = code_size (code pr)"
  shows "pc ld' = code_size (code ld) \<and> pc pr' = code_size (code pr) \<and> code ld' = code ld \<and> code pr' = code pr \<and>
    pid ld' = pid ld \<and> pid pr' = pid pr"
  using assms
proof (induction n arbitrary: ld pr st)
  case (Suc n)
  obtain a pr1 st1 b ld1 st2 where r: "run pr st = ok (a, pr1, st1)" "run ld st1 = ok (b, ld1, st2)"
    "mem_test_loop n ld1 pr1 st2 = ok (ld', pr', st')" using Suc.prems(1) by auto
  note p = run_moves [OF r(1) Suc.prems(3,5)] and l = run_moves [OF r(2) Suc.prems(2,4)]
  from Suc.IH [OF r(3)] Suc.prems(2-7) p l show ?case by simp
qed simp

lemma dump_mem0: "dump mem0 = []"
  by (simp add: dump_def mem0_def)

lemma load_size:
  assumes "load files proc0 junk av path = ok (p, av')" "files path = Some inp" "scan_many scan_u 2 inp = ([a, b], rest)"
  shows "pid p = av \<and> pc p = 0 \<and> code_size (code p) = b \<and> av' = u32 (av + 1)"
  using assms by (auto simp: load_def Let_def)

section \<open>Properties\<close>

text \<open>
  The test program runs both processes to their end: when it returns, the two processes have the ids 1
  and 2, each has executed all the instructions its description announces, and the dump of the
  legacy memory is empty whatever they did.
\<close>

theorem mem_test_complete:
  assumes "mem_test_main files fr1 fr2 st = ok (ld, pr, st', out)"
    and "files ''input/p0'' = Some inp" "scan_many scan_u 2 inp = ([q, n], rest)"
  shows "pid ld = 1 \<and> pid pr = 2 \<and> pc ld = n \<and> pc pr = n \<and> code_size (code ld) = n \<and> code_size (code pr) = n \<and> out = []"
proof -
  obtain ld0 av pr0 av' where l: "load files (fst fr1) (snd fr1) 1 ''input/p0'' = ok (ld0, av)"
    "load files (fst fr2) (snd fr2) av ''input/p0'' = ok (pr0, av')"
    "mem_test_loop (nat (code_size (code pr0))) ld0 pr0 st = ok (ld, pr, st')" "out = dump mem0"
    using assms(1) by (auto simp: mem_test_main_def)
  note a = load_size [OF l(1) assms(2,3)] and b = load_size [OF l(2) assms(2,3)]
  have n: "0 \<le> n" "n < 4294967296" using scan_many_range [OF assms(3), of n] by auto
  have "u32 (1 + 1) = 2" by (simp add: u32_id)
  with mem_test_loop_pc [OF l(3)] a b n l(4) show ?thesis by (simp add: dump_mem0)
qed


text \<open>A description made of CALC instructions always gets that far.\<close>

lemma run_calc:
  assumes "0 \<le> pc p" "pc p < int (length (code_text (code p)))" "code_size (code p) = int (length (code_text (code p)))"
    and "\<forall>ins \<in> set (code_text (code p)). opcode ins = CALC"
  shows "run p st = ok (0, p\<lparr>pc := u32 (pc p + 1)\<rparr>, st)"
  using assms by (simp add: run_def fetch_def exec_def calc_def zless_nat_conj nat_less_iff Let_def)

lemma mem_test_loop_calc:
  assumes "0 \<le> pc ld" "pc pr = pc ld" "pc ld + int n = int k" "int k < 4294967296"
    and "length (code_text (code ld)) = k" "code_size (code ld) = int k" "\<forall>ins \<in> set (code_text (code ld)). opcode ins = CALC"
    and "length (code_text (code pr)) = k" "code_size (code pr) = int k" "\<forall>ins \<in> set (code_text (code pr)). opcode ins = CALC"
  shows "\<exists>ld' pr'. mem_test_loop n ld pr st = ok (ld', pr', st)"
  using assms
proof (induction n arbitrary: ld pr)
  case (Suc n)
  have "u32 (pc ld + 1) = pc ld + 1" using Suc.prems by (intro u32_id) simp_all
  then have r: "run pr st = ok (0, pr\<lparr>pc := pc ld + 1\<rparr>, st)" "run ld st = ok (0, ld\<lparr>pc := pc ld + 1\<rparr>, st)"
    using run_calc [of pr st] run_calc [of ld st] Suc.prems by simp_all
  have "\<exists>ld' pr'. mem_test_loop n (ld\<lparr>pc := pc ld + 1\<rparr>) (pr\<lparr>pc := pc ld + 1\<rparr>) st = ok (ld', pr', st)"
    by (rule Suc.IH) (use Suc.prems in simp_all)
  with r show ?case by simp
qed simp

theorem mem_test_calc:
  assumes "files ''input/p0'' = Some (render q is)" "int q < 4294967296" "int (length is) < 4294967296" "\<forall>ins \<in> set is. opcode ins = CALC"
  shows "\<exists>ld pr. mem_test_main files fr1 fr2 st = ok (ld, pr, st, [])"
proof -
  have args: "\<forall>ins \<in> set is. \<forall>v \<in> set (args_of ins). arg_ok v" using assms(4) by (auto simp: args_of_def)
  have calc: "opcode (completed ins j) = CALC" if "ins \<in> set is" for ins j
    using assms(4) that by (simp add: completed_def args_of_def store_args_def)
  note L = load_render [of files "''input/p0''", OF assms(1-3) args]
  obtain ld where ld: "load files (fst fr1) (snd fr1) 1 ''input/p0'' = ok (ld, u32 (1 + 1))" "pc ld = 0"
    "code_size (code ld) = int (length is)" "code_text (code ld) = map (\<lambda>k. completed (is ! k) (snd fr1 k)) [0..<length is]"
    using L by metis
  obtain pr av where pr: "load files (fst fr2) (snd fr2) (u32 (1 + 1)) ''input/p0'' = ok (pr, av)" "pc pr = 0"
    "code_size (code pr) = int (length is)" "code_text (code pr) = map (\<lambda>k. completed (is ! k) (snd fr2 k)) [0..<length is]"
    using L by metis
  have "\<exists>ld' pr'. mem_test_loop (length is) ld pr st = ok (ld', pr', st)"
    by (rule mem_test_loop_calc [of _ _ _ "length is"]) (use ld pr assms(3) calc in \<open>auto\<close>)
  then show ?thesis using ld(1) pr(1,3) by (auto simp: mem_test_main_def dump_mem0)
qed

section \<open>Witnesses\<close>

definition calc_ex :: "inst_t list" where
  "calc_ex = [\<lparr>opcode = CALC, arg_0 = 7, arg_1 = 7, arg_2 = 7\<rparr>, \<lparr>opcode = CALC, arg_0 = 7, arg_1 = 7, arg_2 = 7\<rparr>]"

theorem mem_test_calc_witness:
  "\<exists>ld pr. mem_test_main (\<lambda>_. Some (render 3 calc_ex)) (proc_ex, junk_ex) (proc_ex, junk_ex) st_rg = ok (ld, pr, st_rg, [])"
  by (rule mem_test_calc [of _ 3 calc_ex]) (simp_all add: calc_ex_def)

theorem mem_test_complete_witness:
  "\<exists>ld pr. mem_test_main (\<lambda>_. Some (render 3 [])) (proc_ex, junk_ex) (proc_ex, junk_ex) st_rg = ok (ld, pr, st_rg, []) \<and>
     pid ld = 1 \<and> pid pr = 2"
proof -
  obtain ld pr where r: "mem_test_main (\<lambda>_. Some (render 3 [])) (proc_ex, junk_ex) (proc_ex, junk_ex) st_rg = ok (ld, pr, st_rg, [])"
    using mem_test_calc [of "\<lambda>_. Some (render 3 [])" 3 "[]"] by fastforce
  have "scan_many scan_u 2 (render 3 []) = ([3, 0], body [])" by code_simp
  from mem_test_complete [OF r refl this] r show ?thesis by blast
qed

end
