(* ===== verification/Spec2Isabelle.thy ===== *)
theory Spec2Isabelle
  imports Shapes Races Sched_Single Layout Fifo Report Mem_Test
begin

text \<open>
  A verification of the operating system simulator: a program that runs simulated processes on
  several CPU threads, with a multi-level queue scheduler, a timer that keeps the threads in step,
  and paged virtual memory with swapping. Paths below are relative to the repository.

  \<^bold>\<open>The program.\<close> \<open>main\<close> (\<open>src/os.c\<close>) reads a configuration, attaches one timer device per CPU and one for the
  loader, formats RAM and the swap devices, and starts the threads. The loader thread waits for the
  start time of each process, reads its description (\<open>src/loader.c\<close>), gives it a memory map
  (\<open>init_mm\<close>) and adds it to the ready queues (\<open>src/sched.c\<close>, \<open>src/queue.c\<close>). A CPU thread takes a
  process, executes one instruction per time slot (\<open>src/cpu.c\<close>), puts the process back when its slice is
  used up and releases it when its program is at the end. Memory instructions go through page
  tables, regions and page replacement (\<open>src/mm-vm.c\<close>, \<open>src/mm.c\<close>) to the devices
  (\<open>src/mm-memphy.c\<close>). After every slot a thread meets the others in \<open>next_slot\<close> (\<open>src/timer.c\<close>).

  \<^bold>\<open>Conventions.\<close> C integers are mathematical integers with the conversions of their types written out
  (\<open>u32\<close>, \<open>s32\<close>, \<open>u64\<close>); page table entries, bytes and registers are words. An operation returns
  \<open>ok\<close> of its results or the fault in which the run of the C code ends (\<open>fault\<close> in \<open>OS_Prelude\<close>: null
  or wild pointer, index out of bounds, unwritten variable, endless loop, \<open>exit\<close>). Memory from
  \<open>malloc\<close> has arbitrary content, which is an argument of the definitions that read it. Linked
  lists that are only walked and changed at their ends are lists; the LRU list, whose links are
  rewritten in the middle, is an explicit heap of nodes.

  \<^bold>\<open>Theories, in the order of their imports.\<close>

  \<^item> \<open>OS_Prelude\<close>: conversions, faults, results and the lemmas shared by all components.
  \<^item> \<open>Bitops\<close>, \<open>Pte\<close>: the macros of \<open>include/bitops.h\<close> and \<open>include/mm.h\<close>, and \<open>init_pte\<close>, \<open>pte_set_fpn\<close>,
    \<open>pte_set_swap\<close> of \<open>mm.c\<close>: what each field of an entry holds after each operation, and that the
    field a fault reads (FPN) is not the one \<open>pte_set_swap\<close> writes (SWPOFF). \<open>Layout\<close>: the macros that
    nothing uses.
  \<^item> \<open>Memphy\<close>: devices (\<open>MEMPHY_*\<close>, \<open>init_memphy\<close>, \<open>RAM_dump\<close>, \<open>__swap_cp_page\<close>). Locales \<open>byte_device\<close>
    and \<open>frame_pool\<close> state what paging relies on; both are interpreted on the operations. Round trip
    of a page through swap, invariant of the free list, initial free list.
  \<^item> \<open>Queue\<close>, \<open>Sched\<close>: the bounded queue (locale \<open>bounded_queue\<close>, first in first out) and the scheduler
    (\<open>get_mlq_proc\<close>, \<open>put_mlq_proc\<close>, \<open>add_mlq_proc\<close>, locale \<open>process_pool\<close>): which queue is served,
    termination of the search, conservation of processes, a bound on the waiting time.
    \<open>Sched_Single\<close>: the scheduler without \<open>MLQ_SCHED\<close>, which never schedules anything.
  \<^item> \<open>Lru\<close>: \<open>update_LRU_lst\<close>, \<open>add_LRU_page\<close>, \<open>find_LRU_victim_page\<close> on the heap of nodes. The pointer
    structure refines a list of entries ordered by recency (locale \<open>replacement_policy\<close>).
  \<^item> \<open>Vma\<close>: memory maps, areas, free regions and the symbol table. The search \<open>get_free_vmrg_area\<close> is
    proved for both directions of growth from one contract (locale \<open>region_dir\<close>, interpreted twice):
    result, what it consumes, termination, and the request on which it does not end; the overlap check
    is exact where its product does not overflow.
  \<^item> \<open>Paging\<close>: \<open>pg_getpage\<close>, \<open>pg_getval\<close>, \<open>pg_setval\<close>, \<open>alloc_pages_range\<close>, \<open>vmap_page_range\<close>, \<open>vm_map_ram\<close>,
    \<open>inc_vma_limit\<close>, \<open>__alloc\<close>, \<open>__free\<close>, \<open>__read\<close>, \<open>__write\<close> (named \<open>do_alloc\<close>, \<open>do_free\<close>, \<open>do_read\<close>,
    \<open>do_write\<close>), the instructions \<open>pgalloc\<close>, \<open>pgmalloc\<close>, \<open>pgfree_data\<close>, \<open>pgread\<close>, \<open>pgwrite\<close>,
    \<open>free_pcb_memph\<close> and \<open>print_pgtbl\<close>.
  \<^item> \<open>Frames\<close>: the ownership invariant \<open>map_ok\<close> (mapped pages have private frames, free frames are not
    mapped, the LRU list names mapped pages) along every step. \<open>Faults\<close>: each branch of a page fault.
    \<open>Access\<close>: READ, WRITE and FREE, with their bounds and the bytes they change. \<open>Alloc\<close>: growth of the
    stack and the heap, refused requests.
  \<^item> \<open>Fifo\<close>: the same functions as they are compiled without \<open>LRU\<close>; page faults, round trip through swap,
    new pages, and two defects of that build.
  \<^item> \<open>Mem\<close>, \<open>Cpu\<close>: the legacy memory of \<open>src/mem.c\<close> and \<open>run\<close> with its instructions; what an instruction leaves
    alone in other processes. \<open>Isolation\<close>: an ownership invariant weaker than \<open>map_ok\<close> (\<open>own_ok\<close>, which allows
    stale entries in the LRU list) that every instruction keeps without any assumption on regions,
    offsets or the outcome. \<open>Report\<close>: the status reports of \<open>__alloc\<close> and \<open>__free\<close>.
  \<^item> \<open>Scan\<close>, \<open>Loader\<close>, \<open>Config\<close>: the \<open>fscanf\<close> conversions in use, \<open>load\<close> and \<open>read_config\<close>, which read back
    what a writer of the file format puts into a file. \<open>Mem_Test\<close>: the test program \<open>src/paging.c\<close>.
  \<^item> \<open>Traces\<close>: runs of labelled step relations, with locales for invariants of runs (\<open>traced_system\<close>) and for
    progress (\<open>quiet_system\<close>). \<open>Timer\<close>: \<open>src/timer.c\<close> as such a system; barrier, safety and progress.
    \<open>Races\<close>: READ and WRITE split at the locks they take, for several CPUs inside them at once: every
    interleaving keeps the ownership of frames, and in one of them a write lands in the page of another
    process and is lost to its own.
  \<^item> \<open>Os\<close>: \<open>src/os.c\<close> as a step relation over the scheduler, the memory, the timer and the shared counters.
    \<open>Os_Procs\<close>: no process is lost or shared. \<open>Os_Stop\<close>: clean shutdown, the threads as users of the
    timer's contract, and the run in which the unprotected counter loses an update. \<open>Os_Slice\<close>:
    preemption at the end of a time slice. \<open>Os_Mem\<close>: no two pages of any processes share a frame in
    any run with one CPU, and no deadlock. \<open>Shapes\<close>: memory maps keep their two areas, with their area
    numbers, non-empty free lists and ends on page boundaries, in every run.

  \<^bold>\<open>Granularity and bounds.\<close> In \<open>Timer\<close> a step is one critical section; a wait on a condition variable may wake
  up spuriously. In \<open>Os\<close> a step is one access to shared state: a scheduler call (under \<open>queue_lock\<close>), one
  instruction, a critical section of the timer, one read or one write of \<open>done\<close> and \<open>cnt_proc_done\<close>.
  A whole instruction is one step although \<open>MEM_in_use\<close> exists once per source file and does not cover
  it. Interleavings inside READ and WRITE are the subject of \<open>Races\<close>, where \<open>pg_getpage\<close>, a device access and
  an LRU update are one step each; those inside an allocation are outside the model. ALLOC and MALLOC evict
  and map pages without \<open>MEM_in_use\<close> of \<open>mm-vm.c\<close>, so with several CPUs an allocation can meet a page fault
  half-way: the isolation of whole runs (\<open>os_memory_isolation\<close>) is claimed for one CPU only. The
  properties of whole runs that say nothing about frames (processes, shutdown, slices, shape of memory
  maps) do not depend on this, because a process runs on one CPU at a time and its areas and
  symbols are changed by its own instructions only. No definition uses fuel:
  loops are structural recursion, recursion with a measure, or partial functions to \<open>option\<close>
  (\<open>get_mlq_proc\<close>, the walks of the LRU list, \<open>get_free_vmrg_area\<close>) for which returning is proved
  where the properties claim it. \<open>init_mm\<close> does not clear the page table it allocates: the isolation of
  runs assumes that fresh tables have no present bit set (\<open>clean_tables\<close>). The properties of memory assume devices of at most 2 MB of RAM
  (the width of the frame number) and an address space of at most 4 MB (the size of the page table).

  \<^bold>\<open>Not modelled.\<close> Terminal output other than the lists of the dump functions; \<open>sleep\<close> and \<open>usleep\<close>; terminal
  colours, prototypes, and the macros of \<open>bitops.h\<close> over \<open>BITS_PER_LONG_LONG\<close>, which is not defined. The four swap
  devices are reduced to the active one, which never changes: \<open>main\<close> passes an array of structures as
  an array of pointers, so every use of another device follows a wild pointer, and that is the fault
  the model returns.
\<close>

end
